(* ===== verification/Mist_Prelude.thy ===== *)
theory Mist_Prelude
  imports Main "HOL-Library.Word" "HOL-Library.Finite_Map" "HOL-Library.Multiset"
begin

text \<open>
  Shared vocabulary of the development: the machine integer types of the Rust
  sources, results as sums (\<open>Inl\<close> carries the error), saturating and narrowing
  arithmetic, the byte orders of \<^verbatim>\<open>to_le_bytes\<close>, \<^verbatim>\<open>to_be_bytes\<close> and their inverses,
  and the generic lemmas on lists, finite maps and words that the component
  theories share.
\<close>

section \<open>Machine integers, bytes and results\<close>

type_synonym u8 = "8 word"
type_synonym u16 = "16 word"
type_synonym u32 = "32 word"
type_synonym u64 = "64 word"
type_synonym i64 = "64 word" \<comment> \<open>two's complement; read with \<open>sint\<close>\<close>
type_synonym bytes = "u8 list"
type_synonym ('a, 'e) rust_result = "'e + 'a"

abbreviation Err :: "'e \<Rightarrow> 'e + 'a" where "Err \<equiv> Inl"
abbreviation Ok :: "'a \<Rightarrow> 'e + 'a" where "Ok \<equiv> Inr"

named_theorems wire_simps \<open>byte layouts: lengths, prefixes and round trips of encodings\<close>
named_theorems validate_simps \<open>the validation predicates of the wire protocol\<close>

text \<open>Rust's \<^verbatim>\<open>saturating_sub\<close> on an unsigned width.\<close>

definition sat_sub :: "'w::len word \<Rightarrow> 'w word \<Rightarrow> 'w word" where
  "sat_sub a b = (if b \<le> a then a - b else 0)"

lemma unat_sat_sub [simp]: "unat (sat_sub a b) = unat a - unat b"
proof (cases "b \<le> a")
  case True
  then show ?thesis by (simp add: sat_sub_def unat_sub)
next
  case False
  then show ?thesis by (simp add: sat_sub_def word_le_nat_alt)
qed

lemma sat_sub_eq_0_iff: "sat_sub a b = 0 \<longleftrightarrow> a \<le> b"
proof -
  have "sat_sub a b = 0 \<longleftrightarrow> unat (sat_sub a b) = 0"
    by (metis unat_eq_zero)
  then show ?thesis by (simp add: word_le_nat_alt)
qed

lemma unat_Suc_word:
  fixes w :: "'w::len word"
  assumes "unat w + 1 < 2 ^ LENGTH('w)"
  shows "unat (w + 1) = unat w + 1"
  using assms by (simp add: unat_word_ariths)

lemma unat_of_nat_small:
  "n < 2 ^ LENGTH('w) \<Longrightarrow> unat (of_nat n :: 'w::len word) = n"
  by (simp add: take_bit_nat_eq_self unat_of_nat)

section \<open>Byte orders\<close>

text \<open>
  \<open>le_of_nat n x\<close> is the little-endian image of \<open>x\<close> in \<open>n\<close> bytes; the big-endian
  image is its reversal. The typed conversions below are Rust's
  \<^verbatim>\<open>to_le_bytes\<close>/\<^verbatim>\<open>from_le_bytes\<close> and \<^verbatim>\<open>to_be_bytes\<close>/\<^verbatim>\<open>from_be_bytes\<close>.
\<close>

fun le_of_nat :: "nat \<Rightarrow> nat \<Rightarrow> bytes" where
  "le_of_nat 0 x = []"
| "le_of_nat (Suc n) x = of_nat (x mod 256) # le_of_nat n (x div 256)"

fun nat_of_le :: "bytes \<Rightarrow> nat" where
  "nat_of_le [] = 0"
| "nat_of_le (b # bs) = unat b + 256 * nat_of_le bs"

definition le_bytes :: "nat \<Rightarrow> 'w::len word \<Rightarrow> bytes" where
  "le_bytes n w = le_of_nat n (unat w)"

definition be_bytes :: "nat \<Rightarrow> 'w::len word \<Rightarrow> bytes" where
  "be_bytes n w = rev (le_of_nat n (unat w))"

definition of_le_bytes :: "bytes \<Rightarrow> 'w::len word" where
  "of_le_bytes bs = of_nat (nat_of_le bs)"

definition of_be_bytes :: "bytes \<Rightarrow> 'w::len word" where
  "of_be_bytes bs = of_nat (nat_of_le (rev bs))"

lemma le_of_nat_numeral: "le_of_nat (numeral k) x = of_nat (x mod 256) # le_of_nat (pred_numeral k) (x div 256)"
  unfolding numeral_eq_Suc [of k] by (rule le_of_nat.simps)

lemma length_le_of_nat [simp]: "length (le_of_nat n x) = n"
  by (induction n arbitrary: x) auto

lemma length_le_bytes [simp]: "length (le_bytes n w) = n"
  by (simp add: le_bytes_def)

lemma length_be_bytes [simp]: "length (be_bytes n w) = n"
  by (simp add: be_bytes_def)

lemma unat_byte_of_nat: "unat (of_nat (x mod 256) :: u8) = x mod 256"
  by (rule unat_of_nat_small) simp

lemma nat_of_le_of_nat: "nat_of_le (le_of_nat n x) = x mod 256 ^ n"
proof (induction n arbitrary: x)
  case 0
  then show ?case by simp
next
  case (Suc n)
  then show ?case
    by (simp add: unat_byte_of_nat mod_mult2_eq)
qed

lemma nat_of_le_less: "nat_of_le bs < 256 ^ length bs"
proof (induction bs)
  case Nil
  then show ?case by simp
next
  case (Cons b bs)
  have "unat b < 256" using unsigned_less [of b, where ?'a = nat] by simp
  with Cons show ?case by simp
qed

lemma le_of_nat_of_le: "le_of_nat (length bs) (nat_of_le bs) = bs"
proof (induction bs)
  case Nil
  then show ?case by simp
next
  case (Cons b bs)
  have b: "unat b < 256" using unsigned_less [of b, where ?'a = nat] by simp
  with Cons show ?case by simp
qed

lemma of_le_le_bytes:
  fixes w :: "'w::len word"
  assumes "LENGTH('w) = 8 * n"
  shows "of_le_bytes (le_bytes n w) = w"
proof -
  have "unat w < 256 ^ n"
    using unsigned_less [of w, where ?'a = nat] assms by (simp add: power_mult)
  then show ?thesis
    by (simp add: of_le_bytes_def le_bytes_def nat_of_le_of_nat)
qed

lemma of_be_be_bytes:
  fixes w :: "'w::len word"
  assumes "LENGTH('w) = 8 * n"
  shows "of_be_bytes (be_bytes n w) = w"
proof -
  have "unat w < 256 ^ n"
    using unsigned_less [of w, where ?'a = nat] assms by (simp add: power_mult)
  then show ?thesis
    by (simp add: of_be_bytes_def be_bytes_def nat_of_le_of_nat)
qed

lemma le_bytes_of_le:
  fixes bs :: bytes
  assumes "LENGTH('w) = 8 * length bs"
  shows "le_bytes (length bs) (of_le_bytes bs :: 'w::len word) = bs"
proof -
  have "nat_of_le bs < 2 ^ LENGTH('w)"
    using nat_of_le_less [of bs] assms by (simp add: power_mult)
  then show ?thesis
    by (simp add: of_le_bytes_def le_bytes_def unat_of_nat_small le_of_nat_of_le)
qed

lemma be_bytes_of_be:
  fixes bs :: bytes
  assumes "LENGTH('w) = 8 * length bs"
  shows "be_bytes (length bs) (of_be_bytes bs :: 'w::len word) = bs"
proof -
  have "nat_of_le (rev bs) < 2 ^ LENGTH('w)"
    using nat_of_le_less [of "rev bs"] assms by (simp add: power_mult)
  then have "be_bytes (length bs) (of_be_bytes bs :: 'w word) = rev (le_of_nat (length (rev bs)) (nat_of_le (rev bs)))"
    by (simp add: of_be_bytes_def be_bytes_def unat_of_nat_small)
  then show ?thesis by (simp only: le_of_nat_of_le rev_rev_ident)
qed

lemma of_be_bytes_cong_width:
  "length bs = n \<Longrightarrow> LENGTH('w) = 8 * n \<Longrightarrow> be_bytes n (of_be_bytes bs :: 'w::len word) = bs"
  using be_bytes_of_be [where bs = bs and 'w = 'w] by simp

lemma le_bytes_inject:
  fixes v w :: "'w::len word"
  assumes "LENGTH('w) = 8 * n"
  shows "le_bytes n v = le_bytes n w \<longleftrightarrow> v = w"
  using assms by (metis of_le_le_bytes)

lemma be_bytes_inject:
  fixes v w :: "'w::len word"
  assumes "LENGTH('w) = 8 * n"
  shows "be_bytes n v = be_bytes n w \<longleftrightarrow> v = w"
  using assms by (metis of_be_be_bytes)

lemma byte_order_widths [wire_simps]:
  "of_le_bytes (le_bytes 2 (a :: u16)) = a" "of_be_bytes (be_bytes 2 a) = a"
  "of_le_bytes (le_bytes 4 (b :: u32)) = b" "of_be_bytes (be_bytes 4 b) = b"
  "of_le_bytes (le_bytes 8 (c :: u64)) = c" "of_be_bytes (be_bytes 8 c) = c"
  by (simp_all add: of_le_le_bytes of_be_be_bytes)

section \<open>Slices\<close>

text \<open>\<open>slice i j xs\<close> is Rust's \<^verbatim>\<open>&xs[i..j]\<close> where \<open>i \<le> j \<le> length xs\<close>.\<close>

definition slice :: "nat \<Rightarrow> nat \<Rightarrow> 'a list \<Rightarrow> 'a list" where
  "slice i j xs = take (j - i) (drop i xs)"

lemma length_slice [simp]: "j \<le> length xs \<Longrightarrow> length (slice i j xs) = j - i"
  by (simp add: slice_def)

lemma slice_append_left: "j \<le> length xs \<Longrightarrow> slice i j (xs @ ys) = slice i j xs"
  by (cases "i \<le> j") (simp_all add: slice_def)

lemma slice_append_mid [simp]: "slice (length xs) (length xs + length ys) (xs @ ys) = ys"
  by (simp add: slice_def)

section \<open>Finite maps\<close>

definition fmap_size :: "('k, 'v) fmap \<Rightarrow> nat" where
  "fmap_size m = card (fset (fmdom m))"

definition fmap_sum :: "('v \<Rightarrow> 'n::comm_monoid_add) \<Rightarrow> ('k, 'v) fmap \<Rightarrow> 'n" where
  "fmap_sum f m = (\<Sum>k \<in> fset (fmdom m). case fmlookup m k of None \<Rightarrow> 0 | Some v \<Rightarrow> f v)"

lemma fmdom_in_iff: "k \<in> fset (fmdom m) \<longleftrightarrow> fmlookup m k \<noteq> None"
  by (metis fmdom_notD fmdom_notI)

lemma fmap_size_empty [simp]: "fmap_size fmempty = 0"
  by (simp add: fmap_size_def)

lemma fmap_sum_empty [simp]: "fmap_sum f fmempty = 0"
  by (simp add: fmap_sum_def)

lemma fmap_size_upd:
  "fmap_size (fmupd k v m) = (if fmlookup m k = None then Suc (fmap_size m) else fmap_size m)"
  using fmdom_in_iff [of k m] by (auto simp: fmap_size_def card_insert_if)

lemma fmap_size_drop:
  "fmlookup m k = Some v \<Longrightarrow> Suc (fmap_size (fmdrop k m)) = fmap_size m"
proof -
  assume k: "fmlookup m k = Some v"
  have d: "fset (fmdom (fmdrop k m)) = fset (fmdom m) - {k}" by simp
  have m: "k \<in> fset (fmdom m)" using k by (simp add: fmdom_in_iff)
  show ?thesis unfolding fmap_size_def d by (rule card_Suc_Diff1) (use m in auto)
qed

lemma fmap_size_drop_less:
  "fmlookup m k = Some v \<Longrightarrow> fmap_size (fmdrop k m) < fmap_size m"
  using fmap_size_drop [of m k v] by simp

lemma fmap_sum_upd_new:
  assumes "fmlookup m k = None"
  shows "fmap_sum f (fmupd k v m) = f v + fmap_sum f m"
proof -
  have k: "k \<notin> fset (fmdom m)" using assms by (simp add: fmdom_in_iff)
  have "fmap_sum f (fmupd k v m) = f v + (\<Sum>j \<in> fset (fmdom m). case fmlookup (fmupd k v m) j of None \<Rightarrow> 0 | Some v \<Rightarrow> f v)"
    using k by (simp add: fmap_sum_def)
  also have "(\<Sum>j \<in> fset (fmdom m). case fmlookup (fmupd k v m) j of None \<Rightarrow> 0 | Some v \<Rightarrow> f v) = fmap_sum f m"
    unfolding fmap_sum_def using k by (intro sum.cong) auto
  finally show ?thesis .
qed

lemma fmap_sum_drop:
  assumes "fmlookup m k = Some v"
  shows "fmap_sum f m = f v + fmap_sum f (fmdrop k m)"
proof -
  have k: "k \<in> fset (fmdom m)" using assms by (simp add: fmdom_in_iff)
  have "fmap_sum f m = f v + (\<Sum>j \<in> fset (fmdom m) - {k}. case fmlookup m j of None \<Rightarrow> 0 | Some v \<Rightarrow> f v)"
    using k assms by (simp add: fmap_sum_def sum.remove)
  also have "(\<Sum>j \<in> fset (fmdom m) - {k}. case fmlookup m j of None \<Rightarrow> 0 | Some v \<Rightarrow> f v) = fmap_sum f (fmdrop k m)"
    unfolding fmap_sum_def by (intro sum.cong) auto
  finally show ?thesis .
qed

lemma fmap_sum_upd_old:
  assumes "fmlookup m k = Some u"
  shows "fmap_sum f (fmupd k v m) + f u = fmap_sum f m + f v"
proof -
  have "fmupd k v m = fmupd k v (fmdrop k m)"
    by (rule fmap_ext) auto
  moreover have "fmap_sum f (fmupd k v (fmdrop k m)) = f v + fmap_sum f (fmdrop k m)"
    by (simp add: fmap_sum_upd_new)
  ultimately show ?thesis using fmap_sum_drop [OF assms, of f] by (simp add: ac_simps)
qed

lemma fmap_sum_mono:
  fixes f g :: "'v \<Rightarrow> nat"
  shows "(\<And>k v. fmlookup m k = Some v \<Longrightarrow> f v \<le> g v) \<Longrightarrow> fmap_sum f m \<le> fmap_sum g m"
  unfolding fmap_sum_def by (intro sum_mono) (auto split: option.split)

lemma fmap_sum_cong:
  "(\<And>k v. fmlookup m k = Some v \<Longrightarrow> f v = g v) \<Longrightarrow> fmap_sum f m = fmap_sum g m"
  unfolding fmap_sum_def by (intro sum.cong refl) (auto split: option.split)

lemma fmap_sum_ge:
  fixes f :: "'v \<Rightarrow> nat"
  assumes "fmlookup m k = Some v"
  shows "f v \<le> fmap_sum f m"
  using fmap_sum_drop [OF assms, of f] by simp

end
