(* ===== verification/Proto_Types.thy ===== *)
theory Proto_Types
  imports Mist_Prelude
begin

text \<open>
  The domain types of the wire protocol (\<^verbatim>\<open>crates/mist-proto/src/types.rs\<close>), the hard
  caps (\<^verbatim>\<open>caps.rs\<close>), the validation combinators (\<^verbatim>\<open>validate.rs\<close>) and the hexadecimal
  form of the VM identity (\<^verbatim>\<open>lib.rs\<close>). A \<open>name\<close> is a type of its own whose values
  all satisfy the path-component grammar, as the private field of the Rust newtype
  guarantees; the field names of a struct carry a prefix where two structs share them.
\<close>

section \<open>Caps\<close>

definition MAX_FRAME :: nat where "MAX_FRAME = 2 * 1024 * 1024"
definition MAX_FRAME_BULK :: nat where "MAX_FRAME_BULK = 4 * 1024 * 1024"
definition MAX_NAME :: nat where "MAX_NAME = 255"
definition MAX_SYMLINK :: nat where "MAX_SYMLINK = 4096"
definition MAX_STR :: nat where "MAX_STR = 128"
definition MAX_SHARES :: nat where "MAX_SHARES = 64"
definition MAX_RECORDS_PER_BATCH :: nat where "MAX_RECORDS_PER_BATCH = 512"
definition MAX_SNAP_ENTRIES :: nat where "MAX_SNAP_ENTRIES = 2048"
definition MAX_STATBATCH :: nat where "MAX_STATBATCH = 4096"
definition MAX_READ_LEN :: u32 where "MAX_READ_LEN = 4 * 1024 * 1024"

lemmas cap_defs = MAX_FRAME_def MAX_FRAME_BULK_def MAX_NAME_def MAX_SYMLINK_def MAX_STR_def
  MAX_SHARES_def MAX_RECORDS_PER_BATCH_def MAX_SNAP_ENTRIES_def MAX_STATBATCH_def
  MAX_READ_LEN_def

section \<open>Validation results\<close>

type_synonym validate_error = string
type_synonym validation = "validate_error + unit"

text \<open>\<^verbatim>\<open>impl Validate for Option<T>\<close> and \<^verbatim>\<open>for Vec<T>\<close> (\<^verbatim>\<open>try_for_each\<close> stops at the first error).\<close>

definition validate_option :: "('a \<Rightarrow> validation) \<Rightarrow> 'a option \<Rightarrow> validation" where
  "validate_option v x = (case x of Some y \<Rightarrow> v y | None \<Rightarrow> Ok ())"

fun validate_vec :: "('a \<Rightarrow> validation) \<Rightarrow> 'a list \<Rightarrow> validation" where
  "validate_vec v [] = Ok ()"
| "validate_vec v (x # xs) = (case v x of Err e \<Rightarrow> Err e | Ok _ \<Rightarrow> validate_vec v xs)"

text \<open>\<^verbatim>\<open>a?; b\<close> on validations.\<close>

definition and_then :: "validation \<Rightarrow> validation \<Rightarrow> validation" where
  "and_then a b = (case a of Err e \<Rightarrow> Err e | Ok _ \<Rightarrow> b)"

lemma and_then_ok [validate_simps]: "and_then a b = Ok () \<longleftrightarrow> a = Ok () \<and> b = Ok ()"
  by (auto simp: and_then_def split: sum.splits)

lemma validate_option_ok [validate_simps]:
  "validate_option v x = Ok () \<longleftrightarrow> (\<forall>y. x = Some y \<longrightarrow> v y = Ok ())"
  by (auto simp: validate_option_def split: option.splits)

lemma validate_vec_ok [validate_simps]:
  "validate_vec v xs = Ok () \<longleftrightarrow> (\<forall>x \<in> set xs. v x = Ok ())"
  by (induction xs) (auto split: sum.splits)

section \<open>Domain types\<close>

type_synonym share_id = u16

record node_key =
  ino :: u64
  generation :: u32

record ts =
  sec :: i64
  nsec :: u32

datatype kind = Reg | Dir | Symlink | Fifo | Sock | Chr | Blk

record attr =
  attr_kind :: kind
  attr_mode :: u16
  attr_nlink :: u32
  attr_uid :: u32
  attr_gid :: u32
  attr_size :: u64
  attr_blocks :: u64
  attr_mtime :: ts
  attr_ctime :: ts
  attr_rdev :: u64
  attr_content_version :: u64
  attr_symlink_target :: "bytes option"

definition validate_attr :: "attr \<Rightarrow> validation" where
  "validate_attr a =
     (case attr_symlink_target a of
        Some t \<Rightarrow>
          if attr_kind a \<noteq> Symlink then Err ''symlink_target on non-symlink''
          else if t = [] \<or> length t > MAX_SYMLINK then Err ''symlink target length''
          else Ok ()
      | None \<Rightarrow> Ok ())"

lemma validate_attr_ok [validate_simps]:
  "validate_attr a = Ok () \<longleftrightarrow>
     (\<forall>t. attr_symlink_target a = Some t \<longrightarrow>
        attr_kind a = Symlink \<and> t \<noteq> [] \<and> length t \<le> MAX_SYMLINK)"
  by (auto simp: validate_attr_def split: option.splits)

section \<open>Path components\<close>

abbreviation byte_slash :: u8 where "byte_slash \<equiv> 47"
abbreviation byte_dot :: u8 where "byte_dot \<equiv> 46"

definition name_check :: "bytes \<Rightarrow> validation" where
  "name_check b =
     (if b = [] \<or> length b > MAX_NAME then Err ''name length''
      else if byte_slash \<in> set b \<or> 0 \<in> set b then Err ''name contains '/' or NUL''
      else if b = [byte_dot] \<or> b = [byte_dot, byte_dot] then Err (''name is '.' or '..'' @ [CHR 0x27])
      else Ok ())"

lemma name_check_ok [validate_simps]:
  "name_check b = Ok () \<longleftrightarrow>
     b \<noteq> [] \<and> length b \<le> MAX_NAME \<and> byte_slash \<notin> set b \<and> 0 \<notin> set b
     \<and> b \<noteq> [byte_dot] \<and> b \<noteq> [byte_dot, byte_dot]"
  by (auto simp: name_check_def)

typedef name = "{b :: bytes. name_check b = Ok ()}"
  morphisms as_bytes mk_name
  by (rule exI [of _ "[97]"]) (simp add: name_check_ok MAX_NAME_def)

text \<open>\<^verbatim>\<open>Name::new\<close>, which deserialization also goes through.\<close>

definition name_new :: "bytes \<Rightarrow> validate_error + name" where
  "name_new b = (case name_check b of Err e \<Rightarrow> Err e | Ok _ \<Rightarrow> Ok (mk_name b))"

lemma name_check_as_bytes [simp]: "name_check (as_bytes n) = Ok ()"
  using as_bytes [of n] by simp

lemma as_bytes_facts:
  "as_bytes n \<noteq> []" "length (as_bytes n) \<le> 255" "byte_slash \<notin> set (as_bytes n)" "0 \<notin> set (as_bytes n)"
  using name_check_as_bytes [of n] unfolding name_check_ok MAX_NAME_def by auto

lemma as_bytes_mk_name: "name_check b = Ok () \<Longrightarrow> as_bytes (mk_name b) = b"
  by (simp add: mk_name_inverse)

lemma name_new_as_bytes [simp]: "name_new (as_bytes n) = Ok n"
  by (simp add: name_new_def as_bytes_inverse)

lemma name_new_Ok_iff: "name_new b = Ok n \<longleftrightarrow> b = as_bytes n"
  by (auto simp: name_new_def as_bytes_inverse as_bytes_mk_name split: sum.splits)

text \<open>
  Joining components with \<^verbatim>\<open>'/'\<close>, as a path is written, and \<^verbatim>\<open>str::split('/')\<close>, as
  \<^verbatim>\<open>resolve_path\<close> reads it back.
\<close>

fun split_slash :: "bytes \<Rightarrow> bytes list" where
  "split_slash [] = [[]]"
| "split_slash (b # bs) =
     (if b = byte_slash then [] # split_slash bs
      else case split_slash bs of [] \<Rightarrow> [[b]] | c # cs \<Rightarrow> (b # c) # cs)"

fun join_slash :: "bytes list \<Rightarrow> bytes" where
  "join_slash [] = []"
| "join_slash [c] = c"
| "join_slash (c # cs) = c @ byte_slash # join_slash cs"

lemma split_slash_nonempty: "split_slash bs \<noteq> []"
  by (induction bs) (auto split: list.splits)

lemma split_slash_plain: "byte_slash \<notin> set c \<Longrightarrow> split_slash c = [c]"
  by (induction c) auto

lemma split_slash_append:
  "byte_slash \<notin> set c \<Longrightarrow> split_slash (c @ byte_slash # bs) = c # split_slash bs"
proof (induction c)
  case Nil
  then show ?case by simp
next
  case (Cons b c)
  then show ?case by auto
qed

lemma split_join_slash:
  "cs \<noteq> [] \<Longrightarrow> (\<forall>c \<in> set cs. byte_slash \<notin> set c) \<Longrightarrow> split_slash (join_slash cs) = cs"
proof (induction cs rule: join_slash.induct)
  case 1
  then show ?case by simp
next
  case (2 c)
  then show ?case by (simp add: split_slash_plain)
next
  case (3 c d cs)
  then show ?case by (simp add: split_slash_append)
qed

section \<open>Shares and guests\<close>

definition share_flag_SUBTREE :: u32 where "share_flag_SUBTREE = 1"
definition share_flag_RDONLY :: u32 where "share_flag_RDONLY = 2"
definition share_flag_DEGRADED_IDS :: u32 where "share_flag_DEGRADED_IDS = 4"
definition share_flag_WRITEBACK :: u32 where "share_flag_WRITEBACK = 8"

record share_info =
  si_id :: share_id
  si_name :: bytes
  si_epoch :: u64
  si_fsid :: u64
  si_root :: node_key
  si_flags :: u32
  si_ino_bits :: u8

definition validate_share_info :: "share_info \<Rightarrow> validation" where
  "validate_share_info s =
     (if si_name s = [] \<or> length (si_name s) > MAX_STR then Err ''share name length'' else Ok ())"

record guest_info =
  gi_kernel :: bytes
  gi_fanotify_max_queued :: u32
  gi_mistd_pid :: u32

definition validate_guest_info :: "guest_info \<Rightarrow> validation" where
  "validate_guest_info g =
     (if length (gi_kernel g) > MAX_STR then Err ''kernel string length'' else Ok ())"

lemma validate_share_info_ok [validate_simps]:
  "validate_share_info s = Ok () \<longleftrightarrow> si_name s \<noteq> [] \<and> length (si_name s) \<le> MAX_STR"
  by (auto simp: validate_share_info_def)

lemma validate_guest_info_ok [validate_simps]:
  "validate_guest_info g = Ok () \<longleftrightarrow> length (gi_kernel g) \<le> MAX_STR"
  by (auto simp: validate_guest_info_def)

section \<open>The hexadecimal form of the VM identity\<close>

text \<open>\<^verbatim>\<open>{b:02x}\<close>: two lower-case digits per byte.\<close>

definition hex_digit :: "nat \<Rightarrow> u8" where
  "hex_digit d = (if d < 10 then of_nat (48 + d) else of_nat (87 + d))"

definition vm_uuid_hex :: "bytes \<Rightarrow> bytes" where
  "vm_uuid_hex uuid = concat (map (\<lambda>b. [hex_digit (unat b div 16), hex_digit (unat b mod 16)]) uuid)"

text \<open>\<^verbatim>\<open>char::to_digit(16)\<close>.\<close>

definition to_digit16 :: "u8 \<Rightarrow> nat option" where
  "to_digit16 c =
     (let v = unat c in
      if 48 \<le> v \<and> v \<le> 57 then Some (v - 48)
      else if 97 \<le> v \<and> v \<le> 102 then Some (v - 87)
      else if 65 \<le> v \<and> v \<le> 70 then Some (v - 55)
      else None)"

text \<open>The loop over \<^verbatim>\<open>chunks_exact(2)\<close>; a trailing odd byte would be ignored by it.\<close>

fun parse_hex_pairs :: "bytes \<Rightarrow> bytes option" where
  "parse_hex_pairs (a # b # rest) =
     (case to_digit16 a of None \<Rightarrow> None | Some hi \<Rightarrow>
      (case to_digit16 b of None \<Rightarrow> None | Some lo \<Rightarrow>
       (case parse_hex_pairs rest of None \<Rightarrow> None | Some out \<Rightarrow> Some (of_nat (hi * 16 + lo) # out))))"
| "parse_hex_pairs _ = Some []"

definition vm_uuid_from_hex :: "bytes \<Rightarrow> bytes option" where
  "vm_uuid_from_hex s =
     (let hex = filter (\<lambda>b. b \<noteq> 45) s in
      if length hex \<noteq> 32 then None else parse_hex_pairs hex)"

lemma unat_hex_digit: "d < 16 \<Longrightarrow> unat (hex_digit d) = (if d < 10 then 48 + d else 87 + d)"
  by (simp add: hex_digit_def unat_of_nat_small del: of_nat_add)

lemma to_digit16_hex_digit: "d < 16 \<Longrightarrow> to_digit16 (hex_digit d) = Some d"
  by (simp add: to_digit16_def unat_hex_digit)

lemma hex_digit_not_dash: "d < 16 \<Longrightarrow> hex_digit d \<noteq> 45"
  using to_digit16_hex_digit [of d] by (auto simp: to_digit16_def Let_def)

lemma parse_hex_pairs_vm_uuid_hex: "parse_hex_pairs (vm_uuid_hex u) = Some u"
proof (induction u)
  case Nil
  then show ?case by (simp add: vm_uuid_hex_def)
next
  case (Cons b u)
  have b: "unat b < 256" using unsigned_less [of b, where ?'a = nat] by simp
  have "parse_hex_pairs (vm_uuid_hex (b # u)) =
      (case parse_hex_pairs (vm_uuid_hex u) of None \<Rightarrow> None
       | Some out \<Rightarrow> Some (of_nat (unat b div 16 * 16 + unat b mod 16) # out))"
    using b by (simp add: vm_uuid_hex_def to_digit16_hex_digit)
  also have "\<dots> = Some (b # u)" by (simp add: Cons.IH)
  finally show ?case .
qed

lemma length_vm_uuid_hex: "length (vm_uuid_hex u) = 2 * length u"
  by (induction u) (auto simp: vm_uuid_hex_def)

lemma vm_uuid_hex_no_dash: "45 \<notin> set (vm_uuid_hex u)"
proof -
  have "\<forall>b :: u8. hex_digit (unat b div 16) \<noteq> 45 \<and> hex_digit (unat b mod 16) \<noteq> 45"
  proof
    fix b :: u8
    have "unat b < 256" using unsigned_less [of b, where ?'a = nat] by simp
    then show "hex_digit (unat b div 16) \<noteq> 45 \<and> hex_digit (unat b mod 16) \<noteq> 45"
      by (simp add: hex_digit_not_dash)
  qed
  then show ?thesis by (auto simp: vm_uuid_hex_def dest: sym)
qed

text \<open>
  Dashes may be inserted anywhere: \<open>dashed s t\<close> holds when \<open>t\<close> is \<open>s\<close> with dashes added.
\<close>

definition dashed :: "bytes \<Rightarrow> bytes \<Rightarrow> bool" where
  "dashed s t \<longleftrightarrow> filter (\<lambda>b. b \<noteq> 45) t = s"

lemma vm_uuid_from_hex_dashed:
  assumes "length u = 16" "dashed (vm_uuid_hex u) t"
  shows "vm_uuid_from_hex t = Some u"
  using assms length_vm_uuid_hex [of u]
  by (simp add: vm_uuid_from_hex_def dashed_def parse_hex_pairs_vm_uuid_hex)

lemma dashed_refl_hex: "dashed (vm_uuid_hex u) (vm_uuid_hex u)"
  using vm_uuid_hex_no_dash [of u] by (auto simp: dashed_def filter_id_conv)

text \<open>
  The identity of a VM survives its textual form: what \<^verbatim>\<open>vm_uuid_hex\<close> prints, with dashes
  inserted anywhere, parses back to the same 16 bytes.
\<close>

theorem vm_uuid_roundtrip:
  assumes "length u = 16" "dashed (vm_uuid_hex u) t"
  shows "vm_uuid_from_hex t = Some u"
  by (rule vm_uuid_from_hex_dashed [OF assms])

theorem vm_uuid_roundtrip_witness:
  "vm_uuid_from_hex (concat (map (\<lambda>_. [48, 49, 45, 97, 98]) [0..<8])) =
    Some (concat (map (\<lambda>_. [1, 171]) [0 :: nat ..<8]))"
  by (rule vm_uuid_roundtrip) code_simp+

end
