(* ===== verification/Proto_Msg.thy ===== *)
theory Proto_Msg
  imports Proto_Types
begin

text \<open>
  The lane messages (\<^verbatim>\<open>crates/mist-proto/src/msg.rs\<close>) with their semantic validation, and
  the payload codec (\<^verbatim>\<open>codec.rs\<close>). The serialization library is a parameter of the
  codec: \<open>to_stdvec\<close> and \<open>take_from_bytes\<close> are the two calls the source makes.
\<close>

section \<open>Control lane\<close>

datatype lane = LaneCtl | LaneJournal | LaneRpc | LaneBulk

datatype ctl_msg =
    Hello (hello_proto: u32) (hello_features: u64) (token_hash: bytes) (host_name: bytes)
      (host_version: bytes)
  | HelloAck (ack_proto: u32) (ack_features: u64) (boot_id: u64) (ack_session_id: u64)
      (ack_shares: "share_info list") (ack_guest: guest_info)
  | AuthFail
  | StreamHello (sh_session_id: u64) (sh_lane: lane) (sh_idx: u8)
  | AttachShare share_id
  | DetachShare share_id
  | SnapshotStart share_id u64
  | SnapshotAbort u64
  | RescanDir share_id node_key u64
  | Ping u64
  | Pong u64 u64
  | ShareGone share_id
  | Goodbye bytes
  | Endpoints "bytes list"
  | VmIdentity bytes

fun validate_ctl_msg :: "ctl_msg \<Rightarrow> validation" where
  "validate_ctl_msg (Hello _ _ _ hname hversion) =
     (if length hname > MAX_STR \<or> length hversion > MAX_STR then Err ''hello string length''
      else Ok ())"
| "validate_ctl_msg (HelloAck _ _ _ _ shares guest) =
     (if length shares > MAX_SHARES then Err ''too many shares''
      else and_then (validate_vec validate_share_info shares) (validate_guest_info guest))"
| "validate_ctl_msg (Goodbye reason) =
     (if length reason > MAX_STR then Err ''goodbye reason length'' else Ok ())"
| "validate_ctl_msg (Endpoints tcp) =
     (if length tcp > 8 \<or> (\<exists>a \<in> set tcp. length a > MAX_STR) then Err ''endpoints list''
      else Ok ())"
| "validate_ctl_msg _ = Ok ()"

section \<open>Requests and responses\<close>

datatype rpc_req =
    ReqStat share_id node_key
  | ReqStatBatch share_id "node_key list"
  | ReqLookup share_id node_key name
  | ReqRead (rr_share: share_id) (rr_node: node_key) (rr_version_hint: u64) (rr_off: u64)
      (rr_len: u32) (rr_ra: u32)
  | ReqCreate share_id node_key name kind (rc_mode: u16) (rc_rdev: u64)
      (rc_symlink_target: "bytes option") (rc_exclusive: bool)
  | ReqUnlink share_id node_key name
  | ReqRmdir share_id node_key name
  | ReqRename share_id node_key name node_key name
  | ReqSetAttr share_id node_key "u16 option" "u32 option" "u32 option" "u64 option" "ts option"
  | ReqWrite share_id node_key u64 bool bytes
  | ReqCommit share_id node_key
  | ReqCommitRange share_id node_key u64 u64

fun validate_rpc_req :: "rpc_req \<Rightarrow> validation" where
  "validate_rpc_req (ReqStatBatch _ nodes) =
     (if length nodes > MAX_STATBATCH then Err ''statbatch too large'' else Ok ())"
| "validate_rpc_req (ReqRead _ _ _ _ len _) =
     (if len = 0 \<or> len > MAX_READ_LEN then Err ''read len out of range'' else Ok ())"
| "validate_rpc_req (ReqCreate _ _ _ k _ _ target _) =
     (case target of
        Some t \<Rightarrow>
          if k \<noteq> Symlink then Err ''symlink_target on non-symlink create''
          else if t = [] \<or> length t > MAX_SYMLINK then Err ''symlink target length''
          else Ok ()
      | None \<Rightarrow> if k = Symlink then Err ''symlink create without target'' else Ok ())"
| "validate_rpc_req (ReqWrite _ _ _ _ data) =
     (if length data > unat MAX_READ_LEN then Err ''write data too large'' else Ok ())"
| "validate_rpc_req _ = Ok ()"

record rpc_err =
  re_errno :: "32 word"
  re_msg :: bytes

definition validate_rpc_err :: "rpc_err \<Rightarrow> validation" where
  "validate_rpc_err e =
     (if length (re_msg e) > MAX_STR then Err ''rpc error message length'' else Ok ())"

datatype rpc_resp =
    RespAttr attr
  | RespAttrs "attr option list"
  | RespEntry node_key attr
  | RespReadStart (rs_version: u64) (rs_len: u64) (rs_eof: bool)
  | RespErr rpc_err
  | RespOk

fun validate_rpc_resp :: "rpc_resp \<Rightarrow> validation" where
  "validate_rpc_resp (RespAttr a) = validate_attr a"
| "validate_rpc_resp (RespAttrs v) =
     (if length v > MAX_STATBATCH then Err ''attrs batch too large''
      else validate_vec (validate_option validate_attr) v)"
| "validate_rpc_resp (RespEntry _ a) = validate_attr a"
| "validate_rpc_resp (RespErr e) = validate_rpc_err e"
| "validate_rpc_resp (RespReadStart _ _ _) = Ok ()"
| "validate_rpc_resp RespOk = Ok ()"

section \<open>Journal and snapshot events\<close>

record snap_entry =
  se_name :: name
  se_node :: node_key
  se_attr :: attr

definition validate_snap_entry :: "snap_entry \<Rightarrow> validation" where
  "validate_snap_entry e = validate_attr (se_attr e)"

datatype rec =
    Created node_key name node_key "attr option"
  | CreatedBatch node_key "snap_entry list"
  | Removed node_key name
  | Renamed node_key name node_key name
  | AttrChanged node_key attr
  | Content node_key u64 u64 ts bool
  | SelfRemoved node_key
  | Overflow
  | EchoMarker u64

fun validate_rec :: "rec \<Rightarrow> validation" where
  "validate_rec (Created _ _ _ a) = validate_option validate_attr a"
| "validate_rec (CreatedBatch _ entries) =
     (if length entries > MAX_SNAP_ENTRIES then Err ''created batch too large''
      else validate_vec validate_snap_entry entries)"
| "validate_rec (AttrChanged _ a) = validate_attr a"
| "validate_rec _ = Ok ()"

record journal_batch =
  jb_share :: share_id
  jb_first_seq :: u64
  jb_guest_mono_ns :: u64
  jb_records :: "rec list"

definition validate_journal_batch :: "journal_batch \<Rightarrow> validation" where
  "validate_journal_batch b =
     (if jb_records b = [] \<or> length (jb_records b) > MAX_RECORDS_PER_BATCH
      then Err ''journal batch size''
      else validate_vec validate_rec (jb_records b))"

record snap_dir =
  sd_snap_id :: u64
  sd_share :: share_id
  sd_dir :: node_key
  sd_dir_attr :: attr
  sd_parent :: node_key
  sd_entries :: "snap_entry list"
  sd_last :: bool

definition validate_snap_dir :: "snap_dir \<Rightarrow> validation" where
  "validate_snap_dir d =
     (if length (sd_entries d) > MAX_SNAP_ENTRIES then Err ''snapdir too large''
      else and_then (validate_attr (sd_dir_attr d))
        (if attr_kind (sd_dir_attr d) \<noteq> Dir then Err ''snapdir attr not a dir''
         else validate_vec validate_snap_entry (sd_entries d)))"

record snap_done =
  done_snap_id :: u64
  done_share :: share_id
  done_dirs :: u64
  done_entries :: u64
  done_errors :: u32

datatype event_msg =
    EvJournal journal_batch
  | EvSnapDir snap_dir
  | EvSnapDone snap_done

fun validate_event_msg :: "event_msg \<Rightarrow> validation" where
  "validate_event_msg (EvJournal b) = validate_journal_batch b"
| "validate_event_msg (EvSnapDir d) = validate_snap_dir d"
| "validate_event_msg (EvSnapDone _) = Ok ()"

section \<open>The bounds a validated event satisfies\<close>

text \<open>
  The shape a validated event is promised to have: every attribute record carries a link
  target only when it is a symbolic link and the target is within the cap, and every
  collection is within its cap.
\<close>

definition attr_bounded :: "attr \<Rightarrow> bool" where
  "attr_bounded a \<longleftrightarrow> (case attr_symlink_target a of None \<Rightarrow> True
     | Some t \<Rightarrow> attr_kind a = Symlink \<and> 0 < length t \<and> length t \<le> 4096)"

fun rec_bounded :: "rec \<Rightarrow> bool" where
  "rec_bounded (Created _ _ _ a) \<longleftrightarrow> pred_option attr_bounded a"
| "rec_bounded (CreatedBatch _ es) \<longleftrightarrow>
     length es \<le> 2048 \<and> list_all (\<lambda>e. attr_bounded (se_attr e)) es"
| "rec_bounded (AttrChanged _ a) \<longleftrightarrow> attr_bounded a"
| "rec_bounded _ \<longleftrightarrow> True"

fun event_bounded :: "event_msg \<Rightarrow> bool" where
  "event_bounded (EvJournal b) \<longleftrightarrow>
     0 < length (jb_records b) \<and> length (jb_records b) \<le> 512 \<and> list_all rec_bounded (jb_records b)"
| "event_bounded (EvSnapDir d) \<longleftrightarrow>
     length (sd_entries d) \<le> 2048 \<and> attr_kind (sd_dir_attr d) = Dir
     \<and> attr_bounded (sd_dir_attr d) \<and> list_all (\<lambda>e. attr_bounded (se_attr e)) (sd_entries d)"
| "event_bounded (EvSnapDone _) \<longleftrightarrow> True"

lemma validate_attr_bounded [validate_simps]: "validate_attr a = Ok () \<longleftrightarrow> attr_bounded a"
  by (auto simp: validate_attr_ok attr_bounded_def MAX_SYMLINK_def split: option.splits)

lemma validate_rec_bounded [validate_simps]: "validate_rec r = Ok () \<longleftrightarrow> rec_bounded r"
proof (cases r)
  case (Created x1 x2 x3 x4)
  then show ?thesis by (cases x4) (auto simp: validate_option_ok validate_attr_bounded)
qed (auto simp: validate_vec_ok validate_attr_bounded validate_snap_entry_def
       MAX_SNAP_ENTRIES_def list_all_iff)

lemma validate_event_bounded: "validate_event_msg m = Ok () \<longleftrightarrow> event_bounded m"
proof (cases m)
  case (EvJournal b)
  then show ?thesis
    by (auto simp: validate_journal_batch_def validate_vec_ok validate_rec_bounded
        MAX_RECORDS_PER_BATCH_def list_all_iff)
next
  case (EvSnapDir d)
  then show ?thesis
    by (auto simp: validate_snap_dir_def and_then_ok validate_vec_ok validate_attr_bounded
        validate_snap_entry_def MAX_SNAP_ENTRIES_def list_all_iff)
next
  case (EvSnapDone s)
  then show ?thesis by simp
qed

section \<open>Payload codec\<close>

datatype 'e decode_error = DecPostcard 'e | DecTrailing | DecValidate validate_error

definition encode :: "('m \<Rightarrow> bytes) \<Rightarrow> 'm \<Rightarrow> bytes" where
  "encode to_stdvec m = to_stdvec m"

definition decode ::
    "(bytes \<Rightarrow> 'e + 'm \<times> bytes) \<Rightarrow> ('m \<Rightarrow> validation) \<Rightarrow> bytes \<Rightarrow> 'e decode_error + 'm" where
  "decode take_from_bytes validate b =
     (case take_from_bytes b of
        Err e \<Rightarrow> Err (DecPostcard e)
      | Ok (m, rest) \<Rightarrow>
          if rest \<noteq> [] then Err DecTrailing
          else (case validate m of Err e \<Rightarrow> Err (DecValidate e) | Ok _ \<Rightarrow> Ok m))"

text \<open>
  The documented behaviour of the serialization library, for the messages it is used on:
  what it wrote it reads back, leaving the bytes after it.
\<close>

definition postcard_reads_back ::
    "('m \<Rightarrow> bytes) \<Rightarrow> (bytes \<Rightarrow> 'e + 'm \<times> bytes) \<Rightarrow> 'm \<Rightarrow> bool" where
  "postcard_reads_back to_stdvec take_from_bytes m \<longleftrightarrow>
     (\<forall>rest. take_from_bytes (to_stdvec m @ rest) = Ok (m, rest))"

lemma decode_encode_append:
  assumes "postcard_reads_back sv tf m"
  shows "decode tf v (encode sv m @ rest) =
    (if rest \<noteq> [] then Err DecTrailing
     else case v m of Err e \<Rightarrow> Err (DecValidate e) | Ok _ \<Rightarrow> Ok m)"
  using assms by (simp add: postcard_reads_back_def decode_def encode_def)

lemma decode_Ok_validated:
  assumes "decode tf v b = Ok m"
  shows "v m = Ok ()" "tf b = Ok (m, [])"
  using assms by (auto simp: decode_def split: sum.splits prod.splits if_splits)

text \<open>
  C24. Guest input is bounded: an event payload that decodes has every collection within its cap
  and link targets only on symbolic links; conversely an encoded event decodes to itself
  exactly when it is within those bounds, and bytes after the message are rejected.
\<close>

theorem event_decode_bounded:
  assumes "postcard_reads_back to_stdvec take_from_bytes m"
  shows "(\<forall>b m'. decode take_from_bytes validate_event_msg b = Ok m' \<longrightarrow> event_bounded m')
    \<and> (decode take_from_bytes validate_event_msg (encode to_stdvec m) = Ok m \<longleftrightarrow> event_bounded m)
    \<and> (\<forall>rest. rest \<noteq> [] \<longrightarrow>
         decode take_from_bytes validate_event_msg (encode to_stdvec m @ rest) = Err DecTrailing)"
proof (intro conjI allI impI)
  fix b m' assume d: "decode take_from_bytes validate_event_msg b = Ok m'"
  show "event_bounded m'"
    using decode_Ok_validated(1) [OF d] by (simp only: validate_event_bounded)
next
  show "decode take_from_bytes validate_event_msg (encode to_stdvec m) = Ok m \<longleftrightarrow> event_bounded m"
    unfolding validate_event_bounded [symmetric]
    using decode_encode_append [OF assms, of validate_event_msg "[]"]
    by (cases "validate_event_msg m") simp_all
next
  fix rest assume "rest \<noteq> ([] :: bytes)"
  then show "decode take_from_bytes validate_event_msg (encode to_stdvec m @ rest) = Err DecTrailing"
    using decode_encode_append [OF assms, of validate_event_msg rest] by simp
qed

definition sample_done :: event_msg where
  "sample_done = EvSnapDone \<lparr>done_snap_id = 1, done_share = 0, done_dirs = 1, done_entries = 2, done_errors = 0\<rparr>"

theorem event_decode_bounded_witness:
  "decode (\<lambda>b. if take 1 b = [2] then Ok (sample_done, drop 1 b) else Err ()) validate_event_msg
     (encode (\<lambda>_. [2]) sample_done) = Ok sample_done"
proof -
  have "postcard_reads_back (\<lambda>_. [2]) (\<lambda>b. if take 1 b = [2] then Ok (sample_done, drop 1 b) else Err ()) sample_done"
    by (simp add: postcard_reads_back_def)
  from event_decode_bounded [OF this] have "decode (\<lambda>b. if take 1 b = [2] then Ok (sample_done, drop 1 b) else Err ()) validate_event_msg
     (encode (\<lambda>_. [2]) sample_done) = Ok sample_done \<longleftrightarrow> event_bounded sample_done"
    by (elim conjE)
  moreover have "event_bounded sample_done" by (simp add: sample_done_def)
  ultimately show ?thesis by (rule iffD2)
qed

end
