(* ===== verification/Proto_Frame.thy ===== *)
theory Proto_Frame
  imports Proto_Msg
begin

unbundle bit_operations_syntax

text \<open>
  The 16-byte frame header (\<^verbatim>\<open>crates/mist-proto/src/frame.rs\<close>) and frame I/O over a byte
  stream (\<^verbatim>\<open>crates/mist-transport/src/framed.rs\<close>). The sending side of a stream is the list of
  bytes written so far; the receiving side is the list of bytes that arrive before the peer
  closes, so that a short list is the end of file the source's \<^verbatim>\<open>read_exact\<close> reports.
\<close>

section \<open>The frame header\<close>

definition HEADER_LEN :: nat where "HEADER_LEN = 16"
definition FLAG_MORE :: u8 where "FLAG_MORE = 1"
definition FLAG_COMPRESSED :: u8 where "FLAG_COMPRESSED = 2"
definition KNOWN_FLAGS :: u8 where "KNOWN_FLAGS = FLAG_MORE OR FLAG_COMPRESSED"

datatype frame_kind = FkCtl | FkReq | FkResp | FkEvent | FkBulk

fun frame_kind_u8 :: "frame_kind \<Rightarrow> u8" where
  "frame_kind_u8 FkCtl = 0"
| "frame_kind_u8 FkReq = 1"
| "frame_kind_u8 FkResp = 2"
| "frame_kind_u8 FkEvent = 3"
| "frame_kind_u8 FkBulk = 4"

definition frame_kind_from_u8 :: "u8 \<Rightarrow> frame_kind option" where
  "frame_kind_from_u8 v =
     (if v = 0 then Some FkCtl else if v = 1 then Some FkReq else if v = 2 then Some FkResp
      else if v = 3 then Some FkEvent else if v = 4 then Some FkBulk else None)"

record frame_header =
  fh_len :: u32
  fh_kind :: frame_kind
  fh_flags :: u8
  fh_seq :: u64

definition frame_encode :: "frame_header \<Rightarrow> bytes" where
  "frame_encode h =
     le_bytes 4 (fh_len h) @ [frame_kind_u8 (fh_kind h), fh_flags h, 0, 0] @ le_bytes 8 (fh_seq h)"

definition frame_decode :: "bytes \<Rightarrow> nat \<Rightarrow> validate_error + frame_header" where
  "frame_decode b max_payload =
     (let len = of_le_bytes (slice 0 4 b) :: u32 in
      case frame_kind_from_u8 (b ! 4) of
        None \<Rightarrow> Err ''unknown frame kind''
      | Some k \<Rightarrow>
          let flags = b ! 5 in
          if flags AND NOT KNOWN_FLAGS \<noteq> 0 then Err ''unknown frame flags''
          else if b ! 6 \<noteq> 0 \<or> b ! 7 \<noteq> 0 then Err ''reserved header bytes nonzero''
          else if unat len > max_payload then Err ''frame exceeds lane cap''
          else Ok \<lparr>fh_len = len, fh_kind = k, fh_flags = flags,
                   fh_seq = of_le_bytes (slice 8 16 b)\<rparr>)"

definition cap_for_bulk :: "bool \<Rightarrow> nat" where
  "cap_for_bulk is_bulk_lane = (if is_bulk_lane then MAX_FRAME_BULK else MAX_FRAME)"

definition flags_known :: "u8 \<Rightarrow> bool" where
  "flags_known f \<longleftrightarrow> f AND NOT KNOWN_FLAGS = 0"

lemma frame_kind_from_u8_inverse [simp]: "frame_kind_from_u8 (frame_kind_u8 k) = Some k"
  by (cases k) (simp_all add: frame_kind_from_u8_def)

lemma frame_kind_from_u8_Some: "frame_kind_from_u8 v = Some k \<Longrightarrow> frame_kind_u8 k = v"
  by (auto simp: frame_kind_from_u8_def split: if_splits)

lemma length_frame_encode [simp]: "length (frame_encode h) = 16"
  by (simp add: frame_encode_def)

lemma frame_decode_encode:
  "frame_decode (frame_encode h) cap =
     (if \<not> flags_known (fh_flags h) then Err ''unknown frame flags''
      else if unat (fh_len h) > cap then Err ''frame exceeds lane cap'' else Ok h)"
proof -
  let ?b = "frame_encode h"
  have len: "slice 0 4 ?b = le_bytes 4 (fh_len h)"
    by (simp add: frame_encode_def slice_def)
  have seq: "slice 8 16 ?b = le_bytes 8 (fh_seq h)"
    by (simp add: frame_encode_def slice_def)
  have at: "?b ! 4 = frame_kind_u8 (fh_kind h)" "?b ! 5 = fh_flags h" "?b ! 6 = 0" "?b ! 7 = 0"
    by (simp_all add: frame_encode_def nth_append)
  show ?thesis
    by (simp add: frame_decode_def len seq at flags_known_def of_le_le_bytes Let_def)
qed

lemma split_header:
  assumes "length b = 16"
  shows "b = slice 0 4 b @ [b ! 4, b ! 5, b ! 6, b ! 7] @ slice 8 16 b"
proof (rule nth_equalityI)
  show "length b = length (slice 0 4 b @ [b ! 4, b ! 5, b ! 6, b ! 7] @ slice 8 16 b)"
    using assms by (simp add: slice_def)
  fix i assume "i < length b"
  then consider "i < 4" | "i = 4" | "i = 5" | "i = 6" | "i = 7" | "8 \<le> i" "i < 16"
    using assms by linarith
  then show "b ! i = (slice 0 4 b @ [b ! 4, b ! 5, b ! 6, b ! 7] @ slice 8 16 b) ! i"
    using assms by cases (auto simp: slice_def nth_append nth_Cons')
qed

lemma frame_encode_decode:
  assumes "length b = 16" "frame_decode b cap = Ok h"
  shows "frame_encode h = b" "flags_known (fh_flags h)" "unat (fh_len h) \<le> cap"
proof -
  have h: "fh_len h = of_le_bytes (slice 0 4 b)" "frame_kind_u8 (fh_kind h) = b ! 4"
      "fh_flags h = b ! 5" "b ! 6 = 0" "b ! 7 = 0" "fh_seq h = of_le_bytes (slice 8 16 b)"
      and ok: "flags_known (fh_flags h)" "unat (fh_len h) \<le> cap"
    using assms(2) frame_kind_from_u8_Some [of "b ! 4"]
    by (auto simp: frame_decode_def flags_known_def Let_def split: option.splits if_splits)
  show "flags_known (fh_flags h)" "unat (fh_len h) \<le> cap" by (rule ok)+
  have "le_bytes 4 (fh_len h) = slice 0 4 b" "le_bytes 8 (fh_seq h) = slice 8 16 b"
    using assms(1) le_bytes_of_le [of "slice 0 4 b", where ?'w = 32]
      le_bytes_of_le [of "slice 8 16 b", where ?'w = 64] by (simp_all add: h slice_def)
  then show "frame_encode h = b"
    using split_header [OF assms(1)] by (simp add: frame_encode_def h)
qed

section \<open>Frames on a byte stream\<close>

datatype 'e transport_error =
    TeUnexpectedEof
  | TeDecode "'e decode_error"
  | TeFrame validate_error
  | TeProtocol string
  | TeClosed

record recv_frame =
  rf_kind :: frame_kind
  rf_flags :: u8
  rf_seq :: u64
  rf_payload :: bytes

definition write_frame ::
    "bytes \<Rightarrow> nat \<Rightarrow> frame_kind \<Rightarrow> u8 \<Rightarrow> u64 \<Rightarrow> bytes \<Rightarrow> 'e transport_error + bytes" where
  "write_frame out max_payload k flags seq payload =
     (if length payload > max_payload then Err (TeProtocol ''frame exceeds lane cap'')
      else
        let hdr = \<lparr>fh_len = of_nat (length payload), fh_kind = k, fh_flags = flags, fh_seq = seq\<rparr>
        in Ok (out @ frame_encode hdr @ payload))"

definition read_exact :: "nat \<Rightarrow> bytes \<Rightarrow> 'e transport_error + (bytes \<times> bytes)" where
  "read_exact n s = (if length s < n then Err TeUnexpectedEof else Ok (take n s, drop n s))"

definition read_frame :: "bytes \<Rightarrow> nat \<Rightarrow> 'e transport_error + (recv_frame \<times> bytes)" where
  "read_frame s max_payload =
     (case read_exact HEADER_LEN s of
        Err e \<Rightarrow> Err (if e = TeUnexpectedEof then TeClosed else e)
      | Ok (hdr, s') \<Rightarrow>
          (case frame_decode hdr max_payload of
             Err e \<Rightarrow> Err (TeFrame e)
           | Ok h \<Rightarrow>
               (case read_exact (unat (fh_len h)) s' of
                  Err e \<Rightarrow> Err e
                | Ok (payload, s'') \<Rightarrow>
                    Ok (\<lparr>rf_kind = fh_kind h, rf_flags = fh_flags h, rf_seq = fh_seq h,
                        rf_payload = payload\<rparr>, s''))))"

definition send_msg ::
    "('m \<Rightarrow> bytes) \<Rightarrow> bytes \<Rightarrow> nat \<Rightarrow> frame_kind \<Rightarrow> u64 \<Rightarrow> 'm \<Rightarrow> 'e transport_error + bytes" where
  "send_msg to_stdvec out max_payload k seq m =
     (let payload = encode to_stdvec m in
      if length payload > max_payload then Err (TeProtocol ''encoded message exceeds lane cap'')
      else write_frame out max_payload k 0 seq payload)"

definition recv_msg ::
    "(bytes \<Rightarrow> 'e + 'm \<times> bytes) \<Rightarrow> ('m \<Rightarrow> validation) \<Rightarrow> bytes \<Rightarrow> nat \<Rightarrow> frame_kind \<Rightarrow>
     'e transport_error + (u64 \<times> 'm) \<times> bytes" where
  "recv_msg take_from_bytes validate s max_payload expect =
     (case read_frame s max_payload of
        Err e \<Rightarrow> Err e
      | Ok (f, s') \<Rightarrow>
          if rf_kind f \<noteq> expect then Err (TeProtocol ''unexpected frame kind'')
          else (case decode take_from_bytes validate (rf_payload f) of
                  Err e \<Rightarrow> Err (TeDecode e)
                | Ok m \<Rightarrow> Ok ((rf_seq f, m), s')))"

text \<open>Sending a list of frames, and the read loop of a lane.\<close>

definition write_recv_frame :: "nat \<Rightarrow> bytes \<Rightarrow> recv_frame \<Rightarrow> 'e transport_error + bytes" where
  "write_recv_frame cap out f =
     write_frame out cap (rf_kind f) (rf_flags f) (rf_seq f) (rf_payload f)"

fun write_frames :: "nat \<Rightarrow> bytes \<Rightarrow> recv_frame list \<Rightarrow> 'e transport_error + bytes" where
  "write_frames cap out [] = Ok out"
| "write_frames cap out (f # fs) =
     (case write_recv_frame cap out f of Err e \<Rightarrow> Err e | Ok out' \<Rightarrow> write_frames cap out' fs)"

function read_frames :: "nat \<Rightarrow> bytes \<Rightarrow> recv_frame list \<times> 'e transport_error" where
  "read_frames cap s =
     (case read_frame s cap of
        Err e \<Rightarrow> ([], e)
      | Ok (f, s') \<Rightarrow> (let (fs, e) = read_frames cap s' in (f # fs, e)))"
  by auto

lemma read_frame_shorter: "read_frame s cap = Ok (f, s') \<Longrightarrow> length s' < length s"
  by (auto simp: read_frame_def read_exact_def HEADER_LEN_def
      split: sum.splits prod.splits if_splits)

termination read_frames
  by (relation "measure (\<lambda>(cap, s). length s)") (auto dest: read_frame_shorter)

declare read_frames.simps [simp del]

definition frame_ok :: "nat \<Rightarrow> recv_frame \<Rightarrow> bool" where
  "frame_ok cap f \<longleftrightarrow> length (rf_payload f) \<le> cap \<and> flags_known (rf_flags f)"

definition frame_bytes :: "recv_frame \<Rightarrow> bytes" where
  "frame_bytes f =
     frame_encode \<lparr>fh_len = of_nat (length (rf_payload f)), fh_kind = rf_kind f,
                   fh_flags = rf_flags f, fh_seq = rf_seq f\<rparr> @ rf_payload f"

lemma write_recv_frame_ok:
  "frame_ok cap f \<Longrightarrow> write_recv_frame cap out f = Ok (out @ frame_bytes f)"
  by (simp add: write_recv_frame_def write_frame_def frame_ok_def frame_bytes_def Let_def)

lemma write_frames_ok:
  "list_all (frame_ok cap) fs \<Longrightarrow> write_frames cap out fs = Ok (out @ concat (map frame_bytes fs))"
  by (induction fs arbitrary: out) (simp_all add: write_recv_frame_ok)

lemma read_frame_frame_bytes:
  assumes "frame_ok cap f" "cap < 2 ^ 32"
  shows "read_frame (frame_bytes f @ rest) cap = Ok (f, rest)"
proof -
  have "unat (of_nat (length (rf_payload f)) :: u32) = length (rf_payload f)"
    using assms by (intro unat_of_nat_small) (simp add: frame_ok_def)
  then show ?thesis
    using assms by (simp add: read_frame_def read_exact_def HEADER_LEN_def frame_bytes_def
        frame_decode_encode frame_ok_def)
qed

lemma read_frames_frame_bytes:
  assumes "list_all (frame_ok cap) fs" "cap < 2 ^ 32"
  shows "read_frames cap (concat (map frame_bytes fs)) = (fs, TeClosed :: 'e transport_error)"
  using assms(1)
proof (induction fs)
  case Nil
  then show ?case
    by (simp add: read_frames.simps read_frame_def read_exact_def HEADER_LEN_def)
next
  case (Cons f fs)
  then have "read_frame (frame_bytes f @ concat (map frame_bytes fs)) cap
      = (Ok (f, concat (map frame_bytes fs)) :: 'e transport_error + _)"
    using assms(2) by (intro read_frame_frame_bytes) simp_all
  then show ?case
    using Cons by (subst read_frames.simps) simp
qed

lemma read_frame_Ok_bytes:
  assumes "read_frame s cap = Ok (f, s')"
  shows "frame_bytes f @ s' = s" "frame_ok cap f"
proof -
  obtain h where h: "frame_decode (take 16 s) cap = Ok h" and l: "16 \<le> length s"
      "unat (fh_len h) \<le> length s - 16" and f: "rf_kind f = fh_kind h" "rf_flags f = fh_flags h"
      "rf_seq f = fh_seq h" "rf_payload f = take (unat (fh_len h)) (drop 16 s)"
      and s': "s' = drop (unat (fh_len h)) (drop 16 s)"
    using assms by (auto simp: read_frame_def read_exact_def HEADER_LEN_def not_less
        split: sum.splits prod.splits if_splits)
  have enc: "frame_encode h = take 16 s" "flags_known (fh_flags h)" "unat (fh_len h) \<le> cap"
    using frame_encode_decode [OF _ h] l by simp_all
  have len: "length (rf_payload f) = unat (fh_len h)" using l f by simp
  then show "frame_ok cap f" using enc f by (simp add: frame_ok_def)
  have "frame_bytes f = take 16 s @ rf_payload f"
    using enc(1) by (cases h) (simp add: frame_bytes_def f(1-3) len)
  then show "frame_bytes f @ s' = s"
    by (simp add: f(4) s') (metis add.commute append_take_drop_id drop_drop)
qed

section \<open>Properties of frames\<close>

text \<open>
  C25. The header format is canonical: 16 bytes decode to a header exactly when they are its
  encoding, its flags are known and its length is within the cap of the lane.
\<close>

theorem frame_header_canonical:
  assumes "length b = 16"
  shows "frame_decode b cap = Ok h \<longleftrightarrow>
    b = frame_encode h \<and> flags_known (fh_flags h) \<and> unat (fh_len h) \<le> cap"
proof
  assume "frame_decode b cap = Ok h"
  then show "b = frame_encode h \<and> flags_known (fh_flags h) \<and> unat (fh_len h) \<le> cap"
    using frame_encode_decode [OF assms] by auto
next
  assume "b = frame_encode h \<and> flags_known (fh_flags h) \<and> unat (fh_len h) \<le> cap"
  then show "frame_decode b cap = Ok h" using frame_decode_encode [of h cap] by simp
qed

theorem frame_header_canonical_witness:
  "frame_decode [5, 0, 0, 0, 4, 1, 0, 0, 9, 0, 0, 0, 0, 0, 0, 0] 100 =
    Ok \<lparr>fh_len = 5, fh_kind = FkBulk, fh_flags = 1, fh_seq = 9\<rparr>"
proof -
  let ?b = "[5, 0, 0, 0, 4, 1, 0, 0, 9, 0, 0, 0, 0, 0, 0, 0] :: bytes"
  let ?h = "\<lparr>fh_len = 5, fh_kind = FkBulk, fh_flags = 1, fh_seq = 9\<rparr>"
  have "length ?b = 16" by simp
  moreover have "?b = frame_encode ?h \<and> flags_known (fh_flags ?h) \<and> unat (fh_len ?h) \<le> 100" by code_simp
  ultimately show ?thesis using frame_header_canonical [of ?b 100 ?h] by blast
qed

text \<open>
  C26. A lane delivers what was sent: any sequence of frames within the lane's cap is written
  without error, and reading the bytes back yields the same frames in order, followed by
  the report that the peer closed.
\<close>

theorem frames_delivered:
  assumes "list_all (frame_ok (cap_for_bulk bulk)) fs"
  shows "\<exists>s. write_frames (cap_for_bulk bulk) [] fs = Ok s
    \<and> read_frames (cap_for_bulk bulk) s = (fs, TeClosed)"
proof -
  have "cap_for_bulk bulk < 2 ^ 32" by (simp add: cap_for_bulk_def MAX_FRAME_BULK_def MAX_FRAME_def)
  then show ?thesis by (simp add: write_frames_ok [OF assms] read_frames_frame_bytes [OF assms])
qed

theorem frames_delivered_witness:
  "\<exists>s. write_frames (cap_for_bulk False) [] [\<lparr>rf_kind = FkReq, rf_flags = 0, rf_seq = 1, rf_payload = [7, 8]\<rparr>] = Ok s
    \<and> read_frames (cap_for_bulk False) s =
        ([\<lparr>rf_kind = FkReq, rf_flags = 0, rf_seq = 1, rf_payload = [7, 8]\<rparr>], TeClosed)"
proof -
  let ?f = "\<lparr>rf_kind = FkReq, rf_flags = 0, rf_seq = 1, rf_payload = [7, 8]\<rparr>"
  have "list_all (frame_ok (cap_for_bulk False)) [?f]"
    by (simp add: frame_ok_def cap_for_bulk_def MAX_FRAME_def flags_known_def)
  then show ?thesis by (rule frames_delivered [of False])
qed

text \<open>
  C27. Messages survive the wire: a validated message that fits the lane is sent, and the receiver
  that expects its frame kind gets back the sequence number and the message.
\<close>

theorem message_delivered:
  assumes "postcard_reads_back sv tf m" "v m = Ok ()" "length (sv m) \<le> cap_for_bulk bulk"
  shows "\<exists>s. send_msg sv [] (cap_for_bulk bulk) k seq m = Ok s
    \<and> recv_msg tf v s (cap_for_bulk bulk) k = Ok ((seq, m), [])"
proof -
  let ?f = "\<lparr>rf_kind = k, rf_flags = 0, rf_seq = seq, rf_payload = sv m\<rparr>"
  have cap: "cap_for_bulk bulk < 2 ^ 32" by (simp add: cap_for_bulk_def MAX_FRAME_BULK_def MAX_FRAME_def)
  have ok: "frame_ok (cap_for_bulk bulk) ?f" using assms(3) by (simp add: frame_ok_def flags_known_def)
  have "send_msg sv [] (cap_for_bulk bulk) k seq m = Ok (frame_bytes ?f)"
    using assms(3) write_recv_frame_ok [OF ok, of "[]"]
    by (simp add: send_msg_def encode_def write_recv_frame_def)
  moreover have "decode tf v (sv m) = Ok m"
    using decode_encode_append [OF assms(1), of v "[]"] assms(2) by (simp add: encode_def)
  then have "recv_msg tf v (frame_bytes ?f) (cap_for_bulk bulk) k = Ok ((seq, m), [])"
    by (simp add: recv_msg_def read_frame_frame_bytes [OF ok cap, of "[]", simplified])
  ultimately show ?thesis by blast
qed

theorem message_delivered_witness:
  "\<exists>s. send_msg (\<lambda>_. [2]) [] (cap_for_bulk False) FkEvent 9 sample_done = Ok s
    \<and> recv_msg (\<lambda>b. if take 1 b = [2] then Ok (sample_done, drop 1 b) else Err ()) validate_event_msg s
        (cap_for_bulk False) FkEvent = Ok ((9, sample_done), [])"
proof -
  let ?tf = "\<lambda>b. if take 1 b = [2] then Ok (sample_done, drop 1 b) else Err ()"
  have "postcard_reads_back (\<lambda>_. [2]) ?tf sample_done" by (simp add: postcard_reads_back_def)
  moreover have "validate_event_msg sample_done = Ok ()" by (simp add: sample_done_def)
  moreover have "length ((\<lambda>_. [2 :: u8]) sample_done) \<le> cap_for_bulk False" by (simp add: cap_for_bulk_def MAX_FRAME_def)
  ultimately show ?thesis
    by (rule message_delivered [where v = validate_event_msg and tf = ?tf and sv = "\<lambda>_. [2]" and m = sample_done])
qed

text \<open>
  A peer that goes away inside a header is reported as a clean close, like one that goes
  away between frames.
\<close>

theorem truncated_header_closed:
  assumes "length s < 16"
  shows "read_frame s cap = Err TeClosed"
  using assms by (simp add: read_frame_def read_exact_def HEADER_LEN_def)

theorem truncated_header_closed_witness: "read_frame [1, 0, 0] 100 = Err TeClosed"
  by (rule truncated_header_closed) simp

end
