(* ===== verification/Dir_State.thy ===== *)
theory Dir_State
  imports Proto_Types "HOL-Library.Multiset"
begin

text \<open>
  The directory entry table of the replica (\<^verbatim>\<open>crates/mist-replica/src/lib.rs\<close>, \<^verbatim>\<open>DirState\<close>):
  names in an append-only arena, entries in a cookie-sorted vector with tombstones, and an
  open-addressed index from name hashes to positions. The index is a third-party hash table
  (\<^verbatim>\<open>hashbrown::HashTable<u32>\<close>) and the hash is seeded at random, so both are parameters of
  the model, collected in the record \<open>name_index\<close>; the locale \<open>hash_index\<close> states what
  the source relies on.
\<close>

section \<open>The name index\<close>

record 't name_index =
  ht_new :: 't
  ht_with_capacity :: "nat \<Rightarrow> 't"
  ht_find :: "u64 \<Rightarrow> (u32 \<Rightarrow> bool) \<Rightarrow> 't \<Rightarrow> u32 option"
  ht_insert_unique :: "u64 \<Rightarrow> u32 \<Rightarrow> (u32 \<Rightarrow> u64) \<Rightarrow> 't \<Rightarrow> 't"
  ht_remove_entry :: "u64 \<Rightarrow> (u32 \<Rightarrow> bool) \<Rightarrow> 't \<Rightarrow> 't"
  name_hash :: "bytes \<Rightarrow> u64"

text \<open>
  The documented behaviour: a lookup only returns stored values that satisfy the
  predicate and finds one when one is stored under the given hash; an insertion adds one
  slot, provided the rehash function agrees with the hashes the slots were stored under;
  \<^verbatim>\<open>find_entry\<close> followed by \<^verbatim>\<open>remove\<close> removes the slot the predicate singles out.
\<close>

locale hash_index =
  fixes H :: "'t name_index"
    and slots :: "'t \<Rightarrow> (u64 \<times> u32) multiset"
  assumes slots_new: "slots (ht_new H) = {#}"
    and slots_with_capacity: "slots (ht_with_capacity H n) = {#}"
    and find_sound: "ht_find H h eq t = Some i \<Longrightarrow> eq i \<and> (\<exists>h'. (h', i) \<in># slots t)"
    and find_complete: "(h, i) \<in># slots t \<Longrightarrow> eq i \<Longrightarrow> ht_find H h eq t \<noteq> None"
    and slots_insert: "(\<And>h' j. (h', j) \<in># slots t \<Longrightarrow> hasher j = h') \<Longrightarrow>
        slots (ht_insert_unique H h i hasher t) = add_mset (h, i) (slots t)"
    and slots_remove: "(h, i) \<in># slots t \<Longrightarrow> eq i \<Longrightarrow>
        (\<And>h' j. (h', j) \<in># slots t \<Longrightarrow> eq j \<Longrightarrow> (h', j) = (h, i)) \<Longrightarrow>
        slots (ht_remove_entry H h eq t) = slots t - {#(h, i)#}"

section \<open>The table and its operations\<close>

definition FIRST_COOKIE :: u64 where "FIRST_COOKIE = 3"

record cent =
  ce_cookie :: u64
  ce_ino :: u64
  ce_nkgen :: u32
  ce_name_off :: u32
  ce_name_len :: u16
  ce_kind :: kind
  ce_dead :: bool

definition ce_node :: "cent \<Rightarrow> node_key" where
  "ce_node e = \<lparr>ino = ce_ino e, generation = ce_nkgen e\<rparr>"

record 't dir_state =
  ds_arena :: bytes
  ds_ents :: "cent list"
  ds_by_name :: 't
  ds_dead :: u32
  ds_next_cookie :: u64
  ds_dirgen :: u64
  ds_complete :: bool

definition dir_new :: "'t name_index \<Rightarrow> 't dir_state" where
  "dir_new H = \<lparr>ds_arena = [], ds_ents = [], ds_by_name = ht_new H, ds_dead = 0,
     ds_next_cookie = FIRST_COOKIE, ds_dirgen = 0, ds_complete = False\<rparr>"

definition arena_name :: "bytes \<Rightarrow> cent \<Rightarrow> bytes" where
  "arena_name arena e =
     slice (unat (ce_name_off e)) (unat (ce_name_off e) + unat (ce_name_len e)) arena"

definition name_of :: "'t dir_state \<Rightarrow> cent \<Rightarrow> bytes" where
  "name_of d e = arena_name (ds_arena d) e"

definition live_len :: "'t dir_state \<Rightarrow> nat" where
  "live_len d = length (ds_ents d) - unat (ds_dead d)"

definition find_idx :: "'t name_index \<Rightarrow> 't dir_state \<Rightarrow> bytes \<Rightarrow> nat option" where
  "find_idx H d nm =
     map_option unat
       (ht_find H (name_hash H nm)
          (\<lambda>i. let e = ds_ents d ! unat i in \<not> ce_dead e \<and> name_of d e = nm) (ds_by_name d))"

definition dir_find :: "'t name_index \<Rightarrow> 't dir_state \<Rightarrow> bytes \<Rightarrow> (node_key \<times> kind) option" where
  "dir_find H d nm =
     (case find_idx H d nm of
        None \<Rightarrow> None
      | Some i \<Rightarrow> let e = ds_ents d ! i in Some (ce_node e, ce_kind e))"

definition insert_new ::
    "'t name_index \<Rightarrow> 't dir_state \<Rightarrow> bytes \<Rightarrow> node_key \<Rightarrow> kind \<Rightarrow> 't dir_state" where
  "insert_new H d nm node k =
     (let cookie = ds_next_cookie d;
          name_off = of_nat (length (ds_arena d));
          arena = ds_arena d @ nm;
          idx = of_nat (length (ds_ents d));
          ents = ds_ents d @ [\<lparr>ce_cookie = cookie, ce_ino = ino node, ce_nkgen = generation node,
                   ce_name_off = name_off, ce_name_len = of_nat (length nm), ce_kind = k,
                   ce_dead = False\<rparr>]
      in d\<lparr>ds_arena := arena, ds_ents := ents,
           ds_by_name := ht_insert_unique H (name_hash H nm) idx
             (\<lambda>i. name_hash H (arena_name arena (ents ! unat i))) (ds_by_name d),
           ds_next_cookie := ds_next_cookie d + 1, ds_dirgen := ds_dirgen d + 1\<rparr>)"

text \<open>The two loops of \<^verbatim>\<open>compact\<close>: copy the live entries, then index the copies.\<close>

fun compact_loop :: "'t dir_state \<Rightarrow> cent list \<Rightarrow> bytes \<times> cent list \<Rightarrow> bytes \<times> cent list" where
  "compact_loop d [] acc = acc"
| "compact_loop d (e # es) (arena, ents) =
     compact_loop d es (arena @ name_of d e, ents @ [e\<lparr>ce_name_off := of_nat (length arena)\<rparr>])"

fun index_loop :: "'t name_index \<Rightarrow> bytes \<Rightarrow> cent list \<Rightarrow> nat \<Rightarrow> cent list \<Rightarrow> 't \<Rightarrow> 't" where
  "index_loop H arena ents i [] t = t"
| "index_loop H arena ents i (e # es) t =
     index_loop H arena ents (Suc i) es
       (ht_insert_unique H (name_hash H (arena_name arena e)) (of_nat i)
          (\<lambda>j. name_hash H (arena_name arena (ents ! unat j))) t)"

definition compact :: "'t name_index \<Rightarrow> 't dir_state \<Rightarrow> 't dir_state" where
  "compact H d =
     (let (arena, ents) = compact_loop d (filter (\<lambda>e. \<not> ce_dead e) (ds_ents d)) ([], []);
          by_name = index_loop H arena ents 0 ents (ht_with_capacity H (length ents))
      in d\<lparr>ds_arena := arena, ds_ents := ents, ds_by_name := by_name, ds_dead := 0\<rparr>)"

definition kill :: "'t name_index \<Rightarrow> 't dir_state \<Rightarrow> nat \<Rightarrow> 't dir_state" where
  "kill H d i =
     (let nm = name_of d (ds_ents d ! i);
          d' = d\<lparr>ds_by_name := ht_remove_entry H (name_hash H nm) (\<lambda>j. unat j = i) (ds_by_name d),
                 ds_ents := (ds_ents d)[i := (ds_ents d ! i)\<lparr>ce_dead := True\<rparr>],
                 ds_dead := ds_dead d + 1\<rparr>
      in if unat (ds_dead d') > length (ds_ents d') div 2 \<and> ds_dead d' \<ge> 16
         then compact H d' else d')"

record upsert_result =
  gained_link :: bool
  displaced :: "node_key option"
  dentry_delta :: int

definition upsert ::
    "'t name_index \<Rightarrow> 't dir_state \<Rightarrow> name \<Rightarrow> node_key \<Rightarrow> kind \<Rightarrow> 't dir_state \<times> upsert_result" where
  "upsert H d nm node k =
     (case find_idx H d (as_bytes nm) of
        Some i \<Rightarrow>
          if ce_node (ds_ents d ! i) = node
          then (d\<lparr>ds_ents := (ds_ents d)[i := (ds_ents d ! i)\<lparr>ce_kind := k\<rparr>]\<rparr>,
                \<lparr>gained_link = False, displaced = None, dentry_delta = 0\<rparr>)
          else (insert_new H (kill H d i) (as_bytes nm) node k,
                \<lparr>gained_link = True, displaced = Some (ce_node (ds_ents d ! i)), dentry_delta = 0\<rparr>)
      | None \<Rightarrow> (insert_new H d (as_bytes nm) node k,
                 \<lparr>gained_link = True, displaced = None, dentry_delta = 1\<rparr>))"

definition dir_remove :: "'t name_index \<Rightarrow> 't dir_state \<Rightarrow> bytes \<Rightarrow> 't dir_state \<times> node_key option" where
  "dir_remove H d nm =
     (case find_idx H d nm of
        None \<Rightarrow> (d, None)
      | Some i \<Rightarrow>
          let node = ce_node (ds_ents d ! i)
          in (kill H (d\<lparr>ds_dirgen := ds_dirgen d + 1\<rparr>) i, Some node))"

text \<open>\<^verbatim>\<open>slice::partition_point\<close>: the length of the prefix on which the predicate holds.\<close>

definition partition_point :: "('a \<Rightarrow> bool) \<Rightarrow> 'a list \<Rightarrow> nat" where
  "partition_point P xs = length (takeWhile P xs)"

definition range_after :: "'t dir_state \<Rightarrow> u64 \<Rightarrow> cent list" where
  "range_after d after =
     filter (\<lambda>e. \<not> ce_dead e)
       (drop (partition_point (\<lambda>e. ce_cookie e \<le> after) (ds_ents d)) (ds_ents d))"

definition live :: "'t dir_state \<Rightarrow> cent list" where
  "live d = filter (\<lambda>e. \<not> ce_dead e) (ds_ents d)"

section \<open>The abstract directory\<close>

text \<open>
  What a directory promises: an ordered list of entries, each with its cookie, name,
  target and kind, on which the operations are list operations.
\<close>

record dentry =
  dt_cookie :: u64
  dt_name :: bytes
  dt_node :: node_key
  dt_kind :: kind

definition dentry_of :: "bytes \<Rightarrow> cent \<Rightarrow> dentry" where
  "dentry_of arena e = \<lparr>dt_cookie = ce_cookie e, dt_name = arena_name arena e,
     dt_node = ce_node e, dt_kind = ce_kind e\<rparr>"

definition dents :: "'t dir_state \<Rightarrow> dentry list" where
  "dents d = map (dentry_of (ds_arena d)) (live d)"

definition ls_find :: "bytes \<Rightarrow> dentry list \<Rightarrow> dentry option" where
  "ls_find nm L = find (\<lambda>x. dt_name x = nm) L"

definition ls_remove :: "bytes \<Rightarrow> dentry list \<Rightarrow> dentry list" where
  "ls_remove nm L = filter (\<lambda>x. dt_name x \<noteq> nm) L"

definition ls_set_kind :: "bytes \<Rightarrow> kind \<Rightarrow> dentry list \<Rightarrow> dentry list" where
  "ls_set_kind nm k L = map (\<lambda>x. if dt_name x = nm then x\<lparr>dt_kind := k\<rparr> else x) L"

definition ls_upsert :: "u64 \<Rightarrow> bytes \<Rightarrow> node_key \<Rightarrow> kind \<Rightarrow> dentry list \<Rightarrow> dentry list" where
  "ls_upsert c nm node k L =
     (if map_option dt_node (ls_find nm L) = Some node then ls_set_kind nm k L
      else ls_remove nm L @ [\<lparr>dt_cookie = c, dt_name = nm, dt_node = node, dt_kind = k\<rparr>])"

definition ls_upsert_result :: "bytes \<Rightarrow> node_key \<Rightarrow> dentry list \<Rightarrow> upsert_result" where
  "ls_upsert_result nm node L =
     (case ls_find nm L of
        None \<Rightarrow> \<lparr>gained_link = True, displaced = None, dentry_delta = 1\<rparr>
      | Some x \<Rightarrow>
          if dt_node x = node then \<lparr>gained_link = False, displaced = None, dentry_delta = 0\<rparr>
          else \<lparr>gained_link = True, displaced = Some (dt_node x), dentry_delta = 0\<rparr>)"

text \<open>The positions of the live entries, and the slots the index holds for them.\<close>

definition live_set :: "cent list \<Rightarrow> nat set" where
  "live_set es = {k. k < length es \<and> \<not> ce_dead (es ! k)}"

definition index_slots :: "'t name_index \<Rightarrow> bytes \<Rightarrow> cent list \<Rightarrow> (u64 \<times> u32) multiset" where
  "index_slots H arena es =
     image_mset (\<lambda>k. (name_hash H (arena_name arena (es ! k)), of_nat k)) (mset_set (live_set es))"

definition dir_wf :: "'t name_index \<Rightarrow> ('t \<Rightarrow> (u64 \<times> u32) multiset) \<Rightarrow> 't dir_state \<Rightarrow> bool" where
  "dir_wf H slots d \<longleftrightarrow>
     slots (ds_by_name d) = index_slots H (ds_arena d) (ds_ents d)
     \<and> (\<forall>e \<in> set (ds_ents d). unat (ce_name_off e) + unat (ce_name_len e) \<le> length (ds_arena d))
     \<and> sum_list (map (\<lambda>e. unat (ce_name_len e)) (ds_ents d)) = length (ds_arena d)
     \<and> distinct (map dt_name (dents d))
     \<and> (\<forall>x \<in> set (dents d). name_check (dt_name x) = Ok ())
     \<and> sorted_wrt (<) (map ce_cookie (ds_ents d))
     \<and> (\<forall>e \<in> set (ds_ents d). FIRST_COOKIE \<le> ce_cookie e \<and> ce_cookie e < ds_next_cookie d)
     \<and> FIRST_COOKIE \<le> ds_next_cookie d
     \<and> unat (ds_dead d) = length (filter ce_dead (ds_ents d))
     \<and> length (ds_ents d) < 2 ^ 32 \<and> length (ds_arena d) < 2 ^ 32"

text \<open>
  Room for \<open>n\<close> more entries: the 32-bit arena offsets and positions and the 64-bit
  cookies do not wrap.
\<close>

definition dir_room :: "nat \<Rightarrow> 't dir_state \<Rightarrow> bool" where
  "dir_room n d \<longleftrightarrow> length (ds_arena d) + 255 * n < 2 ^ 32 \<and> length (ds_ents d) + n < 2 ^ 32
     \<and> unat (ds_next_cookie d) + n < 2 ^ 64"

section \<open>Facts about the representation\<close>

definition in_arena :: "bytes \<Rightarrow> cent \<Rightarrow> bool" where
  "in_arena arena e \<longleftrightarrow> unat (ce_name_off e) + unat (ce_name_len e) \<le> length arena"

lemma arena_name_append [simp]: "in_arena arena e \<Longrightarrow> arena_name (arena @ b) e = arena_name arena e"
  by (simp add: in_arena_def arena_name_def slice_append_left)

lemma in_arena_append: "in_arena arena e \<Longrightarrow> in_arena (arena @ b) e"
  by (simp add: in_arena_def)

lemma length_arena_name: "in_arena arena e \<Longrightarrow> length (arena_name arena e) = unat (ce_name_len e)"
  by (simp add: in_arena_def arena_name_def slice_def)

lemma dentry_of_append [simp]: "in_arena arena e \<Longrightarrow> dentry_of (arena @ b) e = dentry_of arena e"
  by (simp add: dentry_of_def)

lemma dentry_of_simps [simp]:
  "dt_cookie (dentry_of arena e) = ce_cookie e" "dt_name (dentry_of arena e) = arena_name arena e"
  "dt_node (dentry_of arena e) = ce_node e" "dt_kind (dentry_of arena e) = ce_kind e"
  by (simp_all add: dentry_of_def)

lemma finite_live_set [simp]: "finite (live_set es)"
  by (simp add: live_set_def)

lemma live_set_snoc: "\<not> ce_dead e \<Longrightarrow> live_set (es @ [e]) = insert (length es) (live_set es)"
  by (auto simp: live_set_def nth_append less_Suc_eq)

lemma live_set_less: "k \<in> live_set es \<Longrightarrow> k < length es"
  by (simp add: live_set_def)

lemma index_slots_Nil [simp]: "index_slots H arena [] = {#}"
  by (simp add: index_slots_def live_set_def)

lemma index_slots_snoc:
  assumes "\<not> ce_dead e" "\<forall>x \<in> set es. in_arena arena x"
  shows "index_slots H (arena @ b) (es @ [e]) =
    add_mset (name_hash H (arena_name (arena @ b) e), of_nat (length es)) (index_slots H arena es)"
proof -
  have "image_mset (\<lambda>k. (name_hash H (arena_name (arena @ b) ((es @ [e]) ! k)), of_nat k))
      (mset_set (live_set es)) = index_slots H arena es"
    unfolding index_slots_def
  proof (rule image_mset_cong)
    fix k assume "k \<in># mset_set (live_set es)"
    then have "k < length es" by (simp add: live_set_def)
    then show "(name_hash H (arena_name (arena @ b) ((es @ [e]) ! k)), of_nat k) =
        (name_hash H (arena_name arena (es ! k)), of_nat k)"
      using assms(2) by (simp add: nth_append)
  qed
  moreover have "length es \<notin> live_set es" by (simp add: live_set_def)
  ultimately show ?thesis
    by (simp add: index_slots_def live_set_snoc [OF assms(1)])
qed

lemma index_slots_iff:
  "(h, j) \<in># index_slots H arena es \<longleftrightarrow>
     (\<exists>k \<in> live_set es. h = name_hash H (arena_name arena (es ! k)) \<and> j = of_nat k)"
  by (auto simp: index_slots_def)

lemma index_slots_coherent:
  assumes "(h, j) \<in># index_slots H arena es" "length es < 2 ^ 32"
    and "\<forall>k < length es. arena_name arena' (es' ! k) = arena_name arena (es ! k)"
  shows "name_hash H (arena_name arena' (es' ! unat j)) = h"
proof -
  obtain k where k: "k < length es" "h = name_hash H (arena_name arena (es ! k))" "j = of_nat k"
    using assms(1) by (auto simp: index_slots_iff dest: live_set_less)
  then have "unat j = k" using assms(2) by (simp add: unat_of_nat_small)
  then show ?thesis using k assms(3) by simp
qed

lemma live_set_nth_mem: "k \<in> live_set es \<Longrightarrow> es ! k \<in> set (filter (\<lambda>e. \<not> ce_dead e) es)"
  by (auto simp: live_set_def)

lemma mem_live_nth:
  "e \<in> set (filter (\<lambda>e. \<not> ce_dead e) es) \<Longrightarrow> \<exists>k \<in> live_set es. es ! k = e"
  by (auto simp: live_set_def in_set_conv_nth)

lemma dir_wfD:
  assumes "dir_wf H slots d"
  shows "slots (ds_by_name d) = index_slots H (ds_arena d) (ds_ents d)"
    and "\<forall>e \<in> set (ds_ents d). in_arena (ds_arena d) e"
    and "sum_list (map (\<lambda>e. unat (ce_name_len e)) (ds_ents d)) = length (ds_arena d)"
    and "distinct (map dt_name (dents d))"
    and "\<forall>x \<in> set (dents d). name_check (dt_name x) = Ok ()"
    and "sorted_wrt (<) (map ce_cookie (ds_ents d))"
    and "\<forall>e \<in> set (ds_ents d). FIRST_COOKIE \<le> ce_cookie e \<and> ce_cookie e < ds_next_cookie d"
    and "FIRST_COOKIE \<le> ds_next_cookie d"
    and "unat (ds_dead d) = length (filter ce_dead (ds_ents d))"
    and "length (ds_ents d) < 2 ^ 32" "length (ds_arena d) < 2 ^ 32"
  using assms by (simp_all add: dir_wf_def in_arena_def)

lemma live_len_dents: "dir_wf H slots d \<Longrightarrow> live_len d = length (dents d)"
  using sum_length_filter_compl [of ce_dead "ds_ents d"]
  by (simp add: live_len_def dir_wfD(9) dents_def live_def)

lemma ls_find_None: "ls_find nm L = None \<longleftrightarrow> nm \<notin> dt_name ` set L"
  by (auto simp: ls_find_def find_None_iff)

lemma ls_find_Some_distinct:
  "distinct (map dt_name L) \<Longrightarrow> ls_find nm L = Some x \<longleftrightarrow> x \<in> set L \<and> dt_name x = nm"
proof (induction L)
  case Nil
  then show ?case by (simp add: ls_find_def)
next
  case (Cons y L)
  then show ?case by (auto simp: ls_find_def)
qed

lemma ls_set_kind_append: "ls_set_kind nm k (L @ M) = ls_set_kind nm k L @ ls_set_kind nm k M"
  by (simp add: ls_set_kind_def)

lemma ls_set_kind_Cons:
  "ls_set_kind nm k (x # L) = (if dt_name x = nm then x\<lparr>dt_kind := k\<rparr> else x) # ls_set_kind nm k L"
  by (simp add: ls_set_kind_def)

lemma ls_set_kind_absent: "nm \<notin> dt_name ` set L \<Longrightarrow> ls_set_kind nm k L = L"
  by (auto simp: ls_set_kind_def intro!: map_idI)

lemma ls_remove_append: "ls_remove nm (L @ M) = ls_remove nm L @ ls_remove nm M"
  by (simp add: ls_remove_def)

lemma ls_remove_Cons: "ls_remove nm (x # L) = (if dt_name x = nm then ls_remove nm L else x # ls_remove nm L)"
  by (simp add: ls_remove_def)

lemma ls_remove_absent: "nm \<notin> dt_name ` set L \<Longrightarrow> ls_remove nm L = L"
  by (auto simp: ls_remove_def filter_id_conv)

lemma ls_find_ls_remove: "ls_find b (ls_remove c L) = (if b = c then None else ls_find b L)"
  by (induction L) (auto simp: ls_find_def ls_remove_def)

lemma ls_find_ls_set_kind:
  "ls_find b (ls_set_kind c k L) =
     (if b = c then map_option (\<lambda>x. x\<lparr>dt_kind := k\<rparr>) (ls_find b L) else ls_find b L)"
  by (induction L) (auto simp: ls_find_def ls_set_kind_def)

lemma ls_find_snoc:
  "ls_find b (L @ [x]) = (case ls_find b L of Some y \<Rightarrow> Some y
     | None \<Rightarrow> if dt_name x = b then Some x else None)"
  by (induction L) (auto simp: ls_find_def)

lemma ls_find_ls_upsert:
  "map_option (\<lambda>x. (dt_node x, dt_kind x)) (ls_find b (ls_upsert c nm node k L)) =
     (if b = nm then Some (node, k) else map_option (\<lambda>x. (dt_node x, dt_kind x)) (ls_find b L))"
  by (auto simp: ls_upsert_def ls_find_ls_set_kind ls_find_snoc ls_find_ls_remove comp_def
      split: option.splits)

lemma ls_set_kind_same:
  assumes "distinct (map dt_name L)" "ls_find nm L = Some x"
  shows "ls_set_kind nm (dt_kind x) L = L"
proof -
  have "y = x" if "y \<in> set L" "dt_name y = nm" for y
    using assms that by (metis ls_find_Some_distinct option.inject)
  then show ?thesis by (auto simp: ls_set_kind_def intro!: map_idI)
qed

lemma drop_partition_point:
  fixes f :: "'a \<Rightarrow> 'b :: linorder"
  assumes "sorted_wrt (<) (map f es)"
  shows "drop (partition_point (\<lambda>e. f e \<le> c) es) es = filter (\<lambda>e. c < f e) es"
proof -
  have "dropWhile (\<lambda>e. f e \<le> c) es = filter (\<lambda>e. c < f e) es"
    using assms by (induction es) (auto simp: filter_id_conv not_le intro!: filter_id_conv [THEN iffD2, symmetric])
  then show ?thesis by (simp add: partition_point_def dropWhile_eq_drop)
qed

lemma insert_new_room:
  assumes "dir_room (Suc n) d" "length nm \<le> 255"
  shows "dir_room n (insert_new H d nm node k)"
proof -
  have "unat (ds_next_cookie d + 1) = unat (ds_next_cookie d) + 1"
    using assms by (intro unat_Suc_word) (simp add: dir_room_def)
  then show ?thesis using assms by (simp add: dir_room_def insert_new_def Let_def)
qed

text \<open>Copying the live entries keeps what they denote.\<close>

lemma compact_loop_spec:
  assumes "\<forall>e \<in> set es. in_arena (ds_arena d) e"
    and "length a + sum_list (map (\<lambda>e. unat (ce_name_len e)) es) < 2 ^ 32"
    and "\<forall>x \<in> set xs. in_arena a x"
  shows "\<exists>ys zs. compact_loop d es (a, xs) = (a @ zs, xs @ ys)
    \<and> length zs = sum_list (map (\<lambda>e. unat (ce_name_len e)) es)
    \<and> map (dentry_of (a @ zs)) ys = map (dentry_of (ds_arena d)) es
    \<and> map ce_dead ys = map ce_dead es \<and> map ce_name_len ys = map ce_name_len es
    \<and> (\<forall>y \<in> set ys. in_arena (a @ zs) y)"
  using assms
proof (induction es arbitrary: a xs)
  case Nil
  then show ?case by simp
next
  case (Cons e es)
  let ?n = "name_of d e" and ?y = "e\<lparr>ce_name_off := of_nat (length a)\<rparr>"
  have ln: "length ?n = unat (ce_name_len e)"
    using Cons.prems(1) by (simp add: name_of_def length_arena_name)
  have off: "unat (of_nat (length a) :: u32) = length a"
    using Cons.prems(2) by (intro unat_of_nat_small) simp
  have y: "in_arena (a @ ?n) ?y" by (simp add: in_arena_def off ln)
  have yn: "arena_name (a @ ?n) ?y = ?n"
    by (simp add: arena_name_def off ln slice_def)
  have "dentry_of (a @ ?n) ?y = dentry_of (ds_arena d) e"
    using yn by (simp add: dentry_of_def name_of_def ce_node_def)
  moreover obtain ys zs where
      "compact_loop d es (a @ ?n, xs @ [?y]) = ((a @ ?n) @ zs, (xs @ [?y]) @ ys)"
      "length zs = sum_list (map (\<lambda>e. unat (ce_name_len e)) es)"
      "map (dentry_of ((a @ ?n) @ zs)) ys = map (dentry_of (ds_arena d)) es"
      "map ce_dead ys = map ce_dead es" "map ce_name_len ys = map ce_name_len es"
      "\<forall>y \<in> set ys. in_arena ((a @ ?n) @ zs) y"
    using Cons.IH [of "a @ ?n" "xs @ [?y]"] Cons.prems y ln by (auto simp: in_arena_append)
  moreover have "dentry_of ((a @ ?n) @ zs) ?y = dentry_of (a @ ?n) ?y"
      "in_arena ((a @ ?n) @ zs) ?y"
    using y by (simp_all only: dentry_of_append in_arena_append)
  ultimately show ?case
    using ln by (intro exI [of _ "?y # ys"] exI [of _ "?n @ zs"]) simp
qed

section \<open>The operations implement the abstract directory\<close>

context hash_index
begin

lemma find_idx_Some:
  assumes wf: "dir_wf H slots d" and f: "find_idx H d nm = Some i"
  shows "i \<in> live_set (ds_ents d)" "name_of d (ds_ents d ! i) = nm"
proof -
  let ?eq = "\<lambda>i. let e = ds_ents d ! unat (i :: u32) in \<not> ce_dead e \<and> name_of d e = nm"
  obtain j where j: "ht_find H (name_hash H nm) ?eq (ds_by_name d) = Some j" and i: "i = unat j"
    using f by (auto simp: find_idx_def)
  have "?eq j" and "\<exists>h'. (h', j) \<in># slots (ds_by_name d)"
    using find_sound [OF j] by auto
  moreover then obtain k where "k < length (ds_ents d)" "j = of_nat k"
    by (auto simp: dir_wfD(1) [OF wf] index_slots_iff dest: live_set_less)
  moreover then have "unat j = k" using dir_wfD(10) [OF wf] by (simp add: unat_of_nat_small)
  ultimately show "i \<in> live_set (ds_ents d)" "name_of d (ds_ents d ! i) = nm"
    using i by (auto simp: live_set_def Let_def)
qed

lemma find_idx_None:
  assumes wf: "dir_wf H slots d" and f: "find_idx H d nm = None"
  shows "nm \<notin> dt_name ` set (dents d)"
proof
  assume "nm \<in> dt_name ` set (dents d)"
  then obtain e where e: "e \<in> set (filter (\<lambda>e. \<not> ce_dead e) (ds_ents d))"
      and nm: "name_of d e = nm"
    by (auto simp: dents_def live_def name_of_def)
  obtain k where k: "k \<in> live_set (ds_ents d)" "ds_ents d ! k = e"
    using mem_live_nth [OF e] by auto
  let ?eq = "\<lambda>i. let e = ds_ents d ! unat (i :: u32) in \<not> ce_dead e \<and> name_of d e = nm"
  have "(name_hash H nm, of_nat k) \<in># slots (ds_by_name d)"
    using k nm by (auto simp: dir_wfD(1) [OF wf] index_slots_iff name_of_def)
  moreover have "unat (of_nat k :: u32) = k"
    using live_set_less [OF k(1)] dir_wfD(10) [OF wf] by (simp add: unat_of_nat_small)
  then have "?eq (of_nat k)" using k nm e by simp
  ultimately have "ht_find H (name_hash H nm) ?eq (ds_by_name d) \<noteq> None"
    by (rule find_complete)
  then show False using f by (simp add: find_idx_def)
qed

lemma find_idx_dentry:
  assumes "dir_wf H slots d"
  shows "map_option (\<lambda>i. dentry_of (ds_arena d) (ds_ents d ! i)) (find_idx H d nm) = ls_find nm (dents d)"
proof (cases "find_idx H d nm")
  case None
  have "ls_find nm (dents d) = None"
    using find_idx_None [OF assms None] by (simp add: ls_find_None)
  then show ?thesis using None by simp
next
  case (Some i)
  have "ds_ents d ! i \<in> set (live d)"
    using live_set_nth_mem [OF find_idx_Some(1) [OF assms Some]] by (simp add: live_def)
  then have "ls_find nm (dents d) = Some (dentry_of (ds_arena d) (ds_ents d ! i))"
    using find_idx_Some(2) [OF assms Some]
    by (simp add: ls_find_Some_distinct [OF dir_wfD(4) [OF assms]]) (simp add: dents_def name_of_def)
  then show ?thesis using Some by simp
qed

lemma dir_find_refines:
  assumes "dir_wf H slots d"
  shows "dir_find H d nm = map_option (\<lambda>x. (dt_node x, dt_kind x)) (ls_find nm (dents d))"
  unfolding find_idx_dentry [OF assms, symmetric]
  by (auto simp: dir_find_def Let_def split: option.splits)

lemma dir_new_wf: "dir_wf H slots (dir_new H)" "dents (dir_new H) = []"
  by (simp_all add: dir_wf_def dir_new_def dents_def live_def slots_new)

lemma insert_new_wf:
  assumes wf: "dir_wf H slots d" and room: "dir_room 1 d"
    and nm: "name_check nm = Ok ()" "nm \<notin> dt_name ` set (dents d)"
  shows "dir_wf H slots (insert_new H d nm node k)" (is "dir_wf H slots ?d'")
    and "dents (insert_new H d nm node k) = dents d @
      [\<lparr>dt_cookie = ds_next_cookie d, dt_name = nm, dt_node = node, dt_kind = k\<rparr>]"
proof -
  let ?e = "\<lparr>ce_cookie = ds_next_cookie d, ce_ino = ino node, ce_nkgen = generation node,
      ce_name_off = of_nat (length (ds_arena d)), ce_name_len = of_nat (length nm), ce_kind = k,
      ce_dead = False\<rparr>"
  let ?arena = "ds_arena d @ nm" and ?ents = "ds_ents d @ [?e]"
  note w = dir_wfD [OF wf]
  have len: "length nm \<le> 255" using nm(1) by (simp add: name_check_ok MAX_NAME_def)
  have off: "unat (of_nat (length (ds_arena d)) :: u32) = length (ds_arena d)"
      and lw: "unat (of_nat (length nm) :: u16) = length nm"
    using w(11) len by (simp_all add: unat_of_nat_small)
  have sums: "length (ds_arena d) + length nm < 2 ^ 32"
    using room len by (simp add: dir_room_def)
  have e: "arena_name ?arena ?e = nm" "in_arena ?arena ?e"
    by (simp_all add: arena_name_def in_arena_def off lw slice_def)
  have ix: "index_slots H ?arena ?ents =
      add_mset (name_hash H nm, of_nat (length (ds_ents d))) (index_slots H (ds_arena d) (ds_ents d))"
    using index_slots_snoc [OF _ w(2), of ?e H nm] e(1) by simp
  have "slots (ht_insert_unique H (name_hash H nm) (of_nat (length (ds_ents d)))
      (\<lambda>i. name_hash H (arena_name ?arena (?ents ! unat i))) (ds_by_name d)) = index_slots H ?arena ?ents"
    unfolding ix w(1) [symmetric]
  proof (rule slots_insert)
    fix h j assume "(h, j) \<in># slots (ds_by_name d)"
    then show "name_hash H (arena_name ?arena (?ents ! unat j)) = h"
      unfolding w(1) by (rule index_slots_coherent) (use w(2,10) in \<open>auto simp: nth_append\<close>)
  qed
  moreover have live_eq: "map (dentry_of ?arena) (live d) = dents d"
    using w(2) by (auto simp: dents_def live_def)
  show dents': "dents ?d' = dents d @
      [\<lparr>dt_cookie = ds_next_cookie d, dt_name = nm, dt_node = node, dt_kind = k\<rparr>]"
    using live_eq e(1)
    by (simp add: insert_new_def dents_def live_def Let_def dentry_of_def ce_node_def)
  moreover have nc: "unat (ds_next_cookie d + 1) = unat (ds_next_cookie d) + 1"
    using room by (intro unat_Suc_word) (simp add: dir_room_def)
  then have lt: "ds_next_cookie d < ds_next_cookie d + 1" by (simp add: word_less_nat_alt)
  moreover have "sorted_wrt (<) (map ce_cookie ?ents)"
    using w(6,7) by (auto simp: sorted_wrt_append)
  moreover have "\<forall>e \<in> set ?ents. FIRST_COOKIE \<le> ce_cookie e \<and> ce_cookie e < ds_next_cookie d + 1"
    using w(7,8) lt by (auto intro: less_trans)
  moreover have "\<forall>e \<in> set ?ents. in_arena ?arena e"
    using w(2) e(2) by (auto simp: in_arena_append)
  moreover have "length ?ents < 2 ^ 32" using room by (simp add: dir_room_def)
  ultimately show "dir_wf H slots ?d'"
    using w nm sums lw unfolding dir_wf_def dents'
    by (simp add: insert_new_def Let_def in_arena_def less_imp_le [OF order.strict_trans1 [OF w(8) lt]])
qed

lemma index_loop_spec:
  assumes "slots t = index_slots H arena pre" "ents = pre @ es" "length ents < 2 ^ 32"
    and "\<forall>e \<in> set ents. in_arena arena e" "\<forall>e \<in> set es. \<not> ce_dead e"
  shows "slots (index_loop H arena ents (length pre) es t) = index_slots H arena ents"
  using assms(1,2,5)
proof (induction es arbitrary: pre t)
  case Nil
  then show ?case by simp
next
  case (Cons e es)
  let ?t = "ht_insert_unique H (name_hash H (arena_name arena e)) (of_nat (length pre))
      (\<lambda>j. name_hash H (arena_name arena (ents ! unat j))) t"
  have "slots ?t = add_mset (name_hash H (arena_name arena e), of_nat (length pre)) (slots t)"
  proof (rule slots_insert)
    fix h j assume "(h, j) \<in># slots t"
    then show "name_hash H (arena_name arena (ents ! unat j)) = h"
      unfolding Cons.prems(1)
      by (rule index_slots_coherent) (use assms(3) Cons.prems(2) in \<open>auto simp: nth_append\<close>)
  qed
  also have "\<dots> = index_slots H arena (pre @ [e])"
    using index_slots_snoc [of e pre arena H "[]"] assms(4) Cons.prems by auto
  finally show ?case
    using Cons.IH [of ?t "pre @ [e]"] Cons.prems by simp
qed

lemma compact_wf:
  assumes wf: "dir_wf H slots d"
  shows "dir_wf H slots (compact H d)" and "dents (compact H d) = dents d"
    and "length (ds_arena (compact H d)) \<le> length (ds_arena d)"
    and "length (ds_ents (compact H d)) \<le> length (ds_ents d)"
proof -
  note w = dir_wfD [OF wf]
  let ?sum = "\<lambda>es. sum_list (map (\<lambda>e. unat (ce_name_len e)) es)"
  let ?live = "filter (\<lambda>e. \<not> ce_dead e) (ds_ents d)"
  have sum_le: "?sum ?live \<le> ?sum (ds_ents d)"
    by (induction "ds_ents d" rule: rev_induct) (simp_all add: sum_list_filter_le_nat)
  obtain ys zs where c: "compact_loop d ?live ([], []) = (zs, ys)"
      and z: "length zs = ?sum ?live"
      and y: "map (dentry_of zs) ys = map (dentry_of (ds_arena d)) ?live"
        "map ce_dead ys = map ce_dead ?live" "map ce_name_len ys = map ce_name_len ?live"
        "\<forall>y \<in> set ys. in_arena zs y"
    using compact_loop_spec [of ?live d "[]" "[]"] w(2,3,11) sum_le by auto
  have leny: "length ys = length ?live" using y(2) by (metis length_map)
  have cd: "ds_arena (compact H d) = zs" "ds_ents (compact H d) = ys" "ds_dead (compact H d) = 0"
      "ds_next_cookie (compact H d) = ds_next_cookie d"
      "ds_by_name (compact H d) = index_loop H zs ys 0 ys (ht_with_capacity H (length ys))"
    by (simp_all add: compact_def c)
  have "ce_dead ` set ys = ce_dead ` set ?live" using y(2) by (metis list.set_map)
  then have alive: "\<forall>y \<in> set ys. \<not> ce_dead y" by auto
  then have live_y: "filter (\<lambda>e. \<not> ce_dead e) ys = ys" "filter ce_dead ys = []"
    by (simp_all add: filter_id_conv filter_False)
  show dents': "dents (compact H d) = dents d"
    using y(1) live_y by (simp add: dents_def live_def cd)
  show le: "length (ds_arena (compact H d)) \<le> length (ds_arena d)"
      "length (ds_ents (compact H d)) \<le> length (ds_ents d)"
    using z sum_le w(3) leny by (simp_all add: cd)
  have lty: "length ys < 2 ^ 32" using le(2) w(10) by (simp add: cd)
  have "slots (ds_by_name (compact H d)) = index_slots H zs ys"
    using index_loop_spec [of "ht_with_capacity H (length ys)" zs "[]" ys ys] y(4) alive lty
    by (simp add: cd slots_with_capacity)
  moreover have ck: "map ce_cookie ys = map ce_cookie ?live"
  proof -
    have "map dt_cookie (map (dentry_of zs) ys) = map dt_cookie (map (dentry_of (ds_arena d)) ?live)"
      using y(1) by simp
    then show ?thesis by (simp add: comp_def)
  qed
  moreover have "sorted_wrt (<) (map ce_cookie ?live)"
    using w(6) by (simp add: sorted_wrt_map sorted_wrt_filter)
  moreover have "\<forall>e \<in> set ys. FIRST_COOKIE \<le> ce_cookie e \<and> ce_cookie e < ds_next_cookie d"
  proof
    fix e assume "e \<in> set ys"
    then have "ce_cookie e \<in> set (map ce_cookie ?live)" using ck by (metis image_eqI list.set_map)
    then show "FIRST_COOKIE \<le> ce_cookie e \<and> ce_cookie e < ds_next_cookie d" using w(7) by auto
  qed
  moreover have "?sum ys = length zs"
  proof -
    have "map unat (map ce_name_len ys) = map unat (map ce_name_len ?live)" using y(3) by simp
    then show ?thesis using z by (simp add: comp_def)
  qed
  moreover have "length zs < 2 ^ 32" using le(1) w(11) by (simp add: cd)
  ultimately show "dir_wf H slots (compact H d)"
    using w y(4) lty live_y(2) unfolding dir_wf_def dents' by (simp add: cd in_arena_def)
qed

text \<open>A tombstone takes the entry out of the list and its slot out of the index.\<close>

lemma live_set_kill:
  "live_set (es[i := (es ! i)\<lparr>ce_dead := True\<rparr>]) = live_set es - {i}"
proof (rule set_eqI)
  fix x
  show "x \<in> live_set (es[i := (es ! i)\<lparr>ce_dead := True\<rparr>]) \<longleftrightarrow> x \<in> live_set es - {i}"
    by (cases "x = i") (auto simp: live_set_def)
qed

lemma tombstone_slots:
  assumes wf: "dir_wf H slots d" and i: "i \<in> live_set (ds_ents d)"
  shows "slots (ht_remove_entry H (name_hash H (name_of d (ds_ents d ! i))) (\<lambda>j. unat j = i)
        (ds_by_name d)) =
      index_slots H (ds_arena d) ((ds_ents d)[i := (ds_ents d ! i)\<lparr>ce_dead := True\<rparr>])"
proof -
  note w = dir_wfD [OF wf]
  let ?nm = "name_of d (ds_ents d ! i)"
  let ?f = "\<lambda>k. (name_hash H (arena_name (ds_arena d) (ds_ents d ! k)), of_nat k :: u32)"
  have il: "i < length (ds_ents d)" using i by (rule live_set_less)
  have slot: "(name_hash H ?nm, of_nat i) \<in># slots (ds_by_name d)"
    using i by (auto simp: w(1) index_slots_iff name_of_def)
  have "slots (ht_remove_entry H (name_hash H ?nm) (\<lambda>j. unat j = i) (ds_by_name d)) =
      slots (ds_by_name d) - {#(name_hash H ?nm, of_nat i)#}"
  proof (rule slots_remove [OF slot])
    show "unat (of_nat i :: u32) = i" using il w(10) by (simp add: unat_of_nat_small)
    fix h j assume "(h, j) \<in># slots (ds_by_name d)" "unat j = i"
    then show "(h, j) = (name_hash H ?nm, of_nat i)"
      using w(10) by (auto simp: w(1) index_slots_iff name_of_def unat_of_nat_small dest!: live_set_less)
  qed
  also have "\<dots> = image_mset ?f (mset_set (live_set (ds_ents d) - {i}))"
    using i by (simp add: w(1) index_slots_def image_mset_Diff name_of_def mset_set_Diff)
  also have "\<dots> = index_slots H (ds_arena d) ((ds_ents d)[i := (ds_ents d ! i)\<lparr>ce_dead := True\<rparr>])"
    unfolding index_slots_def live_set_kill by (rule image_mset_cong) auto
  finally show ?thesis .
qed

lemma tombstone_wf:
  assumes wf: "dir_wf H slots d" and i: "i \<in> live_set (ds_ents d)"
  defines "d' \<equiv> d\<lparr>ds_by_name := ht_remove_entry H (name_hash H (name_of d (ds_ents d ! i)))
      (\<lambda>j. unat j = i) (ds_by_name d),
    ds_ents := (ds_ents d)[i := (ds_ents d ! i)\<lparr>ce_dead := True\<rparr>], ds_dead := ds_dead d + 1\<rparr>"
  shows "dir_wf H slots d'" "dents d' = ls_remove (name_of d (ds_ents d ! i)) (dents d)"
proof -
  note w = dir_wfD [OF wf]
  have il: "i < length (ds_ents d)" using i by (rule live_set_less)
  obtain e xs ys where es: "ds_ents d = xs @ e # ys" and lx: "length xs = i"
    using id_take_nth_drop [OF il] il by (metis length_take min.absorb4)
  have ei: "ds_ents d ! i = e" unfolding es lx [symmetric] by (rule nth_append_length)
  have alive: "\<not> ce_dead e" using i ei by (simp add: live_set_def)
  have es': "ds_ents d' = xs @ e\<lparr>ce_dead := True\<rparr> # ys"
    using lx by (simp add: d'_def ei) (simp add: es list_update_append)
  let ?nm = "name_of d e" and ?L = "\<lambda>zs. map (dentry_of (ds_arena d)) (filter (\<lambda>e. \<not> ce_dead e) zs)"
  have dd: "dents d = ?L xs @ dentry_of (ds_arena d) e # ?L ys"
    by (simp add: dents_def live_def es alive)
  have dd': "dents d' = ?L xs @ ?L ys"
    unfolding dents_def live_def es' by (simp add: d'_def)
  have nme: "dt_name (dentry_of (ds_arena d) e) = ?nm" by (simp add: name_of_def)
  have "?nm \<notin> dt_name ` set (?L xs)" "?nm \<notin> dt_name ` set (?L ys)"
    using w(4) unfolding dd nme [symmetric] by auto
  then have dents': "dents d' = ls_remove ?nm (dents d)"
    unfolding dd dd' ls_remove_append ls_remove_Cons nme by (simp only: ls_remove_absent if_True simp_thms)
  then show "dents d' = ls_remove (name_of d (ds_ents d ! i)) (dents d)" by (simp add: ei)
  have sl: "slots (ds_by_name d') = index_slots H (ds_arena d') (ds_ents d')"
    using tombstone_slots [OF wf i] by (simp add: d'_def)
  have "unat (ds_dead d) \<le> length xs + length ys"
    using w(9) by (simp add: es alive add_mono)
  then have "unat (ds_dead d + 1) = unat (ds_dead d) + 1"
    using w(10) by (intro unat_Suc_word) (simp add: es)
  then have dead: "unat (ds_dead d') = length (filter ce_dead (ds_ents d'))"
    using w(9) alive unfolding es' by (simp add: d'_def es)
  have "distinct (map dt_name (dents d'))"
    using w(4) unfolding dd dd' by simp
  moreover have "\<forall>x \<in> set (dents d'). name_check (dt_name x) = Ok ()"
    using w(5) by (simp add: dents' ls_remove_def)
  moreover have "ds_arena d' = ds_arena d" "ds_next_cookie d' = ds_next_cookie d"
    by (simp_all add: d'_def)
  ultimately show "dir_wf H slots d'"
    unfolding dir_wf_def using w(2,3,6-8,10,11) sl dead
    by (simp add: es es' in_arena_def)
qed

lemma kill_wf:
  assumes wf: "dir_wf H slots d" and i: "i \<in> live_set (ds_ents d)"
  shows "dir_wf H slots (kill H d i)"
    and "dents (kill H d i) = ls_remove (name_of d (ds_ents d ! i)) (dents d)"
    and "ds_next_cookie (kill H d i) = ds_next_cookie d" "ds_dirgen (kill H d i) = ds_dirgen d"
    and "ds_complete (kill H d i) = ds_complete d"
    and "dir_room n d \<Longrightarrow> dir_room n (kill H d i)"
proof -
  note t = tombstone_wf [OF wf i]
  note c = compact_wf [OF t(1)]
  show "dir_wf H slots (kill H d i)"
    and "dents (kill H d i) = ls_remove (name_of d (ds_ents d ! i)) (dents d)"
    using t c(1,2) by (simp_all add: kill_def Let_def)
  show nc: "ds_next_cookie (kill H d i) = ds_next_cookie d" and "ds_dirgen (kill H d i) = ds_dirgen d"
    and "ds_complete (kill H d i) = ds_complete d"
    by (simp_all add: kill_def compact_def Let_def split: prod.splits)
  have "length (ds_arena (kill H d i)) \<le> length (ds_arena d)"
      "length (ds_ents (kill H d i)) \<le> length (ds_ents d)"
    using c(3,4) by (simp_all add: kill_def Let_def)
  then show "dir_room n d \<Longrightarrow> dir_room n (kill H d i)" by (simp add: dir_room_def nc)
qed

lemma set_kind_wf:
  fixes k :: kind
  assumes wf: "dir_wf H slots d" and i: "i \<in> live_set (ds_ents d)"
  defines "d' \<equiv> d\<lparr>ds_ents := (ds_ents d)[i := (ds_ents d ! i)\<lparr>ce_kind := k\<rparr>]\<rparr>"
  shows "dir_wf H slots d'" "dents d' = ls_set_kind (name_of d (ds_ents d ! i)) k (dents d)"
proof -
  note w = dir_wfD [OF wf]
  have il: "i < length (ds_ents d)" using i by (rule live_set_less)
  obtain e xs ys where es: "ds_ents d = xs @ e # ys" and lx: "length xs = i"
    using id_take_nth_drop [OF il] il by (metis length_take min.absorb4)
  have ei: "ds_ents d ! i = e" unfolding es lx [symmetric] by (rule nth_append_length)
  have alive: "\<not> ce_dead e" using i ei by (simp add: live_set_def)
  let ?e' = "e\<lparr>ce_kind := k\<rparr>" and ?nm = "name_of d e"
    and ?L = "\<lambda>zs. map (dentry_of (ds_arena d)) (filter (\<lambda>e. \<not> ce_dead e) zs)"
  have es': "ds_ents d' = xs @ ?e' # ys"
    using lx by (simp add: d'_def ei) (simp add: es list_update_append)
  have dd: "dents d = ?L xs @ dentry_of (ds_arena d) e # ?L ys"
    by (simp add: dents_def live_def es alive)
  have dd': "dents d' = ?L xs @ (dentry_of (ds_arena d) e)\<lparr>dt_kind := k\<rparr> # ?L ys"
    unfolding dents_def live_def es'
    by (simp add: d'_def alive dentry_of_def ce_node_def arena_name_def)
  have nme: "dt_name (dentry_of (ds_arena d) e) = ?nm" by (simp add: name_of_def)
  have "?nm \<notin> dt_name ` set (?L xs)" "?nm \<notin> dt_name ` set (?L ys)"
    using w(4) unfolding dd nme [symmetric] by auto
  then have dents': "dents d' = ls_set_kind ?nm k (dents d)"
    unfolding dd dd' ls_set_kind_append ls_set_kind_Cons nme
    by (simp only: ls_set_kind_absent if_True simp_thms)
  then show "dents d' = ls_set_kind (name_of d (ds_ents d ! i)) k (dents d)" by (simp add: ei)
  have "live_set (ds_ents d') = live_set (ds_ents d)"
    using il by (auto simp: live_set_def d'_def nth_list_update)
  moreover have "arena_name (ds_arena d) (ds_ents d' ! j) = arena_name (ds_arena d) (ds_ents d ! j)" for j
    by (cases "j = i") (use il in \<open>auto simp: d'_def arena_name_def\<close>)
  ultimately have sl: "slots (ds_by_name d') = index_slots H (ds_arena d') (ds_ents d')"
    using w(1) by (simp add: index_slots_def d'_def)
  have names: "map dt_name (dents d') = map dt_name (dents d)"
    unfolding dd dd' by simp
  have "\<forall>x \<in> set (dents d'). name_check (dt_name x) = Ok ()"
    using w(5) unfolding dd dd' by auto
  moreover have "ds_arena d' = ds_arena d" "ds_next_cookie d' = ds_next_cookie d"
      "ds_dead d' = ds_dead d" by (simp_all add: d'_def)
  ultimately show "dir_wf H slots d'"
    unfolding dir_wf_def names using w(2-4,6-11) sl
    by (simp add: es es' in_arena_def)
qed

lemma upsert_wf:
  assumes wf: "dir_wf H slots d" and room: "dir_room (Suc n) d"
    and u: "upsert H d nm node k = (d', r)"
  shows "dir_wf H slots d'"
    and "dents d' = ls_upsert (ds_next_cookie d) (as_bytes nm) node k (dents d)"
    and "r = ls_upsert_result (as_bytes nm) node (dents d)"
    and "dir_room n d'" "ds_complete d' = ds_complete d"
    and "ds_next_cookie d' = (if gained_link r then ds_next_cookie d + 1 else ds_next_cookie d)"
    and "ds_dirgen d' = (if gained_link r then ds_dirgen d + 1 else ds_dirgen d)"
proof -
  have room1: "dir_room 1 d" using room by (auto simp: dir_room_def)
  have fl: "map_option (\<lambda>i. dentry_of (ds_arena d) (ds_ents d ! i)) (find_idx H d (as_bytes nm)) =
      ls_find (as_bytes nm) (dents d)"
    by (rule find_idx_dentry [OF wf])
  note new_room = insert_new_room [where n = n and nm = "as_bytes nm" and H = H]
  have "dir_wf H slots d'
    \<and> dents d' = ls_upsert (ds_next_cookie d) (as_bytes nm) node k (dents d)
    \<and> r = ls_upsert_result (as_bytes nm) node (dents d)
    \<and> dir_room n d' \<and> ds_complete d' = ds_complete d
    \<and> ds_next_cookie d' = (if gained_link r then ds_next_cookie d + 1 else ds_next_cookie d)
    \<and> ds_dirgen d' = (if gained_link r then ds_dirgen d + 1 else ds_dirgen d)"
  proof (cases "find_idx H d (as_bytes nm)")
    case None
    have absent: "as_bytes nm \<notin> dt_name ` set (dents d)" by (rule find_idx_None [OF wf None])
    have f: "ls_find (as_bytes nm) (dents d) = None" using fl None by simp
    show ?thesis
      using u None f insert_new_wf [OF wf room1 name_check_as_bytes absent, of node k]
        new_room [OF room] as_bytes_facts(2) [of nm] ls_remove_absent [OF absent]
      by (auto simp: upsert_def ls_upsert_def ls_upsert_result_def insert_new_def Let_def)
  next
    case (Some i)
    note i = find_idx_Some [OF wf Some]
    have f: "ls_find (as_bytes nm) (dents d) = Some (dentry_of (ds_arena d) (ds_ents d ! i))"
      using fl Some by simp
    show ?thesis
    proof (cases "ce_node (ds_ents d ! i) = node")
      case True
      then show ?thesis
        using u Some f i(2) set_kind_wf [OF wf i(1), of k] room
        by (auto simp: upsert_def ls_upsert_def ls_upsert_result_def dir_room_def)
    next
      case False
      note kw = kill_wf [OF wf i(1)]
      have absent: "as_bytes nm \<notin> dt_name ` set (dents (kill H d i))"
        by (auto simp: kw(2) i(2) ls_remove_def)
      have "dir_room 1 (kill H d i)" using kw(6) [OF room1] .
      then show ?thesis
        using u Some f i(2) False kw(2-5) insert_new_wf [OF kw(1) _ name_check_as_bytes absent, of node k]
          new_room [OF kw(6) [OF room]] as_bytes_facts(2) [of nm]
        by (auto simp: upsert_def ls_upsert_def ls_upsert_result_def insert_new_def Let_def)
    qed
  qed
  then show "dir_wf H slots d'"
    and "dents d' = ls_upsert (ds_next_cookie d) (as_bytes nm) node k (dents d)"
    and "r = ls_upsert_result (as_bytes nm) node (dents d)"
    and "dir_room n d'" "ds_complete d' = ds_complete d"
    and "ds_next_cookie d' = (if gained_link r then ds_next_cookie d + 1 else ds_next_cookie d)"
    and "ds_dirgen d' = (if gained_link r then ds_dirgen d + 1 else ds_dirgen d)"
    by auto
qed

lemma dir_remove_wf:
  assumes wf: "dir_wf H slots d" and u: "dir_remove H d nm = (d', r)"
  shows "dir_wf H slots d'" "dents d' = ls_remove nm (dents d)"
    and "r = map_option dt_node (ls_find nm (dents d))"
    and "dir_room n d \<Longrightarrow> dir_room n d'" "ds_complete d' = ds_complete d"
    and "ds_next_cookie d' = ds_next_cookie d"
proof -
  let ?d = "d\<lparr>ds_dirgen := ds_dirgen d + 1\<rparr>"
  have wf': "dir_wf H slots ?d" using wf by (simp add: dir_wf_def dents_def live_def)
  have fl: "map_option (\<lambda>i. dentry_of (ds_arena d) (ds_ents d ! i)) (find_idx H d nm) =
      ls_find nm (dents d)"
    by (rule find_idx_dentry [OF wf])
  have "dir_wf H slots d' \<and> dents d' = ls_remove nm (dents d)
    \<and> r = map_option dt_node (ls_find nm (dents d)) \<and> (dir_room n d \<longrightarrow> dir_room n d')
    \<and> ds_complete d' = ds_complete d \<and> ds_next_cookie d' = ds_next_cookie d"
  proof (cases "find_idx H d nm")
    case None
    then have "ls_find nm (dents d) = None" using fl by simp
    then show ?thesis
      using u None wf ls_remove_absent [OF find_idx_None [OF wf None]] by (simp add: dir_remove_def)
  next
    case (Some i)
    note i = find_idx_Some [OF wf Some]
    have f: "ls_find nm (dents d) = Some (dentry_of (ds_arena d) (ds_ents d ! i))"
      using fl Some by simp
    have eqs: "dents ?d = dents d" "name_of ?d (ds_ents d ! i) = nm" "dir_room n ?d = dir_room n d"
      using i(2) by (simp_all add: dents_def live_def name_of_def dir_room_def)
    show ?thesis
      using u Some f kill_wf [OF wf', of i] i(1) eqs by (auto simp: dir_remove_def Let_def)
  qed
  then show "dir_wf H slots d'" "dents d' = ls_remove nm (dents d)"
    and "r = map_option dt_node (ls_find nm (dents d))"
    and "dir_room n d \<Longrightarrow> dir_room n d'" "ds_complete d' = ds_complete d"
    and "ds_next_cookie d' = ds_next_cookie d"
    by auto
qed

lemma range_after_refines:
  assumes "dir_wf H slots d"
  shows "map (dentry_of (ds_arena d)) (range_after d c) = filter (\<lambda>x. c < dt_cookie x) (dents d)"
proof -
  have "range_after d c = filter (\<lambda>e. \<not> ce_dead e) (filter (\<lambda>e. c < ce_cookie e) (ds_ents d))"
    using drop_partition_point [OF dir_wfD(6) [OF assms]] by (simp add: range_after_def)
  then show ?thesis by (simp add: dents_def live_def filter_map comp_def conj_commute)
qed

lemma dents_cookies:
  assumes "dir_wf H slots d"
  shows "sorted_wrt (<) (map dt_cookie (dents d))"
    and "\<forall>x \<in> set (dents d). FIRST_COOKIE \<le> dt_cookie x \<and> dt_cookie x < ds_next_cookie d"
  using dir_wfD(6,7) [OF assms]
  by (auto simp: dents_def live_def comp_def sorted_wrt_map sorted_wrt_filter)

end

section \<open>What a client of the table relies on\<close>

text \<open>
  The interface the replica uses. A table has an invariant, the list of its entries and
  the three operations; the laws say that each operation keeps the invariant and acts on
  the list. The lemmas are what the client concludes about lookups.
\<close>

locale dentry_table =
  fixes inv :: "'d \<Rightarrow> bool"
    and room :: "'d \<Rightarrow> bool"
    and entries_of :: "'d \<Rightarrow> dentry list"
    and next_cookie_of :: "'d \<Rightarrow> u64"
    and ups :: "'d \<Rightarrow> name \<Rightarrow> node_key \<Rightarrow> kind \<Rightarrow> 'd \<times> upsert_result"
    and rem :: "'d \<Rightarrow> bytes \<Rightarrow> 'd \<times> node_key option"
    and fnd :: "'d \<Rightarrow> bytes \<Rightarrow> (node_key \<times> kind) option"
  assumes inv_distinct: "inv d \<Longrightarrow> distinct (map dt_name (entries_of d))"
    and ups_inv: "inv d \<Longrightarrow> room d \<Longrightarrow> inv (fst (ups d nm node k))"
    and ups_entries: "inv d \<Longrightarrow> room d \<Longrightarrow> entries_of (fst (ups d nm node k)) =
      ls_upsert (next_cookie_of d) (as_bytes nm) node k (entries_of d)"
    and ups_result: "inv d \<Longrightarrow> room d \<Longrightarrow>
      snd (ups d nm node k) = ls_upsert_result (as_bytes nm) node (entries_of d)"
    and rem_inv: "inv d \<Longrightarrow> inv (fst (rem d b))"
    and rem_entries: "inv d \<Longrightarrow> entries_of (fst (rem d b)) = ls_remove b (entries_of d)"
    and rem_result: "inv d \<Longrightarrow> snd (rem d b) = map_option dt_node (ls_find b (entries_of d))"
    and fnd_entries: "inv d \<Longrightarrow>
      fnd d b = map_option (\<lambda>x. (dt_node x, dt_kind x)) (ls_find b (entries_of d))"
begin

lemma fnd_ups:
  assumes "inv d" "room d"
  shows "fnd (fst (ups d nm node k)) b = (if b = as_bytes nm then Some (node, k) else fnd d b)"
  using assms by (simp add: fnd_entries ups_inv ups_entries ls_find_ls_upsert)

lemma fnd_rem:
  assumes "inv d"
  shows "fnd (fst (rem d c)) b = (if b = c then None else fnd d b)"
  using assms by (simp add: fnd_entries rem_inv rem_entries ls_find_ls_remove)

text \<open>Repeating an upsert finds the entry in place: nothing is gained or displaced.\<close>

lemma ups_twice:
  assumes "inv d" "room d" "room (fst (ups d nm node k))"
  shows "snd (ups (fst (ups d nm node k)) nm node k) =
      \<lparr>gained_link = False, displaced = None, dentry_delta = 0\<rparr>"
    and "entries_of (fst (ups (fst (ups d nm node k)) nm node k)) = entries_of (fst (ups d nm node k))"
proof -
  let ?d = "fst (ups d nm node k)"
  have i: "inv ?d" using assms by (simp add: ups_inv)
  obtain x where x: "ls_find (as_bytes nm) (entries_of ?d) = Some x" "dt_node x = node" "dt_kind x = k"
    using fnd_ups [OF assms(1,2), of nm node k "as_bytes nm"] by (auto simp: fnd_entries [OF i])
  then show "snd (ups ?d nm node k) = \<lparr>gained_link = False, displaced = None, dentry_delta = 0\<rparr>"
    by (simp add: ups_result [OF i assms(3)] ls_upsert_result_def)
  show "entries_of (fst (ups ?d nm node k)) = entries_of ?d"
    using x ls_set_kind_same [OF inv_distinct [OF i] x(1)]
    by (simp add: ups_entries [OF i assms(3)] ls_upsert_def)
qed

end

sublocale hash_index \<subseteq> dt: dentry_table "dir_wf H slots" "dir_room 1" dents ds_next_cookie
    "upsert H" "dir_remove H" "dir_find H"
proof unfold_locales
  fix d nm node k b
  show "dir_wf H slots d \<Longrightarrow> distinct (map dt_name (dents d))" by (rule dir_wfD(4))
  show "dir_wf H slots d \<Longrightarrow> dir_room 1 d \<Longrightarrow> dir_wf H slots (fst (upsert H d nm node k))"
    and "dir_wf H slots d \<Longrightarrow> dir_room 1 d \<Longrightarrow> dents (fst (upsert H d nm node k)) =
      ls_upsert (ds_next_cookie d) (as_bytes nm) node k (dents d)"
    and "dir_wf H slots d \<Longrightarrow> dir_room 1 d \<Longrightarrow>
      snd (upsert H d nm node k) = ls_upsert_result (as_bytes nm) node (dents d)"
    using upsert_wf(1-3) [of d 0 nm node k] by (cases "upsert H d nm node k"; simp)+
  show "dir_wf H slots d \<Longrightarrow> dir_wf H slots (fst (dir_remove H d b))"
    and "dir_wf H slots d \<Longrightarrow> dents (fst (dir_remove H d b)) = ls_remove b (dents d)"
    and "dir_wf H slots d \<Longrightarrow> snd (dir_remove H d b) = map_option dt_node (ls_find b (dents d))"
    using dir_remove_wf(1-3) [of d b] by (cases "dir_remove H d b"; simp)+
  show "dir_wf H slots d \<Longrightarrow>
      dir_find H d b = map_option (\<lambda>x. (dt_node x, dt_kind x)) (ls_find b (dents d))"
    by (rule dir_find_refines)
qed

section \<open>A concrete index\<close>

text \<open>
  A name index on association lists with a polynomial hash, on which the hypotheses of
  the directory lemmas hold.
\<close>

definition list_find :: "u64 \<Rightarrow> (u32 \<Rightarrow> bool) \<Rightarrow> (u64 \<times> u32) list \<Rightarrow> u32 option" where
  "list_find h eq t = map_option snd (find (\<lambda>(h', i). h' = h \<and> eq i) t)"

fun list_remove :: "u64 \<Rightarrow> (u32 \<Rightarrow> bool) \<Rightarrow> (u64 \<times> u32) list \<Rightarrow> (u64 \<times> u32) list" where
  "list_remove h eq [] = []"
| "list_remove h eq ((h', i) # t) = (if h' = h \<and> eq i then t else (h', i) # list_remove h eq t)"

definition poly_hash :: "bytes \<Rightarrow> u64" where
  "poly_hash b = fold (\<lambda>x h. h * 31 + ucast x) b 7"

definition list_index :: "(u64 \<times> u32) list name_index" where
  "list_index = \<lparr>ht_new = [], ht_with_capacity = (\<lambda>_. []), ht_find = list_find,
     ht_insert_unique = (\<lambda>h i _ t. (h, i) # t), ht_remove_entry = list_remove,
     name_hash = poly_hash\<rparr>"

lemma list_remove_mset:
  "(h, i) \<in> set t \<Longrightarrow> eq i \<Longrightarrow> (\<And>h' j. (h', j) \<in> set t \<Longrightarrow> eq j \<Longrightarrow> (h', j) = (h, i)) \<Longrightarrow>
   mset (list_remove h eq t) = mset t - {#(h, i)#}"
proof (induction t)
  case Nil
  then show ?case by simp
next
  case (Cons a t)
  obtain h' j where a: "a = (h', j)" by (cases a)
  show ?case
  proof (cases "h' = h \<and> eq j")
    case True
    then have "a = (h, i)" using Cons.prems(3) [of h' j] a by simp
    then show ?thesis using a True by simp
  next
    case False
    then have "a \<noteq> (h, i)" using Cons.prems(2) a by auto
    moreover from this have m: "(h, i) \<in> set t" using Cons.prems(1) by simp
    moreover have "mset (list_remove h eq t) = mset t - {#(h, i)#}"
    proof (rule Cons.IH [OF m Cons.prems(2)])
      fix h'' j' assume "(h'', j') \<in> set t" "eq j'"
      then have "(h'', j') \<in> set (a # t)" by simp
      then show "(h'', j') = (h, i)" using \<open>eq j'\<close> by (rule Cons.prems(3))
    qed
    ultimately show ?thesis using a False by auto
  qed
qed

interpretation list_index: hash_index list_index mset
proof unfold_locales
  fix h i eq and t :: "(u64 \<times> u32) list" and hasher :: "u32 \<Rightarrow> u64" and n
  show "mset (ht_new list_index) = {#}" "mset (ht_with_capacity list_index n) = {#}"
    by (simp_all add: list_index_def)
  show "ht_find list_index h eq t = Some i \<Longrightarrow> eq i \<and> (\<exists>h'. (h', i) \<in># mset t)"
    by (auto simp: list_index_def list_find_def find_Some_iff intro!: exI [of _ h])
      (metis nth_mem)
  show "(h, i) \<in># mset t \<Longrightarrow> eq i \<Longrightarrow> ht_find list_index h eq t \<noteq> None"
    by (auto simp: list_index_def list_find_def find_None_iff)
  show "(\<And>h' j. (h', j) \<in># mset t \<Longrightarrow> hasher j = h') \<Longrightarrow>
      mset (ht_insert_unique list_index h i hasher t) = add_mset (h, i) (mset t)"
    by (simp add: list_index_def)
  show "mset (ht_remove_entry list_index h eq t) = mset t - {#(h, i)#}"
    if "(h, i) \<in># mset t" "eq i" "\<And>h' j. (h', j) \<in># mset t \<Longrightarrow> eq j \<Longrightarrow> (h', j) = (h, i)"
  proof -
    have "(h, i) \<in> set t" using that(1) by simp
    then have "mset (list_remove h eq t) = mset t - {#(h, i)#}"
      using that(2) by (rule list_remove_mset) (rule that(3), simp_all)
    then show ?thesis by (simp add: list_index_def)
  qed
qed

end
