(* ===== verification/Replica.thy ===== *)
theory Replica
  imports Proto_Msg Dir_State "HOL-Library.Finite_Map"
begin

text \<open>
  The host-side metadata replica of one share (\<^verbatim>\<open>crates/mist-replica/src/lib.rs\<close>,
  \<^verbatim>\<open>ShareReplica\<close>): the node table with its link counts and side tables, snapshot assembly,
  journal application and the read operations. The 64 hash shards of the source partition
  one map by a function of the key, so the model has the one map they represent. Operations
  take the replica and return it updated; the lock discipline is not part of the model. A
  panic of the source (an \<^verbatim>\<open>expect\<close>) is the value \<open>None\<close> or the error \<open>RePanic\<close>.
\<close>

section \<open>State\<close>

definition MAX_PENDING :: nat where "MAX_PENDING = 65536"

datatype apply_outcome = Applied | NeedResync

datatype pending = PendAttr attr | PendContent u64 u64 ts

definition placeholder_attr :: "kind \<Rightarrow> attr" where
  "placeholder_attr k = \<lparr>attr_kind = k, attr_mode = (if k = Dir then 493 else 420), attr_nlink = 1,
     attr_uid = 0, attr_gid = 0, attr_size = 0, attr_blocks = 0,
     attr_mtime = \<lparr>sec = 0, nsec = 0\<rparr>, attr_ctime = \<lparr>sec = 0, nsec = 0\<rparr>, attr_rdev = 0,
     attr_content_version = 0, attr_symlink_target = None\<rparr>"

datatype share_state = Seeding | Live | Degraded | Offline

record 't node =
  n_size :: u64
  n_blocks :: u64
  n_content_version :: u64
  n_mtime_sec :: i64
  n_ctime_sec :: i64
  n_parent_ino :: u64
  n_parent_gen :: u32
  n_mtime_nsec :: u32
  n_ctime_nsec :: u32
  n_nlink :: u32
  n_uid :: u32
  n_gid :: u32
  n_links :: u32
  n_mode :: u16
  n_kind :: kind
  n_has_side :: bool
  n_dir :: "'t dir_state option"

definition node_parent :: "'t node \<Rightarrow> node_key" where
  "node_parent n = \<lparr>ino = n_parent_ino n, generation = n_parent_gen n\<rparr>"

definition set_parent :: "'t node \<Rightarrow> node_key \<Rightarrow> 't node" where
  "set_parent n p = n\<lparr>n_parent_ino := ino p, n_parent_gen := generation p\<rparr>"

definition set_attr :: "'t node \<Rightarrow> attr \<Rightarrow> 't node" where
  "set_attr n a = n\<lparr>n_size := attr_size a, n_blocks := attr_blocks a,
     n_mtime_sec := sec (attr_mtime a), n_mtime_nsec := nsec (attr_mtime a),
     n_ctime_sec := sec (attr_ctime a), n_ctime_nsec := nsec (attr_ctime a),
     n_nlink := attr_nlink a, n_uid := attr_uid a, n_gid := attr_gid a,
     n_mode := attr_mode a, n_kind := attr_kind a\<rparr>"

definition node_attr :: "'t node \<Rightarrow> attr" where
  "node_attr n = \<lparr>attr_kind = n_kind n, attr_mode = n_mode n, attr_nlink = n_nlink n,
     attr_uid = n_uid n, attr_gid = n_gid n, attr_size = n_size n, attr_blocks = n_blocks n,
     attr_mtime = \<lparr>sec = n_mtime_sec n, nsec = n_mtime_nsec n\<rparr>,
     attr_ctime = \<lparr>sec = n_ctime_sec n, nsec = n_ctime_nsec n\<rparr>, attr_rdev = 0,
     attr_content_version = n_content_version n, attr_symlink_target = None\<rparr>"

record replica_stats =
  st_nodes :: u64
  st_dirs :: u64
  st_entries :: u64

record read_dir_entry =
  rde_cookie :: u64
  rde_name :: name
  rde_node :: node_key
  rde_kind :: kind

record read_dir_page =
  rdp_entries :: "read_dir_entry list"
  rdp_eof :: bool
  rdp_dirgen :: u64

datatype replica_error = ReNoEnt | ReNotDir | ReNotSymlink | ReIncomplete | ReBadPath | RePanic

record 't share_replica =
  rep_info :: share_info
  rep_state :: share_state
  rep_shards :: "(node_key, 't node) fmap"
  rep_pending :: "(node_key, pending list) fmap"
  rep_symlinks :: "(node_key, bytes) fmap"
  rep_rdevs :: "(node_key, u64) fmap"
  rep_nodes :: u64
  rep_dirs :: u64
  rep_entries :: u64

definition replica_new :: "share_info \<Rightarrow> 't share_replica" where
  "replica_new info = \<lparr>rep_info = info, rep_state = Seeding, rep_shards = fmempty,
     rep_pending = fmempty, rep_symlinks = fmempty, rep_rdevs = fmempty, rep_nodes = 0,
     rep_dirs = 0, rep_entries = 0\<rparr>"

definition replica_root :: "'t share_replica \<Rightarrow> node_key" where
  "replica_root r = si_root (rep_info r)"

definition set_state :: "'t share_replica \<Rightarrow> share_state \<Rightarrow> 't share_replica" where
  "set_state r s = r\<lparr>rep_state := s\<rparr>"

definition replica_stats :: "'t share_replica \<Rightarrow> replica_stats" where
  "replica_stats r = \<lparr>st_nodes = rep_nodes r, st_dirs = rep_dirs r, st_entries = rep_entries r\<rparr>"

text \<open>\<^verbatim>\<open>get_mut(&key)\<close> followed by an update in place.\<close>

abbreviation get_node :: "'t share_replica \<Rightarrow> node_key \<Rightarrow> 't node option" where
  "get_node r k \<equiv> fmlookup (rep_shards r) k"

abbreviation put_node :: "'t share_replica \<Rightarrow> node_key \<Rightarrow> 't node \<Rightarrow> 't share_replica" where
  "put_node r k n \<equiv> r\<lparr>rep_shards := fmupd k n (rep_shards r)\<rparr>"

section \<open>Nodes and side tables\<close>

definition note_side :: "'t share_replica \<Rightarrow> node_key \<Rightarrow> attr \<Rightarrow> 't share_replica \<times> bool" where
  "note_side r key a =
     (let (r1, side1) =
        (case attr_symlink_target a of
           Some t \<Rightarrow> (r\<lparr>rep_symlinks := fmupd key t (rep_symlinks r)\<rparr>, True)
         | None \<Rightarrow> (r, False))
      in if attr_rdev a \<noteq> 0
         then (r1\<lparr>rep_rdevs := fmupd key (attr_rdev a) (rep_rdevs r1)\<rparr>, True)
         else (r1, side1))"

definition graft_side :: "'t share_replica \<Rightarrow> node_key \<Rightarrow> bool \<Rightarrow> attr \<Rightarrow> attr" where
  "graft_side r key has_side a =
     (if \<not> has_side then a
      else
        let a1 = (if attr_kind a = Symlink
                  then a\<lparr>attr_symlink_target := fmlookup (rep_symlinks r) key\<rparr> else a)
        in if attr_kind a1 = Chr \<or> attr_kind a1 = Blk
           then a1\<lparr>attr_rdev := (case fmlookup (rep_rdevs r) key of Some v \<Rightarrow> v | None \<Rightarrow> 0)\<rparr>
           else a1)"

definition drop_side :: "'t share_replica \<Rightarrow> node_key \<Rightarrow> 't share_replica" where
  "drop_side r key =
     r\<lparr>rep_symlinks := fmdrop key (rep_symlinks r), rep_rdevs := fmdrop key (rep_rdevs r)\<rparr>"

definition upsert_node ::
    "'t name_index \<Rightarrow> 't share_replica \<Rightarrow> node_key \<Rightarrow> attr \<Rightarrow> node_key \<Rightarrow> 't share_replica" where
  "upsert_node H r key a parent =
     (let (r, has_side) = note_side r key a in
      case get_node r key of
        Some n \<Rightarrow>
          let version = n_content_version n;
              n = (set_attr n a)\<lparr>n_content_version := version\<rparr>;
              n = set_parent n parent;
              n = n\<lparr>n_has_side := n_has_side n \<or> has_side\<rparr>
          in if attr_kind a = Dir \<and> n_dir n = None
             then (put_node r key (n\<lparr>n_dir := Some (dir_new H)\<rparr>))\<lparr>rep_dirs := rep_dirs r + 1\<rparr>
             else put_node r key n
      | None \<Rightarrow>
          let r = (if attr_kind a = Dir then r\<lparr>rep_dirs := rep_dirs r + 1\<rparr> else r);
              dir = (if attr_kind a = Dir then Some (dir_new H) else None);
              n = \<lparr>n_size = 0, n_blocks = 0, n_content_version = attr_content_version a,
                   n_mtime_sec = 0, n_ctime_sec = 0, n_parent_ino = ino parent,
                   n_parent_gen = generation parent, n_mtime_nsec = 0, n_ctime_nsec = 0,
                   n_nlink = 0, n_uid = 0, n_gid = 0, n_links = 0, n_mode = 0,
                   n_kind = attr_kind a, n_has_side = has_side, n_dir = dir\<rparr>
          in (put_node r key (set_attr n a))\<lparr>rep_nodes := rep_nodes r + 1\<rparr>)"

definition entries_add :: "'t share_replica \<Rightarrow> int \<Rightarrow> 't share_replica" where
  "entries_add r delta =
     (if delta \<ge> 0 then r\<lparr>rep_entries := rep_entries r + of_int delta\<rparr>
      else r\<lparr>rep_entries := rep_entries r - of_int (- delta)\<rparr>)"

definition link_inc :: "'t share_replica \<Rightarrow> node_key \<Rightarrow> 't share_replica" where
  "link_inc r key =
     (case get_node r key of
        Some n \<Rightarrow> put_node r key (n\<lparr>n_links := n_links n + 1\<rparr>)
      | None \<Rightarrow> r)"

text \<open>
  The mutually recursive garbage collection. \<open>drop_links\<close> is the loop of \<^verbatim>\<open>remove_node\<close> over
  the entries of the directory that was taken out of the table.
\<close>

function link_dec :: "'t share_replica \<Rightarrow> node_key \<Rightarrow> 't share_replica"
  and remove_node :: "'t share_replica \<Rightarrow> node_key \<Rightarrow> 't share_replica"
  and drop_links :: "'t share_replica \<Rightarrow> node_key list \<Rightarrow> 't share_replica" where
  "link_dec r key =
     (case get_node r key of
        None \<Rightarrow> r
      | Some n \<Rightarrow>
          let n' = n\<lparr>n_links := sat_sub (n_links n) 1\<rparr>;
              r' = put_node r key n'
          in if n_links n' = 0 \<and> key \<noteq> replica_root r then remove_node r' key else r')"
| "remove_node r key =
     (case get_node r key of
        None \<Rightarrow> r
      | Some n \<Rightarrow>
          let r = r\<lparr>rep_shards := fmdrop key (rep_shards r), rep_nodes := rep_nodes r - 1\<rparr>;
              r = (if n_has_side n then drop_side r key else r)
          in case n_dir n of
               None \<Rightarrow> r
             | Some d \<Rightarrow> drop_links (r\<lparr>rep_dirs := rep_dirs r - 1\<rparr>) (map ce_node (live d)))"
| "drop_links r [] = r"
| "drop_links r (key # keys) = drop_links (link_dec (entries_add r (- 1)) key) keys"
  by pat_completeness auto

lemma shards_drop_side [simp]: "rep_shards (drop_side r key) = rep_shards r"
  by (simp add: drop_side_def)

lemma shards_entries_add [simp]: "rep_shards (entries_add r i) = rep_shards r"
  by (simp add: entries_add_def)

lemma gc_size:
  fixes r :: "'t share_replica"
  shows "link_dec_remove_node_drop_links_dom (Inl (r, key)) \<Longrightarrow>
      fmap_size (rep_shards (link_dec r key)) \<le> fmap_size (rep_shards r)"
    and "link_dec_remove_node_drop_links_dom (Inr (Inl (r, key))) \<Longrightarrow>
      fmap_size (rep_shards (remove_node r key)) \<le> fmap_size (rep_shards r)"
    and "link_dec_remove_node_drop_links_dom (Inr (Inr (r, keys))) \<Longrightarrow>
      fmap_size (rep_shards (drop_links r keys)) \<le> fmap_size (rep_shards r)"
proof (induction r key and r key and r keys rule: link_dec_remove_node_drop_links.pinduct)
  case (1 r key)
  then show ?case
    by (auto simp: link_dec.psimps Let_def fmap_size_upd fmdom_in_iff split: option.splits)
next
  case (2 r key)
  show ?case
  proof (cases "get_node r key")
    case None
    then show ?thesis using 2 by (simp add: remove_node.psimps)
  next
    case (Some n)
    note le = less_imp_le [OF fmap_size_drop_less [OF Some]]
    show ?thesis
    proof (cases "n_dir n")
      case None
      then show ?thesis using 2(1) Some le by (simp add: remove_node.psimps Let_def)
    next
      case (Some d)
      then show ?thesis
        using 2(1) \<open>get_node r key = Some n\<close> le 2(2) [OF \<open>get_node r key = Some n\<close> refl refl Some]
        by (simp add: remove_node.psimps Let_def split: if_splits)
    qed
  qed
next
  case (3 r)
  then show ?case by (simp add: drop_links.psimps)
next
  case (4 r key keys)
  then show ?case by (simp add: drop_links.psimps)
qed

termination link_dec
proof (relation "measures [case_sum (\<lambda>(r, _). fmap_size (rep_shards r))
      (case_sum (\<lambda>(r, _). fmap_size (rep_shards r)) (\<lambda>(r, _). fmap_size (rep_shards r))),
    case_sum (\<lambda>_. 2) (case_sum (\<lambda>_. 1) (\<lambda>(_, keys). 3 + length keys))]", goal_cases)
  case 1
  then show ?case by simp
next
  case (2 r key n n' r')
  then show ?case by (simp add: fmap_size_upd)
next
  case (3 r key n r' r'' d)
  then show ?case using fmap_size_drop_less [of "rep_shards r" key n] by auto
next
  case (4 r key keys)
  then show ?case by simp
next
  case (5 r key keys)
  then show ?case using gc_size(1) [of "entries_add r (- 1)" key] by auto
qed

declare link_dec.simps [simp del] remove_node.simps [simp del]

section \<open>Snapshot assembly\<close>

text \<open>
  Step 3 of \<^verbatim>\<open>apply_snap_dir\<close>: the dentries of one record, collecting the link adjustments
  that are applied after the directory is released.
\<close>

fun snap_dentries ::
    "'t name_index \<Rightarrow> snap_entry list \<Rightarrow> 't dir_state \<Rightarrow> 't share_replica \<Rightarrow> node_key list \<Rightarrow>
     node_key list \<Rightarrow> 't dir_state \<times> 't share_replica \<times> node_key list \<times> node_key list" where
  "snap_dentries H [] dir r to_link to_unlink = (dir, r, to_link, to_unlink)"
| "snap_dentries H (e # es) dir r to_link to_unlink =
     (let (dir', u) = upsert H dir (se_name e) (se_node e) (attr_kind (se_attr e))
      in snap_dentries H es dir' (entries_add r (dentry_delta u))
           (if gained_link u then to_link @ [se_node e] else to_link)
           (case displaced u of Some old \<Rightarrow> to_unlink @ [old] | None \<Rightarrow> to_unlink))"

definition apply_snap_dir ::
    "'t name_index \<Rightarrow> 't share_replica \<Rightarrow> snap_dir \<Rightarrow> 't share_replica option" where
  "apply_snap_dir H r d =
     (let r = upsert_node H r (sd_dir d) (sd_dir_attr d) (sd_parent d);
          r = fold (\<lambda>e r. upsert_node H r (se_node e) (se_attr e) (sd_dir d)) (sd_entries d) r
      in case get_node r (sd_dir d) of
           None \<Rightarrow> None
         | Some node \<Rightarrow>
             (case n_dir node of
                None \<Rightarrow> None
              | Some dir \<Rightarrow>
                  let (dir', r, to_link, to_unlink) = snap_dentries H (sd_entries d) dir r [] [];
                      dir' = (if sd_last d then dir'\<lparr>ds_complete := True\<rparr> else dir');
                      r = put_node r (sd_dir d) (node\<lparr>n_dir := Some dir'\<rparr>);
                      r = fold (\<lambda>k r. link_inc r k) to_link r
                  in Some (fold (\<lambda>k r. link_dec r k) to_unlink r)))"

section \<open>Dentries\<close>

definition rep_exists :: "'t share_replica \<Rightarrow> node_key \<Rightarrow> bool" where
  "rep_exists r key \<longleftrightarrow> get_node r key \<noteq> None"

text \<open>\<^verbatim>\<open>shard.get_mut(&key).and_then(|n| n.dir.as_mut())\<close> and an update through it.\<close>

definition get_dir :: "'t share_replica \<Rightarrow> node_key \<Rightarrow> 't dir_state option" where
  "get_dir r key = Option.bind (get_node r key) n_dir"

definition put_dir :: "'t share_replica \<Rightarrow> node_key \<Rightarrow> 't dir_state \<Rightarrow> 't share_replica" where
  "put_dir r key d =
     (case get_node r key of Some n \<Rightarrow> put_node r key (n\<lparr>n_dir := Some d\<rparr>) | None \<Rightarrow> r)"

definition mark_dir_complete :: "'t share_replica \<Rightarrow> node_key \<Rightarrow> 't share_replica" where
  "mark_dir_complete r key =
     (case get_dir r key of Some d \<Rightarrow> put_dir r key (d\<lparr>ds_complete := True\<rparr>) | None \<Rightarrow> r)"

definition dentry_set ::
    "'t name_index \<Rightarrow> 't share_replica \<Rightarrow> node_key \<Rightarrow> name \<Rightarrow> node_key \<Rightarrow> kind \<Rightarrow> 't share_replica" where
  "dentry_set H r parent nm node k =
     (case get_dir r parent of
        None \<Rightarrow> r
      | Some dir \<Rightarrow>
          let (dir', u) = upsert H dir nm node k;
              r = put_dir r parent dir';
              r = entries_add r (dentry_delta u);
              r = (if gained_link u then link_inc r node else r)
          in case displaced u of Some old \<Rightarrow> link_dec r old | None \<Rightarrow> r)"

definition dentry_relink ::
    "'t name_index \<Rightarrow> 't share_replica \<Rightarrow> node_key \<Rightarrow> name \<Rightarrow> node_key \<Rightarrow> kind \<Rightarrow> 't share_replica" where
  "dentry_relink H r parent nm node k =
     (case get_dir r parent of
        None \<Rightarrow> r
      | Some dir \<Rightarrow>
          let (dir', u) = upsert H dir nm node k;
              r = put_dir r parent dir';
              r = entries_add r (dentry_delta u);
              r = (case displaced u of Some old \<Rightarrow> link_dec r old | None \<Rightarrow> r)
          in case get_node r node of
               Some n \<Rightarrow> put_node r node (set_parent n parent)
             | None \<Rightarrow> r)"

definition dentry_remove ::
    "'t name_index \<Rightarrow> 't share_replica \<Rightarrow> node_key \<Rightarrow> bytes \<Rightarrow> 't share_replica" where
  "dentry_remove H r parent nm =
     (case get_dir r parent of
        None \<Rightarrow> r
      | Some dir \<Rightarrow>
          let (dir', removed) = dir_remove H dir nm;
              r = put_dir r parent dir'
          in case removed of
               Some node \<Rightarrow> link_dec (entries_add r (- 1)) node
             | None \<Rightarrow> r)"

definition dentry_take ::
    "'t name_index \<Rightarrow> 't share_replica \<Rightarrow> node_key \<Rightarrow> bytes \<Rightarrow>
     't share_replica \<times> (node_key \<times> kind) option" where
  "dentry_take H r parent nm =
     (case get_dir r parent of
        None \<Rightarrow> (r, None)
      | Some dir \<Rightarrow>
          (case dir_find H dir nm of
             None \<Rightarrow> (r, None)
           | Some (_, k) \<Rightarrow>
               let (dir', removed) = dir_remove H dir nm;
                   r = put_dir r parent dir'
               in case removed of
                    None \<Rightarrow> (r, None)
                  | Some node \<Rightarrow> (entries_add r (- 1), Some (node, k))))"

section \<open>Attributes and pending records\<close>

definition update_attr :: "'t share_replica \<Rightarrow> node_key \<Rightarrow> attr \<Rightarrow> 't share_replica \<times> bool" where
  "update_attr r key a =
     (let (r, has_side) = note_side r key a in
      case get_node r key of
        Some n \<Rightarrow>
          let n = set_attr n a
          in (put_node r key (n\<lparr>n_has_side := n_has_side n \<or> has_side\<rparr>), True)
      | None \<Rightarrow> (r, False))"

definition update_content ::
    "'t share_replica \<Rightarrow> node_key \<Rightarrow> u64 \<Rightarrow> u64 \<Rightarrow> ts \<Rightarrow> 't share_replica \<times> bool" where
  "update_content r key version sz mtime =
     (case get_node r key of
        Some n \<Rightarrow>
          (put_node r key (n\<lparr>n_size := sz, n_mtime_sec := sec mtime, n_mtime_nsec := nsec mtime,
             n_content_version := version\<rparr>), True)
      | None \<Rightarrow> (r, False))"

definition force_remove :: "'t share_replica \<Rightarrow> node_key \<Rightarrow> 't share_replica" where
  "force_remove r key =
     (let r = (case get_node r key of Some n \<Rightarrow> put_node r key (n\<lparr>n_links := 0\<rparr>) | None \<Rightarrow> r)
      in remove_node r key)"

definition stash_pending :: "'t share_replica \<Rightarrow> node_key \<Rightarrow> pending \<Rightarrow> 't share_replica" where
  "stash_pending r key p =
     (let pend = (if fmap_size (rep_pending r) \<ge> MAX_PENDING then fmempty else rep_pending r);
          items = (case fmlookup pend key of Some l \<Rightarrow> l | None \<Rightarrow> [])
      in r\<lparr>rep_pending := fmupd key (items @ [p]) pend\<rparr>)"

fun apply_pending :: "node_key \<Rightarrow> pending \<Rightarrow> 't share_replica \<Rightarrow> 't share_replica" where
  "apply_pending key (PendAttr a) r = fst (update_attr r key a)"
| "apply_pending key (PendContent version sz mtime) r = fst (update_content r key version sz mtime)"

definition drain_pending :: "'t share_replica \<Rightarrow> node_key \<Rightarrow> 't share_replica" where
  "drain_pending r key =
     (case fmlookup (rep_pending r) key of
        None \<Rightarrow> r
      | Some items \<Rightarrow>
          fold (apply_pending key) items (r\<lparr>rep_pending := fmdrop key (rep_pending r)\<rparr>))"

section \<open>Reads\<close>

definition rep_getattr :: "'t share_replica \<Rightarrow> node_key \<Rightarrow> replica_error + attr" where
  "rep_getattr r key =
     (case get_node r key of
        None \<Rightarrow> Err ReNoEnt
      | Some n \<Rightarrow> Ok (graft_side r key (n_has_side n) (node_attr n)))"

definition rep_lookup ::
    "'t name_index \<Rightarrow> 't share_replica \<Rightarrow> node_key \<Rightarrow> bytes \<Rightarrow> replica_error + node_key \<times> attr" where
  "rep_lookup H r dir nm =
     (case get_node r dir of
        None \<Rightarrow> Err ReNoEnt
      | Some n \<Rightarrow>
          (case n_dir n of
             None \<Rightarrow> Err ReNotDir
           | Some d \<Rightarrow>
               (case dir_find H d nm of
                  None \<Rightarrow> Err ReNoEnt
                | Some (child, _) \<Rightarrow>
                    (case rep_getattr r child of Err e \<Rightarrow> Err e | Ok a \<Rightarrow> Ok (child, a)))))"

text \<open>The loop of \<^verbatim>\<open>readdir\<close>: the entries of the page and whether the end was reached.\<close>

fun page_loop ::
    "'t dir_state \<Rightarrow> nat \<Rightarrow> cent list \<Rightarrow> read_dir_entry list \<Rightarrow>
     replica_error + read_dir_entry list \<times> bool" where
  "page_loop d max_n [] entries = Ok (entries, True)"
| "page_loop d max_n (e # es) entries =
     (if length entries \<ge> max_n then Ok (entries, False)
      else case name_new (name_of d e) of
             Err _ \<Rightarrow> Err RePanic
           | Ok nm \<Rightarrow> page_loop d max_n es (entries @
               [\<lparr>rde_cookie = ce_cookie e, rde_name = nm, rde_node = ce_node e, rde_kind = ce_kind e\<rparr>]))"

definition rep_readdir ::
    "'t share_replica \<Rightarrow> node_key \<Rightarrow> u64 \<Rightarrow> nat \<Rightarrow> replica_error + read_dir_page" where
  "rep_readdir r dir cookie max_n =
     (case get_node r dir of
        None \<Rightarrow> Err ReNoEnt
      | Some n \<Rightarrow>
          (case n_dir n of
             None \<Rightarrow> Err ReNotDir
           | Some d \<Rightarrow>
               if \<not> ds_complete d then Err ReIncomplete
               else (case page_loop d max_n (range_after d cookie) [] of
                       Err e \<Rightarrow> Err e
                     | Ok (entries, eof) \<Rightarrow>
                         Ok \<lparr>rdp_entries = entries, rdp_eof = eof, rdp_dirgen = ds_dirgen d\<rparr>)))"

definition rep_readlink :: "'t share_replica \<Rightarrow> node_key \<Rightarrow> replica_error + bytes" where
  "rep_readlink r key =
     (case rep_getattr r key of
        Err e \<Rightarrow> Err e
      | Ok a \<Rightarrow> (case attr_symlink_target a of Some t \<Rightarrow> Ok t | None \<Rightarrow> Err ReNotSymlink))"

definition link_count :: "'t share_replica \<Rightarrow> node_key \<Rightarrow> u32" where
  "link_count r key = (case get_node r key of Some n \<Rightarrow> n_links n | None \<Rightarrow> 0)"

definition bump_dir_attr :: "'t share_replica \<Rightarrow> node_key \<Rightarrow> 't share_replica" where
  "bump_dir_attr r dir =
     (case get_node r dir of
        Some n \<Rightarrow>
          if n_kind n = Dir
          then
            let n = (if n_mtime_nsec n \<ge> 999999999
                     then n\<lparr>n_mtime_sec := n_mtime_sec n + 1, n_mtime_nsec := 0\<rparr>
                     else n\<lparr>n_mtime_nsec := n_mtime_nsec n + 1\<rparr>)
            in put_node r dir (n\<lparr>n_ctime_sec := n_mtime_sec n, n_ctime_nsec := n_mtime_nsec n\<rparr>)
          else r
      | None \<Rightarrow> r)"

definition parent_of :: "'t share_replica \<Rightarrow> node_key \<Rightarrow> node_key option" where
  "parent_of r key = map_option node_parent (get_node r key)"

text \<open>The walk of \<^verbatim>\<open>path_of\<close>: at most 512 steps, collecting the components innermost first.\<close>

fun path_loop :: "nat \<Rightarrow> 't share_replica \<Rightarrow> node_key \<Rightarrow> bytes list \<Rightarrow> bytes list option" where
  "path_loop 0 r cur parts = Some parts"
| "path_loop (Suc n) r cur parts =
     (case parent_of r cur of
        None \<Rightarrow> None
      | Some parent \<Rightarrow>
          if parent = cur then Some parts
          else (case get_dir r parent of
                  None \<Rightarrow> None
                | Some d \<Rightarrow>
                    (case find (\<lambda>e. ce_node e = cur) (live d) of
                       None \<Rightarrow> None
                     | Some e \<Rightarrow>
                         if parent = replica_root r then Some (parts @ [name_of d e])
                         else path_loop n r parent (parts @ [name_of d e]))))"

text \<open>\<open>lossy\<close> stands for \<^verbatim>\<open>String::from_utf8_lossy\<close>, the identity on well-formed UTF-8.\<close>

definition path_of :: "(bytes \<Rightarrow> bytes) \<Rightarrow> 't share_replica \<Rightarrow> node_key \<Rightarrow> bytes option" where
  "path_of lossy r node =
     (if node = replica_root r then Some [byte_slash]
      else map_option (\<lambda>parts. byte_slash # join_slash (map lossy (rev parts)))
             (path_loop 512 r node []))"

fun resolve_loop ::
    "'t name_index \<Rightarrow> 't share_replica \<Rightarrow> bytes list \<Rightarrow> node_key \<times> attr \<Rightarrow>
     replica_error + node_key \<times> attr" where
  "resolve_loop H r [] cur = Ok cur"
| "resolve_loop H r (c # comps) (cur, a) =
     (if c = [byte_dot] \<or> c = [byte_dot, byte_dot] then Err ReBadPath
      else case rep_lookup H r cur c of
             Err e \<Rightarrow> Err e
           | Ok next \<Rightarrow> resolve_loop H r comps next)"

definition resolve_path ::
    "'t name_index \<Rightarrow> 't share_replica \<Rightarrow> bytes \<Rightarrow> replica_error + node_key \<times> attr" where
  "resolve_path H r path =
     (case rep_getattr r (replica_root r) of
        Err e \<Rightarrow> Err e
      | Ok a \<Rightarrow>
          resolve_loop H r (filter (\<lambda>c. c \<noteq> []) (split_slash path)) (replica_root r, a))"

section \<open>Journal records and the end of a snapshot\<close>

definition created_entry ::
    "'t name_index \<Rightarrow> node_key \<Rightarrow> snap_entry \<Rightarrow> 't share_replica \<Rightarrow> 't share_replica" where
  "created_entry H parent e r =
     (let r = upsert_node H r (se_node e) (se_attr e) parent;
          r = drain_pending r (se_node e);
          r = (if attr_kind (se_attr e) = Dir then mark_dir_complete r (se_node e) else r)
      in dentry_set H r parent (se_name e) (se_node e) (attr_kind (se_attr e)))"

fun apply_rec ::
    "'t name_index \<Rightarrow> 't share_replica \<Rightarrow> rec \<Rightarrow> 't share_replica \<times> apply_outcome" where
  "apply_rec H r (Created parent nm node a) =
     (let k = (case a of Some a \<Rightarrow> attr_kind a | None \<Rightarrow> Reg);
          r = (case a of
                 Some a \<Rightarrow> drain_pending (upsert_node H r node a parent) node
               | None \<Rightarrow>
                   (case rep_getattr r node of
                      Err _ \<Rightarrow> upsert_node H r node (placeholder_attr k) parent
                    | Ok _ \<Rightarrow> r));
          r = (if k = Dir then mark_dir_complete r node else r)
      in (dentry_set H r parent nm node k, Applied))"
| "apply_rec H r (CreatedBatch parent entries) = (fold (created_entry H parent) entries r, Applied)"
| "apply_rec H r (Removed parent nm) = (dentry_remove H r parent (as_bytes nm), Applied)"
| "apply_rec H r (Renamed from_parent from_name to_parent to_name) =
     (case dentry_take H r from_parent (as_bytes from_name) of
        (r, Some (node, k)) \<Rightarrow> (dentry_relink H r to_parent to_name node k, Applied)
      | (r, None) \<Rightarrow> (r, Applied))"
| "apply_rec H r (AttrChanged node a) =
     (case update_attr r node a of
        (r, True) \<Rightarrow> (r, Applied)
      | (r, False) \<Rightarrow> (stash_pending r node (PendAttr a), Applied))"
| "apply_rec H r (Content node version sz mtime _) =
     (case update_content r node version sz mtime of
        (r, True) \<Rightarrow> (r, Applied)
      | (r, False) \<Rightarrow> (stash_pending r node (PendContent version sz mtime), Applied))"
| "apply_rec H r (SelfRemoved node) =
     (if rep_exists r node \<and> node \<noteq> replica_root r then (force_remove r node, Applied)
      else (r, Applied))"
| "apply_rec H r Overflow = (r, NeedResync)"
| "apply_rec H r (EchoMarker _) = (r, Applied)"

text \<open>The live dentries a node holds, and the recount at the end of a snapshot.\<close>

definition node_live_len :: "'t node \<Rightarrow> nat" where
  "node_live_len n = (case n_dir n of Some d \<Rightarrow> live_len d | None \<Rightarrow> 0)"

definition finish_snapshot :: "'t share_replica \<Rightarrow> 't share_replica \<times> replica_stats" where
  "finish_snapshot r =
     (let entries = of_nat (fmap_sum node_live_len (rep_shards r));
          r = set_state (r\<lparr>rep_entries := entries\<rparr>) Live
      in (r, replica_stats r))"

end
