(* ===== verification/Replica_Inv.thy ===== *)
theory Replica_Inv
  imports Replica
begin

text \<open>
  The invariants of the replica: the directory tables are well formed, the three counters
  are exact, the out-of-order stash is bounded, and the link count of a node covers the
  dentries that point at it. Every operation is shown to keep them; the garbage collection
  is treated by simultaneous induction along its recursion.
\<close>

section \<open>What the invariants are about\<close>

definition node_targets :: "'t node \<Rightarrow> node_key list" where
  "node_targets n = (case n_dir n of Some d \<Rightarrow> map ce_node (live d) | None \<Rightarrow> [])"

text \<open>The number of live dentries that point at a node.\<close>

definition refs :: "'t share_replica \<Rightarrow> node_key \<Rightarrow> nat" where
  "refs r k = fmap_sum (\<lambda>n. count_list (node_targets n) k) (rep_shards r)"

definition total_dentries :: "'t share_replica \<Rightarrow> nat" where
  "total_dentries r = fmap_sum (\<lambda>n. length (node_targets n)) (rep_shards r)"

definition total_dirs :: "'t share_replica \<Rightarrow> nat" where
  "total_dirs r = fmap_sum (\<lambda>n. if n_dir n = None then 0 else 1) (rep_shards r)"

text \<open>The difference between a counter and what it counts, in the counter's arithmetic.\<close>

definition nodes_err :: "'t share_replica \<Rightarrow> u64" where
  "nodes_err r = rep_nodes r - of_nat (fmap_size (rep_shards r))"

definition dirs_err :: "'t share_replica \<Rightarrow> u64" where
  "dirs_err r = rep_dirs r - of_nat (total_dirs r)"

definition entries_err :: "'t share_replica \<Rightarrow> u64" where
  "entries_err r = rep_entries r - of_nat (total_dentries r)"

lemmas err_defs = nodes_err_def dirs_err_def entries_err_def

definition counters_ok :: "'t share_replica \<Rightarrow> bool" where
  "counters_ok r \<longleftrightarrow> nodes_err r = 0 \<and> dirs_err r = 0 \<and> entries_err r = 0"

definition dirs_wf ::
    "'t name_index \<Rightarrow> ('t \<Rightarrow> (u64 \<times> u32) multiset) \<Rightarrow> 't share_replica \<Rightarrow> bool" where
  "dirs_wf H slots r \<longleftrightarrow> (\<forall>k d. get_dir r k = Some d \<longrightarrow> dir_wf H slots d)"

text \<open>Room for \<open>n\<close> more dentries in every directory and on every link count.\<close>

definition roomy :: "nat \<Rightarrow> 't share_replica \<Rightarrow> bool" where
  "roomy n r \<longleftrightarrow> n < 2 ^ 23 \<and> (\<forall>k d. get_dir r k = Some d \<longrightarrow> dir_room n d)
     \<and> (\<forall>k. unat (link_count r k) + n < 2 ^ 32)"

text \<open>
  \<open>debt R r X\<close> relates, for every node, the dentries that point at it plus the links
  still owed (the multiset \<open>X\<close>) to its link count. With \<open>R\<close> equality the counts are
  exact; with \<open>R\<close> the order they are never too small.
\<close>

definition debt :: "(nat \<Rightarrow> nat \<Rightarrow> bool) \<Rightarrow> 't share_replica \<Rightarrow> node_key multiset \<Rightarrow> bool" where
  "debt R r X \<longleftrightarrow> (\<forall>k. R (refs r k + count X k) (unat (link_count r k)))"

definition link_rel :: "(nat \<Rightarrow> nat \<Rightarrow> bool) \<Rightarrow> bool" where
  "link_rel R \<longleftrightarrow> R = (=) \<or> R = (\<le>)"

lemma link_relD:
  assumes "link_rel R"
  shows "R a 0 \<longleftrightarrow> a = 0" "R (Suc a) (Suc b) \<longleftrightarrow> R a b" "R (Suc a) b \<Longrightarrow> 0 < b" "R a b \<Longrightarrow> a \<le> b"
    "R a a"
  using assms by (auto simp: link_rel_def)

lemma link_rel_add: "link_rel R \<Longrightarrow> R a b \<Longrightarrow> R (a + c) (b + c)"
  by (auto simp: link_rel_def)

section \<open>Updates of one node\<close>

lemma get_put [simp]: "get_node (put_node r k n) j = (if j = k then Some n else get_node r j)"
  by simp

lemma get_dir_put: "get_dir (put_node r k n) j = (if j = k then n_dir n else get_dir r j)"
  by (simp add: get_dir_def)

lemma refs_put_new: "get_node r k = None \<Longrightarrow>
    refs (put_node r k n) j = count_list (node_targets n) j + refs r j"
  by (simp add: refs_def fmap_sum_upd_new)

lemma refs_put_old: "get_node r k = Some m \<Longrightarrow>
    refs (put_node r k n) j + count_list (node_targets m) j = refs r j + count_list (node_targets n) j"
  using fmap_sum_upd_old [of "rep_shards r" k m "\<lambda>n. count_list (node_targets n) j" n]
  by (simp add: refs_def)

lemma refs_put_same: "get_node r k = Some m \<Longrightarrow> node_targets n = node_targets m \<Longrightarrow>
    refs (put_node r k n) = refs r"
  using refs_put_old [of r k m n] by (auto simp: fun_eq_iff)

lemma refs_shards: "rep_shards r' = rep_shards r \<Longrightarrow> refs r' = refs r"
  by (simp add: refs_def fun_eq_iff)

lemma link_count_put: "link_count (put_node r k n) j = (if j = k then n_links n else link_count r j)"
  by (simp add: link_count_def)

lemma total_dentries_put_old: "get_node r k = Some m \<Longrightarrow>
    total_dentries (put_node r k n) + length (node_targets m) =
    total_dentries r + length (node_targets n)"
  using fmap_sum_upd_old [of "rep_shards r" k m "\<lambda>n. length (node_targets n)" n]
  by (simp add: total_dentries_def)

lemma total_dirs_put_same: "get_node r k = Some m \<Longrightarrow> (n_dir n = None \<longleftrightarrow> n_dir m = None) \<Longrightarrow>
    total_dirs (put_node r k n) = total_dirs r"
  using fmap_sum_upd_old [of "rep_shards r" k m "\<lambda>n. if n_dir n = None then 0 else 1 :: nat" n]
  by (simp add: total_dirs_def)

section \<open>Operations that leave links and directories alone\<close>

definition shape :: "'t node \<Rightarrow> u32 \<times> 't dir_state option" where
  "shape n = (n_links n, map_option (\<lambda>d. d\<lparr>ds_complete := False\<rparr>) (n_dir n))"

definition same_shape :: "'t share_replica \<Rightarrow> 't share_replica \<Rightarrow> bool" where
  "same_shape r r' \<longleftrightarrow>
     (\<forall>k. map_option shape (get_node r' k) = map_option shape (get_node r k))
     \<and> rep_nodes r' = rep_nodes r \<and> rep_dirs r' = rep_dirs r \<and> rep_entries r' = rep_entries r
     \<and> rep_info r' = rep_info r"

lemma same_shape_refl [simp]: "same_shape r r"
  by (simp add: same_shape_def)

lemma same_shape_trans [trans]: "same_shape r r' \<Longrightarrow> same_shape r' r'' \<Longrightarrow> same_shape r r''"
  by (simp add: same_shape_def)

lemma same_shape_put:
  "get_node r k = Some m \<Longrightarrow> shape n = shape m \<Longrightarrow> same_shape r (put_node r k n)"
  by (simp add: same_shape_def)

lemma shape_targets:
  assumes "shape n = shape m"
  shows "node_targets n = node_targets m" "n_dir n = None \<longleftrightarrow> n_dir m = None" "n_links n = n_links m"
proof -
  have "live d = live (d\<lparr>ds_complete := False\<rparr>)" for d :: "'a dir_state" by (simp add: live_def)
  then have "node_targets n = (case snd (shape n) of Some d \<Rightarrow> map ce_node (live d) | None \<Rightarrow> [])"
    for n :: "'a node"
    by (auto simp: node_targets_def shape_def split: option.splits)
  then show "node_targets n = node_targets m" using assms by simp
  show "n_dir n = None \<longleftrightarrow> n_dir m = None" "n_links n = n_links m"
    using assms by (auto simp: shape_def)
qed

lemma dir_wf_complete [simp]: "dir_wf H slots (d\<lparr>ds_complete := b\<rparr>) = dir_wf H slots d"
  by (simp add: dir_wf_def dents_def live_def)

lemma dir_room_complete [simp]: "dir_room n (d\<lparr>ds_complete := b\<rparr>) = dir_room n d"
  by (simp add: dir_room_def)

lemma same_shape_node:
  assumes "same_shape r r'" "get_node r k = Some n"
  obtains n' where "get_node r' k = Some n'" "shape n' = shape n"
proof -
  have "map_option shape (get_node r' k) = Some (shape n)"
    using assms by (simp add: same_shape_def)
  then show ?thesis using that by auto
qed

lemma same_shape_sum:
  assumes "same_shape r r'" "\<And>n m. shape n = shape m \<Longrightarrow> f n = f m"
  shows "fmap_sum f (rep_shards r') = fmap_sum f (rep_shards r)"
proof -
  have k: "map_option f (get_node r' k) = map_option f (get_node r k)" for k
  proof -
    have "map_option shape (get_node r' k) = map_option shape (get_node r k)"
      using assms(1) by (simp add: same_shape_def)
    then show ?thesis by (cases "get_node r' k"; cases "get_node r k") (auto intro: assms(2))
  qed
  have "get_node r' k = None \<longleftrightarrow> get_node r k = None" for k
    using k [of k] by (metis option.map_disc_iff)
  then have "fset (fmdom (rep_shards r')) = fset (fmdom (rep_shards r))"
    by (simp add: set_eq_iff fmdom_in_iff)
  moreover have "(case get_node r' k of None \<Rightarrow> 0 | Some v \<Rightarrow> f v) =
      (case get_node r k of None \<Rightarrow> 0 | Some v \<Rightarrow> f v)" for k
    using k [of k] by (auto split: option.splits)
  ultimately show ?thesis by (simp add: fmap_sum_def)
qed

text \<open>Such operations keep everything the invariants mention.\<close>

lemma same_shape_keeps:
  assumes "same_shape r r'"
  shows "refs r' = refs r" "link_count r' = link_count r" "nodes_err r' = nodes_err r"
    "dirs_err r' = dirs_err r" "entries_err r' = entries_err r" "replica_root r' = replica_root r"
    "debt R r' X = debt R r X"
    "\<And>k d'. get_dir r' k = Some d' \<Longrightarrow>
       \<exists>d. get_dir r k = Some d \<and> d'\<lparr>ds_complete := False\<rparr> = d\<lparr>ds_complete := False\<rparr>"
    "\<And>k. get_node r' k = None \<longleftrightarrow> get_node r k = None"
proof -
  have sh: "map_option shape (get_node r' k) = map_option shape (get_node r k)" for k
    using assms by (simp add: same_shape_def)
  show refs: "refs r' = refs r"
    unfolding refs_def by (intro ext same_shape_sum [OF assms]) (auto dest: shape_targets(1))
  show lc: "link_count r' = link_count r"
  proof
    fix k show "link_count r' k = link_count r k"
      using sh [of k]
      by (cases "get_node r' k"; cases "get_node r k") (auto simp: link_count_def dest: shape_targets(3))
  qed
  show nn: "get_node r' k = None \<longleftrightarrow> get_node r k = None" for k
    using sh [of k] by (metis option.map_disc_iff)
  then have "fset (fmdom (rep_shards r')) = fset (fmdom (rep_shards r))"
    by (simp add: set_eq_iff fmdom_in_iff)
  moreover have "total_dirs r' = total_dirs r" "total_dentries r' = total_dentries r"
    unfolding total_dirs_def total_dentries_def
    by (intro same_shape_sum [OF assms]; auto dest: shape_targets(1,2))+
  ultimately show "nodes_err r' = nodes_err r" "dirs_err r' = dirs_err r" "entries_err r' = entries_err r"
    using assms by (simp_all add: err_defs same_shape_def fmap_size_def)
  show "replica_root r' = replica_root r" using assms by (simp add: replica_root_def same_shape_def)
  show "debt R r' X = debt R r X" by (simp add: debt_def refs lc)
  show "\<exists>d. get_dir r k = Some d \<and> d'\<lparr>ds_complete := False\<rparr> = d\<lparr>ds_complete := False\<rparr>"
    if "get_dir r' k = Some d'" for k d'
    using sh [of k] that
    by (cases "get_node r' k"; cases "get_node r k") (auto simp: get_dir_def shape_def
      dest!: sym [of "Some _" "map_option _ _"])
qed

lemma same_shape_wf_room:
  assumes "same_shape r r'"
  shows "dirs_wf H slots r \<Longrightarrow> dirs_wf H slots r'" "roomy n r \<Longrightarrow> roomy n r'"
    "counters_ok r \<Longrightarrow> counters_ok r'"
proof -
  note s = same_shape_keeps [OF assms]
  show "dirs_wf H slots r \<Longrightarrow> dirs_wf H slots r'"
    unfolding dirs_wf_def using s(8) dir_wf_complete [of H slots] by metis
  show "roomy n r \<Longrightarrow> roomy n r'"
    unfolding roomy_def s(2) using s(8) dir_room_complete [of n] by metis
  show "counters_ok r \<Longrightarrow> counters_ok r'" by (simp add: counters_ok_def s)
qed

lemma note_side_shards:
  "rep_shards (fst (note_side r key a)) = rep_shards r" "same_shape r (fst (note_side r key a))"
  "rep_pending (fst (note_side r key a)) = rep_pending r"
  by (auto simp: note_side_def same_shape_def Let_def split: option.splits)

lemma same_shape_update_attr: "same_shape r (fst (update_attr r key a))"
proof -
  obtain r1 side where ns: "note_side r key a = (r1, side)" by fastforce
  have 1: "same_shape r r1" "rep_shards r1 = rep_shards r"
    using note_side_shards [of r key a] by (simp_all add: ns)
  show ?thesis
  proof (cases "get_node r key")
    case None
    then show ?thesis using 1 by (simp add: update_attr_def ns)
  next
    case (Some n)
    then have "get_node r1 key = Some n" using 1 by simp
    then have "same_shape r1 (put_node r1 key ((set_attr n a)\<lparr>n_has_side := n_has_side (set_attr n a) \<or> side\<rparr>))"
      by (rule same_shape_put) (simp add: shape_def set_attr_def)
    then show ?thesis using Some 1 same_shape_trans by (auto simp: update_attr_def ns Let_def)
  qed
qed

lemma same_shape_update_content: "same_shape r (fst (update_content r key v sz t))"
  by (auto simp: update_content_def shape_def intro!: same_shape_put split: option.splits)

lemma same_shape_apply_pending: "same_shape r (apply_pending key p r)"
  by (cases p) (simp_all add: same_shape_update_attr same_shape_update_content)

lemma same_shape_drain_pending: "same_shape r (drain_pending r key)"
proof -
  have "same_shape r (fold (apply_pending key) items r)" for items and r :: "'a share_replica"
  proof (induction items arbitrary: r)
    case (Cons p items)
    then show ?case using same_shape_trans [OF same_shape_apply_pending] by simp blast
  qed simp
  moreover have "same_shape r (r\<lparr>rep_pending := fmdrop key (rep_pending r)\<rparr>)"
    by (simp add: same_shape_def)
  ultimately show ?thesis
    unfolding drain_pending_def by (auto split: option.splits intro: same_shape_trans)
qed

lemma same_shape_stash_pending: "same_shape r (stash_pending r key p)"
  by (simp add: stash_pending_def same_shape_def Let_def)

lemma same_shape_mark_dir_complete: "same_shape r (mark_dir_complete r key)"
  unfolding mark_dir_complete_def put_dir_def get_dir_def
  by (auto simp: shape_def intro!: same_shape_put split: option.splits bind_splits)

lemma same_shape_bump_dir_attr: "same_shape r (bump_dir_attr r dir)"
  by (auto simp: bump_dir_attr_def Let_def shape_def intro!: same_shape_put split: option.splits)

lemma same_shape_set_parent:
  "same_shape r (case get_node r k of Some n \<Rightarrow> put_node r k (set_parent n p) | None \<Rightarrow> r)"
  by (auto simp: shape_def set_parent_def intro!: same_shape_put split: option.splits)

section \<open>Garbage collection\<close>

text \<open>What garbage collection leaves of the table: nodes go, link counts fall, nothing else changes.\<close>

definition core :: "'t node \<Rightarrow> 't node" where
  "core n = n\<lparr>n_links := 0\<rparr>"

definition shrinks :: "'t share_replica \<Rightarrow> 't share_replica \<Rightarrow> bool" where
  "shrinks r r' \<longleftrightarrow> rep_info r' = rep_info r \<and> rep_state r' = rep_state r
     \<and> rep_pending r' = rep_pending r
     \<and> (\<forall>k n'. get_node r' k = Some n' \<longrightarrow>
          (\<exists>n. get_node r k = Some n \<and> n_links n' \<le> n_links n \<and> core n' = core n))"

lemma shrinks_refl [simp]: "shrinks r r"
  by (simp add: shrinks_def)

lemma shrinks_node:
  assumes "shrinks r r'" "get_node r' k = Some n'"
  obtains n where "get_node r k = Some n" "n_links n' \<le> n_links n" "core n' = core n"
  using assms unfolding shrinks_def by blast

lemma shrinks_trans:
  assumes "shrinks r r'" "shrinks r' r''"
  shows "shrinks r r''"
proof -
  have "\<exists>n. get_node r k = Some n \<and> n_links n'' \<le> n_links n \<and> core n'' = core n"
    if k: "get_node r'' k = Some n''" for k n''
  proof -
    obtain n' where n': "get_node r' k = Some n'" "n_links n'' \<le> n_links n'" "core n'' = core n'"
      using shrinks_node [OF assms(2) k] .
    obtain n where "get_node r k = Some n" "n_links n' \<le> n_links n" "core n' = core n"
      using shrinks_node [OF assms(1) n'(1)] .
    then show ?thesis using n' by force
  qed
  then show ?thesis using assms by (simp add: shrinks_def)
qed

lemma core_dir:
  assumes "core n' = core n"
  shows "n_dir n' = n_dir n"
proof -
  have "n_dir (core n') = n_dir (core n)" using assms by simp
  then show ?thesis by (simp add: core_def)
qed

lemma shrinks_wf_room:
  assumes "shrinks r r'"
  shows "dirs_wf H slots r \<Longrightarrow> dirs_wf H slots r'" "roomy n r \<Longrightarrow> roomy n r'"
    "get_node r k = None \<Longrightarrow> get_node r' k = None" "replica_root r' = replica_root r"
    "get_dir r' k = Some d \<Longrightarrow> get_dir r k = Some d"
proof -
  have dir: "get_dir r k = Some d" if gd: "get_dir r' k = Some d" for k d
  proof -
    obtain n' where n': "get_node r' k = Some n'" "n_dir n' = Some d"
      using gd by (auto simp: get_dir_def bind_eq_Some_conv)
    obtain n where n: "get_node r k = Some n" "core n' = core n"
      using shrinks_node [OF assms n'(1)] .
    then show ?thesis using core_dir [OF n(2)] n'(2) by (simp add: get_dir_def)
  qed
  then show "get_dir r' k = Some d \<Longrightarrow> get_dir r k = Some d" .
  have links: "link_count r' k \<le> link_count r k" for k
  proof (cases "get_node r' k")
    case (Some n')
    obtain n where "get_node r k = Some n" "n_links n' \<le> n_links n"
      using shrinks_node [OF assms Some] .
    then show ?thesis using Some by (simp add: link_count_def)
  qed (simp add: link_count_def)
  show "dirs_wf H slots r \<Longrightarrow> dirs_wf H slots r'" using dir by (auto simp: dirs_wf_def)
  show "roomy n r'" if "roomy n r"
  proof -
    have "unat (link_count r' k) + n < 2 ^ 32" for k
    proof -
      have "unat (link_count r' k) \<le> unat (link_count r k)"
        using links [of k] by (simp add: word_le_nat_alt)
      moreover have "unat (link_count r k) + n < 2 ^ 32" using that by (simp add: roomy_def)
      ultimately show ?thesis by linarith
    qed
    then show ?thesis using that dir unfolding roomy_def by blast
  qed
  show "get_node r k = None \<Longrightarrow> get_node r' k = None"
    by (cases "get_node r' k") (auto elim: shrinks_node [OF assms])
  show "replica_root r' = replica_root r" using assms by (simp add: shrinks_def replica_root_def)
qed

text \<open>The three equations in the form the inductions use.\<close>

lemma link_dec_cases:
  assumes "get_node r key = Some n"
  defines "n' \<equiv> n\<lparr>n_links := sat_sub (n_links n) 1\<rparr>"
  shows "link_dec r key = (if n_links n' = 0 \<and> key \<noteq> replica_root r
      then remove_node (put_node r key n') key else put_node r key n')"
  using assms by (simp add: link_dec.simps Let_def)

definition unlinked :: "'t share_replica \<Rightarrow> node_key \<Rightarrow> 't node \<Rightarrow> 't share_replica" where
  "unlinked r key n =
     (let r = r\<lparr>rep_shards := fmdrop key (rep_shards r), rep_nodes := rep_nodes r - 1\<rparr>;
          r = (if n_has_side n then drop_side r key else r)
      in if n_dir n = None then r else r\<lparr>rep_dirs := rep_dirs r - 1\<rparr>)"

lemma remove_node_cases:
  assumes "get_node r key = Some n"
  shows "remove_node r key = drop_links (unlinked r key n) (node_targets n)"
  using assms
  by (subst remove_node.simps)
    (auto simp: unlinked_def node_targets_def Let_def split: option.splits)

lemma link_dec_None: "get_node r key = None \<Longrightarrow> link_dec r key = r"
  by (simp add: link_dec.simps)

lemma remove_node_None: "get_node r key = None \<Longrightarrow> remove_node r key = r"
  by (simp add: remove_node.simps)

text \<open>Simultaneous induction along the recursion, in terms of those equations.\<close>

lemma gc_induct [case_names dec_None dec remove_None remove Nil Cons]:
  assumes "\<And>r key. get_node r key = None \<Longrightarrow> P r key"
    and "\<And>r key n n'. get_node r key = Some n \<Longrightarrow> n' = n\<lparr>n_links := sat_sub (n_links n) 1\<rparr> \<Longrightarrow>
      (n_links n' = 0 \<and> key \<noteq> replica_root r \<Longrightarrow> Q (put_node r key n') key) \<Longrightarrow> P r key"
    and "\<And>r key. get_node r key = None \<Longrightarrow> Q r key"
    and "\<And>r key n. get_node r key = Some n \<Longrightarrow> S (unlinked r key n) (node_targets n) \<Longrightarrow> Q r key"
    and "\<And>r. S r []"
    and "\<And>r key keys. P (entries_add r (- 1)) key \<Longrightarrow>
      S (link_dec (entries_add r (- 1)) key) keys \<Longrightarrow> S r (key # keys)"
  shows "P r key" and "Q r key" and "S r keys"
proof (induction r key and r key and r keys rule: link_dec_remove_node_drop_links.induct)
  case (1 r key)
  then show ?case using assms(1,2) by (cases "get_node r key") auto
next
  case (2 r key)
  show ?case
  proof (cases "get_node r key")
    case None
    then show ?thesis by (rule assms(3))
  next
    case (Some n)
    have "S (unlinked r key n) (node_targets n)"
    proof (cases "n_dir n")
      case None
      then show ?thesis by (simp add: node_targets_def assms(5))
    next
      case (Some d)
      then show ?thesis
        using 2 [OF \<open>get_node r key = Some n\<close> refl refl Some]
        by (simp add: unlinked_def node_targets_def Let_def)
    qed
    then show ?thesis by (rule assms(4) [OF Some])
  qed
next
  case (3 r)
  then show ?case by (rule assms(5))
next
  case (4 r key keys)
  then show ?case by (intro assms(6))
qed

lemma shrinks_put:
  "get_node r key = Some n \<Longrightarrow> l \<le> n_links n \<Longrightarrow> shrinks r (put_node r key (n\<lparr>n_links := l\<rparr>))"
  by (auto simp: shrinks_def core_def)

lemma shrinks_unlinked: "get_node r key = Some n \<Longrightarrow> shrinks r (unlinked r key n)"
  by (auto simp: shrinks_def unlinked_def Let_def drop_side_def)

lemma shrinks_entries_add [simp]: "shrinks r (entries_add r i)"
  by (simp add: shrinks_def entries_add_def)

lemma sat_sub_le: "sat_sub (a :: u32) 1 \<le> a"
  by (simp add: word_le_nat_alt)

lemma gc_shrinks:
  shows "shrinks r (link_dec r key)" "shrinks r (remove_node r key)" "shrinks r (drop_links r keys)"
proof (induction r key and r key and r keys rule: gc_induct)
  case (dec_None r key)
  then show ?case by (simp add: link_dec_None)
next
  case (dec r key n n')
  then have "shrinks r (put_node r key n')" by (simp add: shrinks_put sat_sub_le)
  then show ?case using dec shrinks_trans by (auto simp: link_dec_cases)
next
  case (remove_None r key)
  then show ?case by (simp add: remove_node_None)
next
  case (remove r key n)
  then show ?case using shrinks_trans [OF shrinks_unlinked] by (simp add: remove_node_cases)
next
  case (Nil r)
  then show ?case by simp
next
  case (Cons r key keys)
  then show ?case using shrinks_trans [OF shrinks_trans [OF shrinks_entries_add]] by simp
qed

text \<open>The counters follow the table: only the dentries still to be dropped are counted too many.\<close>

lemma err_put_links:
  assumes "get_node r key = Some n"
  shows "nodes_err (put_node r key (n\<lparr>n_links := l\<rparr>)) = nodes_err r"
    "dirs_err (put_node r key (n\<lparr>n_links := l\<rparr>)) = dirs_err r"
    "entries_err (put_node r key (n\<lparr>n_links := l\<rparr>)) = entries_err r"
  using assms total_dentries_put_old [OF assms, of "n\<lparr>n_links := l\<rparr>"]
    total_dirs_put_same [OF assms, of "n\<lparr>n_links := l\<rparr>"]
  by (simp_all add: err_defs fmap_size_upd node_targets_def)

lemma err_unlinked:
  assumes "get_node r key = Some n"
  shows "nodes_err (unlinked r key n) = nodes_err r" "dirs_err (unlinked r key n) = dirs_err r"
    "entries_err (unlinked r key n) = entries_err r + of_nat (length (node_targets n))"
proof -
  have sh: "rep_shards (unlinked r key n) = fmdrop key (rep_shards r)"
    by (simp add: unlinked_def Let_def drop_side_def)
  have "fmap_size (rep_shards r) = Suc (fmap_size (fmdrop key (rep_shards r)))"
    using fmap_size_drop [OF assms] by simp
  then show "nodes_err (unlinked r key n) = nodes_err r"
    by (simp add: nodes_err_def sh) (simp add: unlinked_def Let_def drop_side_def)
  show "dirs_err (unlinked r key n) = dirs_err r"
    using fmap_sum_drop [OF assms, of "\<lambda>n. if n_dir n = None then 0 else 1 :: nat"]
    by (simp add: dirs_err_def total_dirs_def sh) (simp add: unlinked_def Let_def drop_side_def)
  show "entries_err (unlinked r key n) = entries_err r + of_nat (length (node_targets n))"
    using fmap_sum_drop [OF assms, of "\<lambda>n. length (node_targets n)"]
    by (simp add: entries_err_def total_dentries_def sh) (simp add: unlinked_def Let_def drop_side_def)
qed

lemma err_entries_add [simp]:
  "nodes_err (entries_add r i) = nodes_err r" "dirs_err (entries_add r i) = dirs_err r"
  "entries_err (entries_add r i) = entries_err r + of_int i"
  by (simp_all add: err_defs entries_add_def total_dirs_def total_dentries_def)

lemma gc_counters:
  shows "nodes_err (link_dec r key) = nodes_err r \<and> dirs_err (link_dec r key) = dirs_err r
      \<and> entries_err (link_dec r key) = entries_err r"
    and "nodes_err (remove_node r key) = nodes_err r \<and> dirs_err (remove_node r key) = dirs_err r
      \<and> entries_err (remove_node r key) = entries_err r"
    and "nodes_err (drop_links r keys) = nodes_err r \<and> dirs_err (drop_links r keys) = dirs_err r
      \<and> entries_err (drop_links r keys) = entries_err r - of_nat (length keys)"
proof (induction r key and r key and r keys rule: gc_induct)
  case (dec_None r key)
  then show ?case by (simp add: link_dec_None)
next
  case (dec r key n n')
  then show ?case by (auto simp: link_dec_cases err_put_links)
next
  case (remove_None r key)
  then show ?case by (simp add: remove_node_None)
next
  case (remove r key n)
  then show ?case by (simp add: remove_node_cases err_unlinked)
next
  case (Nil r)
  then show ?case by simp
next
  case (Cons r key keys)
  then show ?case by (simp add: algebra_simps)
qed

text \<open>Dropping a link that is owed keeps the relation between dentries and link counts.\<close>

lemma debt_entries_add [simp]: "debt R (entries_add r i) X = debt R r X"
  by (simp add: debt_def link_count_def refs_def)

lemma debt_put_dec:
  assumes R: "link_rel R" and n: "get_node r key = Some n" and d: "debt R r (add_mset key X)"
  shows "debt R (put_node r key (n\<lparr>n_links := sat_sub (n_links n) 1\<rparr>)) X"
  unfolding debt_def
proof
  fix k
  let ?r = "put_node r key (n\<lparr>n_links := sat_sub (n_links n) 1\<rparr>)"
  have refs: "refs ?r = refs r" using n by (intro refs_put_same) (simp_all add: node_targets_def)
  have *: "R (refs r k + count (add_mset key X) k) (unat (link_count r k))"
    using d by (simp add: debt_def)
  show "R (refs ?r k + count X k) (unat (link_count ?r k))"
  proof (cases "k = key")
    case True
    have 1: "R (Suc (refs r k + count X k)) (unat (n_links n))"
      using * True n by (simp add: link_count_def)
    then obtain l where "unat (n_links n) = Suc l"
      using link_relD(3) [OF R 1] gr0_implies_Suc by blast
    then show ?thesis
      using 1 True refs link_relD(2) [OF R] by (simp add: link_count_put)
  next
    case False
    then show ?thesis using * refs by (simp add: link_count_put)
  qed
qed

lemma debt_unlinked:
  assumes R: "link_rel R" and n: "get_node r key = Some n" and d: "debt R r X" and z: "n_links n = 0"
  shows "debt R (unlinked r key n) (mset (node_targets n) + X)"
  unfolding debt_def
proof
  fix k
  have sh: "rep_shards (unlinked r key n) = fmdrop key (rep_shards r)"
    by (simp add: unlinked_def Let_def drop_side_def)
  have refs: "refs r k = count_list (node_targets n) k + refs (unlinked r key n) k"
    using fmap_sum_drop [OF n, of "\<lambda>n. count_list (node_targets n) k"] by (simp add: refs_def sh)
  have *: "R (refs r k + count X k) (unat (link_count r k))"
    using d by (simp add: debt_def)
  have c: "count (mset (node_targets n)) k = count_list (node_targets n) k"
    by (simp add: count_mset count_list_eq_length_filter)
  show "R (refs (unlinked r key n) k + count (mset (node_targets n) + X) k)
      (unat (link_count (unlinked r key n) k))"
    using * refs n z c by (cases "k = key") (auto simp: link_count_def sh ac_simps)
qed

lemma gc_debt:
  assumes R: "link_rel R"
  shows "\<forall>X. debt R r (add_mset key X) \<longrightarrow> debt R (link_dec r key) X"
    and "\<forall>X. debt R r X \<longrightarrow> link_count r key = 0 \<longrightarrow> debt R (remove_node r key) X"
    and "\<forall>X. debt R r (mset keys + X) \<longrightarrow> debt R (drop_links r keys) X"
proof (induction r key and r key and r keys rule: gc_induct)
  case (dec_None r key)
  have "\<not> debt R r (add_mset key X)" for X
  proof
    assume "debt R r (add_mset key X)"
    then have "R (refs r key + count (add_mset key X) key) (unat (link_count r key))"
      unfolding debt_def by blast
    then show False using dec_None link_relD(1) [OF R] by (simp add: link_count_def)
  qed
  then show ?case by blast
next
  case (dec r key n n')
  then show ?case
    using debt_put_dec [OF R dec(1)] by (auto simp: link_dec_cases link_count_put)
next
  case (remove_None r key)
  then show ?case by (simp add: remove_node_None)
next
  case (remove r key n)
  then show ?case
    using debt_unlinked [OF R remove(1)] by (auto simp: remove_node_cases link_count_def)
next
  case (Nil r)
  then show ?case by simp
next
  case (Cons r key keys)
  then show ?case by simp
qed

section \<open>Dentries as multisets of targets\<close>

definition opt_mset :: "'a option \<Rightarrow> 'a multiset" where
  "opt_mset x = (case x of Some y \<Rightarrow> {#y#} | None \<Rightarrow> {#})"

definition gained_mset :: "upsert_result \<Rightarrow> node_key \<Rightarrow> node_key multiset" where
  "gained_mset u node = (if gained_link u then {#node#} else {#})"

text \<open>
  The destination of a rename is a known directory in which the name is not already one of
  the moved node.
\<close>

definition relink_gains :: "'t share_replica \<Rightarrow> node_key \<Rightarrow> name \<Rightarrow> node_key \<Rightarrow> bool" where
  "relink_gains r p nm node \<longleftrightarrow>
     (\<exists>dir. get_dir r p = Some dir
        \<and> map_option dt_node (ls_find (as_bytes nm) (dents dir)) \<noteq> Some node)"

text \<open>
  The number of dentries a record may add, and the records that keep the link relation:
  no forced removal, and, for exact counts, renames only to known destinations.
\<close>

fun rec_weight :: "rec \<Rightarrow> nat" where
  "rec_weight (Created _ _ _ _) = 1"
| "rec_weight (CreatedBatch _ es) = length es"
| "rec_weight (Renamed _ _ _ _) = 1"
| "rec_weight _ = 0"

fun rec_links_ok ::
    "'t name_index \<Rightarrow> (nat \<Rightarrow> nat \<Rightarrow> bool) \<Rightarrow> 't share_replica \<Rightarrow> rec \<Rightarrow> bool" where
  "rec_links_ok H R r (SelfRemoved node) \<longleftrightarrow> \<not> (rep_exists r node \<and> node \<noteq> replica_root r)"
| "rec_links_ok H R r (Renamed p nm p' nm') \<longleftrightarrow>
     R = (\<le>) \<or>
     (case dentry_take H r p (as_bytes nm) of
        (r1, Some (node, _)) \<Rightarrow> relink_gains r1 p' nm' node
      | (_, None) \<Rightarrow> True)"
| "rec_links_ok H R r _ \<longleftrightarrow> True"

lemma ls_remove_targets:
  assumes "distinct (map dt_name L)"
  shows "mset (map dt_node (ls_remove nm L)) + opt_mset (map_option dt_node (ls_find nm L)) =
    mset (map dt_node L)"
  using assms
proof (induction L)
  case Nil
  then show ?case by (simp add: ls_remove_def ls_find_def opt_mset_def)
next
  case (Cons x L)
  show ?case
  proof (cases "dt_name x = nm")
    case True
    then have "nm \<notin> dt_name ` set L" using Cons.prems by auto
    then have "ls_remove nm L = L" by (rule ls_remove_absent)
    then show ?thesis using True by (simp add: ls_remove_Cons ls_find_def opt_mset_def)
  next
    case False
    then show ?thesis using Cons by (simp add: ls_remove_Cons ls_find_def)
  qed
qed

lemma ls_upsert_targets:
  fixes node :: node_key and nm :: bytes
  assumes "distinct (map dt_name L)"
  defines "u \<equiv> ls_upsert_result nm node L"
  shows "mset (map dt_node (ls_upsert c nm node k L)) + opt_mset (displaced u) =
      mset (map dt_node L) + gained_mset u node" (is ?targets)
    and "int (length (ls_upsert c nm node k L)) = int (length L) + dentry_delta u" (is ?len)
proof -
  note rm = ls_remove_targets [OF assms(1), of nm]
  show ?targets
  proof (cases "ls_find nm L")
    case None
    then show ?thesis using rm
      by (simp add: u_def ls_upsert_def ls_upsert_result_def opt_mset_def gained_mset_def)
  next
    case (Some x)
    have "map dt_node (ls_set_kind nm k L) = map dt_node L"
      by (simp add: ls_set_kind_def)
    then show ?thesis
      using rm Some by (cases "dt_node x = node")
        (simp_all add: u_def ls_upsert_def ls_upsert_result_def opt_mset_def gained_mset_def)
  qed
  then have "size (mset (map dt_node (ls_upsert c nm node k L)) + opt_mset (displaced u)) =
      size (mset (map dt_node L) + gained_mset u node)" by (simp only:)
  then show ?len
    by (auto simp: u_def ls_upsert_result_def opt_mset_def gained_mset_def split: option.splits if_splits)
qed

lemma targets_dents: "map ce_node (live d) = map dt_node (dents d)"
  by (simp add: dents_def)

text \<open>Replacing the table of one directory.\<close>

lemma put_dir_eq:
  assumes "get_dir r p = Some d"
  obtains n where "get_node r p = Some n" "n_dir n = Some d"
    "put_dir r p d' = put_node r p (n\<lparr>n_dir := Some d'\<rparr>)"
  using assms by (auto simp: get_dir_def put_dir_def bind_eq_Some_conv)

lemma put_dir_keeps:
  assumes "get_dir r p = Some d"
  shows "link_count (put_dir r p d') = link_count r" "nodes_err (put_dir r p d') = nodes_err r"
    "dirs_err (put_dir r p d') = dirs_err r"
    "entries_err (put_dir r p d') = entries_err r + of_nat (length (dents d)) - of_nat (length (dents d'))"
    "refs (put_dir r p d') k + count_list (map dt_node (dents d)) k =
       refs r k + count_list (map dt_node (dents d')) k"
    "get_dir (put_dir r p d') j = (if j = p then Some d' else get_dir r j)"
    "get_node (put_dir r p d') j = None \<longleftrightarrow> get_node r j = None"
    "rep_pending (put_dir r p d') = rep_pending r" "rep_info (put_dir r p d') = rep_info r"
proof -
  obtain n where n: "get_node r p = Some n" "n_dir n = Some d"
      and pd: "put_dir r p d' = put_node r p (n\<lparr>n_dir := Some d'\<rparr>)"
    using put_dir_eq [OF assms] .
  have t: "node_targets n = map dt_node (dents d)"
      "node_targets (n\<lparr>n_dir := Some d'\<rparr>) = map dt_node (dents d')"
    using n by (simp_all add: node_targets_def targets_dents)
  show "link_count (put_dir r p d') = link_count r"
    using n by (auto simp: pd link_count_def fun_eq_iff)
  show "nodes_err (put_dir r p d') = nodes_err r"
    using n by (simp add: pd nodes_err_def fmap_size_upd)
  show "dirs_err (put_dir r p d') = dirs_err r"
    using total_dirs_put_same [OF n(1), of "n\<lparr>n_dir := Some d'\<rparr>"] n by (simp add: pd dirs_err_def)
  have "total_dentries (put_dir r p d') + length (dents d) = total_dentries r + length (dents d')"
    using total_dentries_put_old [OF n(1), of "n\<lparr>n_dir := Some d'\<rparr>"] t by (simp add: pd)
  then have "(of_nat (total_dentries (put_dir r p d')) :: u64) + of_nat (length (dents d)) =
      of_nat (total_dentries r) + of_nat (length (dents d'))"
    by (metis of_nat_add)
  then show "entries_err (put_dir r p d') =
      entries_err r + of_nat (length (dents d)) - of_nat (length (dents d'))"
    by (simp add: entries_err_def pd algebra_simps)
  show "refs (put_dir r p d') k + count_list (map dt_node (dents d)) k =
      refs r k + count_list (map dt_node (dents d')) k"
    using refs_put_old [OF n(1), of "n\<lparr>n_dir := Some d'\<rparr>" k] t by (simp add: pd)
  show "get_dir (put_dir r p d') j = (if j = p then Some d' else get_dir r j)"
    by (simp add: pd get_dir_put)
  show "get_node (put_dir r p d') j = None \<longleftrightarrow> get_node r j = None"
    using n by (auto simp: pd)
  show "rep_pending (put_dir r p d') = rep_pending r" "rep_info (put_dir r p d') = rep_info r"
    by (simp_all add: pd)
qed

lemma count_mset_list: "count (mset xs) k = count_list xs k"
  by (simp add: count_mset count_list_eq_length_filter)

lemma refs_put_dir_mset:
  assumes "get_dir r p = Some d" "mset (map dt_node (dents d')) + A = mset (map dt_node (dents d)) + B"
  shows "refs (put_dir r p d') k + count A k = refs r k + count B k"
proof -
  have "count (mset (map dt_node (dents d')) + A) k = count (mset (map dt_node (dents d)) + B) k"
    using assms(2) by simp
  then show ?thesis
    using put_dir_keeps(5) [OF assms(1), of d' k] by (simp add: count_mset_list del: mset_map)
qed

section \<open>Operations keep the base invariant\<close>

definition base_ok ::
    "'t name_index \<Rightarrow> ('t \<Rightarrow> (u64 \<times> u32) multiset) \<Rightarrow> nat \<Rightarrow> 't share_replica \<Rightarrow> bool" where
  "base_ok H slots n r \<longleftrightarrow> dirs_wf H slots r \<and> counters_ok r \<and> roomy n r
     \<and> fmap_size (rep_pending r) \<le> MAX_PENDING"

lemma base_ok_same_shape:
  assumes "base_ok H slots n r" "same_shape r r'" "fmap_size (rep_pending r') \<le> MAX_PENDING"
  shows "base_ok H slots n r'"
  using assms same_shape_wf_room [OF assms(2)] by (simp add: base_ok_def)

lemma pending_update:
  "rep_pending (fst (update_attr r key a)) = rep_pending r"
  "rep_pending (fst (update_content r key v sz t)) = rep_pending r"
  "rep_pending (apply_pending key p r) = rep_pending r"
proof -
  show u: "rep_pending (fst (update_attr r key a)) = rep_pending r" for a
    using note_side_shards(3) [of r key a]
    by (auto simp: update_attr_def Let_def split: prod.splits option.splits)
  show c: "rep_pending (fst (update_content r key v sz t)) = rep_pending r" for v sz t
    by (simp add: update_content_def split: option.splits)
  show "rep_pending (apply_pending key p r) = rep_pending r" by (cases p) (simp_all add: u c)
qed

lemma pending_drain: "fmap_size (rep_pending (drain_pending r key)) \<le> fmap_size (rep_pending r)"
proof -
  have f: "rep_pending (fold (apply_pending key) items r) = rep_pending r" for items and r :: "'a share_replica"
    by (induction items arbitrary: r) (simp_all add: pending_update)
  show ?thesis
    by (cases "fmlookup (rep_pending r) key")
      (auto simp: drain_pending_def f intro: less_imp_le [OF fmap_size_drop_less])
qed

lemma pending_stash: "fmap_size (rep_pending r) \<le> MAX_PENDING \<Longrightarrow>
    fmap_size (rep_pending (stash_pending r key p)) \<le> MAX_PENDING"
  by (auto simp: stash_pending_def Let_def fmap_size_upd MAX_PENDING_def split: if_splits)

lemma base_ok_gc:
  assumes "base_ok H slots n r"
  shows "base_ok H slots n (link_dec r k)" "base_ok H slots n (remove_node r k)"
  using assms gc_counters(1,2) [of r k] shrinks_wf_room [OF gc_shrinks(1) [of r k]]
    shrinks_wf_room [OF gc_shrinks(2) [of r k]] gc_shrinks(1,2) [of r k]
  by (simp_all add: base_ok_def counters_ok_def shrinks_def)

lemma dir_room_mono: "dir_room (Suc n) d \<Longrightarrow> dir_room n d"
  by (simp add: dir_room_def)

lemma dir_room_less: "dir_room (m + n) d \<Longrightarrow> dir_room n d"
  by (simp add: dir_room_def)

lemma roomy_mono:
  assumes "roomy (Suc n) r"
  shows "roomy n r"
proof -
  have "unat (link_count r k) + n < 2 ^ 32" for k
    using assms by (auto simp: roomy_def intro: Suc_lessD)
  then show ?thesis using assms by (auto simp: roomy_def intro: dir_room_mono)
qed

lemma base_ok_mono: "base_ok H slots (Suc n) r \<Longrightarrow> base_ok H slots n r"
  by (simp add: base_ok_def roomy_mono)

lemma link_inc_keeps:
  assumes "get_node r key \<noteq> None"
  shows "refs (link_inc r key) = refs r"
    "link_count (link_inc r key) k = (if k = key then link_count r k + 1 else link_count r k)"
    "nodes_err (link_inc r key) = nodes_err r" "dirs_err (link_inc r key) = dirs_err r"
    "entries_err (link_inc r key) = entries_err r" "get_dir (link_inc r key) = get_dir r"
    "get_node (link_inc r key) k = None \<longleftrightarrow> get_node r k = None"
    "rep_pending (link_inc r key) = rep_pending r" "rep_info (link_inc r key) = rep_info r"
proof -
  obtain n where n: "get_node r key = Some n" using assms by auto
  have li: "link_inc r key = put_node r key (n\<lparr>n_links := n_links n + 1\<rparr>)"
    by (simp add: link_inc_def n)
  show "refs (link_inc r key) = refs r"
    unfolding li by (rule refs_put_same [OF n]) (simp add: node_targets_def)
  show "nodes_err (link_inc r key) = nodes_err r" "dirs_err (link_inc r key) = dirs_err r"
    "entries_err (link_inc r key) = entries_err r"
    unfolding li by (rule err_put_links [OF n])+
  show "get_dir (link_inc r key) = get_dir r"
    using n by (auto simp: li get_dir_def fun_eq_iff)
qed (use assms in \<open>auto simp: link_inc_def link_count_def split: option.splits\<close>)

lemma roomy_link_inc: "roomy (Suc n) r \<Longrightarrow> get_node r key \<noteq> None \<Longrightarrow> roomy n (link_inc r key)"
proof -
  assume r: "roomy (Suc n) r" and k: "get_node r key \<noteq> None"
  have "unat (link_count r key + 1) = unat (link_count r key) + 1"
    using r by (intro unat_Suc_word) (auto simp: roomy_def dest: spec [of _ key])
  then show "roomy n (link_inc r key)"
    using roomy_mono [OF r] r by (auto simp: roomy_def link_inc_keeps [OF k])
qed

lemma debt_mono: "debt (\<le>) r (X + Y) \<Longrightarrow> debt (\<le>) r X"
  unfolding debt_def by (metis add_leE count_union add.assoc)

lemma debt_link_inc:
  assumes "link_rel R" "debt R r X" "roomy (Suc n) r" "get_node r key \<noteq> None"
    and "\<forall>k. refs r' k + count Y k = refs r k + count {#key#} k" "link_count r' = link_count r"
    "get_node r' key \<noteq> None"
  shows "debt R (link_inc r' key) (Y + X)"
  unfolding debt_def
proof
  fix k
  note li = link_inc_keeps [OF assms(7)]
  have "unat (link_count r key + 1) = unat (link_count r key) + 1"
    using assms(3) by (intro unat_Suc_word) (auto simp: roomy_def dest: spec [of _ key])
  moreover have "R (refs r k + count X k) (unat (link_count r k))"
    using assms(2) by (simp add: debt_def)
  moreover have e: "refs r' k + count (Y + X) k = refs r k + count X k + count {#key#} k"
    using spec [OF assms(5), of k] by simp
  ultimately show "R (refs (link_inc r' key) k + count (Y + X) k) (unat (link_count (link_inc r' key) k))"
    unfolding li(1,2) e assms(6) using link_relD(2) [OF assms(1)] by auto
qed

context hash_index
begin

lemma dir_room_new: "n < 2 ^ 23 \<Longrightarrow> dir_room n (dir_new H)"
  by (simp add: dir_room_def dir_new_def FIRST_COOKIE_def)

text \<open>A node may be added, or a directory table attached to one that has none.\<close>

lemma base_ok_put_new_dir:
  assumes b: "base_ok H slots n r" and old: "get_node r key = Some m" "n_dir m = None"
    and new: "n_dir m' = Some (dir_new H)" "n_links m' = n_links m"
  defines "r' \<equiv> (put_node r key m')\<lparr>rep_dirs := rep_dirs r + 1\<rparr>"
  shows "base_ok H slots n r'" "debt R r' X = debt R r X"
proof -
  have t: "node_targets m = []" "node_targets m' = []"
    using old new dir_new_wf(2) by (simp_all add: node_targets_def targets_dents)
  have refs: "refs r' = refs r"
    using refs_put_same [OF old(1), of m'] t by (simp add: r'_def refs_def fun_eq_iff)
  have lc: "link_count r' = link_count r"
    using old new by (auto simp: r'_def link_count_def fun_eq_iff)
  show "debt R r' X = debt R r X" by (simp add: debt_def refs lc)
  have "total_dirs r' = Suc (total_dirs r)"
    using fmap_sum_upd_old [OF old(1), of "\<lambda>n. if n_dir n = None then 0 else 1 :: nat" m'] old new
    by (simp add: r'_def total_dirs_def)
  moreover have "total_dentries r' = total_dentries r"
    using total_dentries_put_old [OF old(1), of m'] t by (simp add: r'_def total_dentries_def)
  ultimately have c: "counters_ok r'"
    using b old by (simp add: base_ok_def counters_ok_def err_defs) (simp add: r'_def fmap_size_upd)
  have gd: "get_dir r' k = (if k = key then Some (dir_new H) else get_dir r k)" for k
    using new by (simp add: r'_def get_dir_def)
  show "base_ok H slots n r'"
    using b c unfolding base_ok_def dirs_wf_def roomy_def gd lc
    by (auto simp: dir_new_wf dir_room_new) (auto simp: r'_def)
qed

lemma base_ok_put_new_node:
  assumes b: "base_ok H slots n r" and new: "get_node r key = None" "n_links m = 0"
    and dir: "n_dir m = (if isd then Some (dir_new H) else None)"
  defines "r' \<equiv> (put_node r key m)\<lparr>rep_dirs := (if isd then rep_dirs r + 1 else rep_dirs r),
    rep_nodes := rep_nodes r + 1\<rparr>"
  shows "base_ok H slots n r'" "debt R r' X = debt R r X"
proof -
  have t: "node_targets m = []"
    using dir dir_new_wf(2) by (simp add: node_targets_def targets_dents)
  have refs: "refs r' = refs r"
    using refs_put_new [OF new(1), of m] t by (simp add: r'_def refs_def fun_eq_iff)
  have lc: "link_count r' = link_count r"
    using new by (auto simp: r'_def link_count_def fun_eq_iff)
  show "debt R r' X = debt R r X" by (simp add: debt_def refs lc)
  have "total_dirs r' = (if isd then 1 else 0) + total_dirs r"
    using fmap_sum_upd_new [OF new(1), of "\<lambda>n. if n_dir n = None then 0 else 1 :: nat" m] dir
    by (simp add: r'_def total_dirs_def)
  moreover have "total_dentries r' = total_dentries r"
    using fmap_sum_upd_new [OF new(1), of "\<lambda>n. length (node_targets n)" m] t
    by (simp add: r'_def total_dentries_def)
  ultimately have c: "counters_ok r'"
    using b new by (simp add: base_ok_def counters_ok_def err_defs) (simp add: r'_def fmap_size_upd)
  have gd: "get_dir r' k = (if k = key then if isd then Some (dir_new H) else None else get_dir r k)" for k
    using dir by (simp add: r'_def get_dir_def)
  show "base_ok H slots n r'"
    using b c unfolding base_ok_def dirs_wf_def roomy_def gd lc
    by (auto simp: dir_new_wf dir_room_new split: if_splits) (auto simp: r'_def)
qed

lemma upsert_node_ok:
  assumes b: "base_ok H slots n r"
  shows "base_ok H slots n (upsert_node H r key a parent)"
    and "debt R (upsert_node H r key a parent) X = debt R r X"
    and "get_node (upsert_node H r key a parent) k = None \<longleftrightarrow> k \<noteq> key \<and> get_node r k = None"
    and "rep_info (upsert_node H r key a parent) = rep_info r"
    and "get_dir (upsert_node H r key a parent) k =
      (if k = key \<and> attr_kind a = Dir \<and> get_dir r k = None then Some (dir_new H) else get_dir r k)"
    and "link_count (upsert_node H r key a parent) = link_count r"
proof -
  obtain r1 side where ns: "note_side r key a = (r1, side)" by fastforce
  have sh: "rep_shards r1 = rep_shards r" "same_shape r r1" "rep_pending r1 = rep_pending r"
    using note_side_shards [of r key a] by (simp_all add: ns)
  have b1: "base_ok H slots n r1"
    by (rule base_ok_same_shape [OF b sh(2)]) (use b sh(3) in \<open>simp add: base_ok_def\<close>)
  have d1: "debt R r1 X = debt R r X" and i1: "rep_info r1 = rep_info r"
    using same_shape_keeps(7) [OF sh(2)] sh(2) by (simp_all add: same_shape_def)
  have "base_ok H slots n (upsert_node H r key a parent)
    \<and> debt R (upsert_node H r key a parent) X = debt R r X"
  proof (cases "get_node r1 key")
    case None
    let ?m = "set_attr \<lparr>n_size = 0, n_blocks = 0, n_content_version = attr_content_version a,
                   n_mtime_sec = 0, n_ctime_sec = 0, n_parent_ino = ino parent,
                   n_parent_gen = generation parent, n_mtime_nsec = 0, n_ctime_nsec = 0,
                   n_nlink = 0, n_uid = 0, n_gid = 0, n_links = 0, n_mode = 0,
                   n_kind = attr_kind a, n_has_side = side,
                   n_dir = (if attr_kind a = Dir then Some (dir_new H) else None)\<rparr> a"
    have u: "upsert_node H r key a parent = (put_node r1 key ?m)
        \<lparr>rep_dirs := (if attr_kind a = Dir then rep_dirs r1 + 1 else rep_dirs r1),
         rep_nodes := rep_nodes r1 + 1\<rparr>"
      using None by (simp add: upsert_node_def ns Let_def)
    show ?thesis
      unfolding u using base_ok_put_new_node [OF b1 None, of ?m "attr_kind a = Dir"] d1
      by (simp add: set_attr_def)
  next
    case (Some m)
    let ?m = "set_parent ((set_attr m a)\<lparr>n_content_version := n_content_version m\<rparr>) parent"
    let ?m = "?m\<lparr>n_has_side := n_has_side ?m \<or> side\<rparr>"
    have mm: "n_links ?m = n_links m" "n_dir ?m = n_dir m"
      by (simp_all add: set_parent_def set_attr_def)
    show ?thesis
    proof (cases "attr_kind a = Dir \<and> n_dir m = None")
      case True
      then have u: "upsert_node H r key a parent =
          (put_node r1 key (?m\<lparr>n_dir := Some (dir_new H)\<rparr>))\<lparr>rep_dirs := rep_dirs r1 + 1\<rparr>"
        using Some by (auto simp: upsert_node_def ns Let_def set_parent_def set_attr_def)
      show ?thesis
        unfolding u using base_ok_put_new_dir [OF b1 Some, of "?m\<lparr>n_dir := Some (dir_new H)\<rparr>"] True d1 mm
        by simp
    next
      case False
      then have u: "upsert_node H r key a parent = put_node r1 key ?m"
        using Some by (auto simp: upsert_node_def ns Let_def set_parent_def set_attr_def)
      have s: "same_shape r1 (put_node r1 key ?m)"
        using mm by (intro same_shape_put [OF Some]) (simp add: shape_def)
      show ?thesis
        unfolding u using base_ok_same_shape [OF b1 s] same_shape_keeps(7) [OF s] b1 d1
        by (simp add: base_ok_def)
    qed
  qed
  then show "base_ok H slots n (upsert_node H r key a parent)"
    "debt R (upsert_node H r key a parent) X = debt R r X" by auto
  show "get_node (upsert_node H r key a parent) k = None \<longleftrightarrow> k \<noteq> key \<and> get_node r k = None"
    using sh(1) by (auto simp: upsert_node_def ns Let_def split: option.splits)
  show "rep_info (upsert_node H r key a parent) = rep_info r"
    using i1 by (auto simp: upsert_node_def ns Let_def split: option.splits)
  show "get_dir (upsert_node H r key a parent) k =
      (if k = key \<and> attr_kind a = Dir \<and> get_dir r k = None then Some (dir_new H) else get_dir r k)"
    using sh(1) by (auto simp: upsert_node_def ns Let_def get_dir_def set_attr_def set_parent_def
        split: option.splits)
  show "link_count (upsert_node H r key a parent) = link_count r"
    using sh(1) by (auto simp: upsert_node_def ns Let_def link_count_def set_attr_def set_parent_def
        fun_eq_iff split: option.splits)
qed

text \<open>The table of one directory after an upsert, with the dentry counter adjusted.\<close>

lemma upsert_dir_ok:
  assumes b: "base_ok H slots (Suc n) r" and d: "get_dir r p = Some dir"
    and u: "upsert H dir nm node k = (dir', u)"
  defines "r1 \<equiv> entries_add (put_dir r p dir') (dentry_delta u)"
  shows "base_ok H slots n r1" "link_count r1 = link_count r"
    "refs r1 j + count (opt_mset (displaced u)) j = refs r j + count (gained_mset u node) j"
    "get_node r1 j = None \<longleftrightarrow> get_node r j = None" "rep_info r1 = rep_info r"
    "get_dir r1 j = (if j = p then Some dir' else get_dir r j)"
proof -
  have wf: "dir_wf H slots dir" and room: "dir_room (Suc n) dir"
    using b d by (auto simp: base_ok_def dirs_wf_def roomy_def)
  note uw = upsert_wf [OF wf room u]
  note lt = ls_upsert_targets [OF dir_wfD(4) [OF wf], of "ds_next_cookie dir" "as_bytes nm" node k,
      folded uw(2,3)]
  note pk = put_dir_keeps [OF d]
  show lc: "link_count r1 = link_count r"
    using pk(1) by (simp add: r1_def link_count_def fun_eq_iff)
  show "refs r1 j + count (opt_mset (displaced u)) j = refs r j + count (gained_mset u node) j"
    using refs_put_dir_mset [OF d lt(1)] by (simp add: r1_def refs_def)
  show "get_node r1 j = None \<longleftrightarrow> get_node r j = None" "rep_info r1 = rep_info r"
    by (simp_all add: r1_def pk(7,9)) (simp add: entries_add_def pk(9))
  show gd: "get_dir r1 j = (if j = p then Some dir' else get_dir r j)" for j
    using pk(6) by (simp add: r1_def get_dir_def)
  have "of_int (int (length (dents dir'))) = (of_int (int (length (dents dir)) + dentry_delta u) :: u64)"
    using lt(2) by simp
  then have "entries_err r1 = entries_err r"
    by (simp add: r1_def pk(4))
  then have "counters_ok r1"
    using b pk(2,3) by (simp add: base_ok_def counters_ok_def r1_def)
  moreover have "dirs_wf H slots r1"
    using b uw(1) by (auto simp: base_ok_def dirs_wf_def gd)
  moreover have "roomy n r1"
    using b uw(4) roomy_mono [of n r] by (auto simp: base_ok_def roomy_def gd lc)
  ultimately show "base_ok H slots n r1"
    using b pk(8) by (simp add: base_ok_def r1_def entries_add_def)
qed

lemma dentry_set_ok:
  assumes b: "base_ok H slots (Suc n) r" and node: "get_node r node \<noteq> None"
  shows "base_ok H slots n (dentry_set H r p nm node k)"
    and "link_rel R \<Longrightarrow> debt R r X \<Longrightarrow> debt R (dentry_set H r p nm node k) X"
    and "rep_info (dentry_set H r p nm node k) = rep_info r"
proof -
  have "base_ok H slots n (dentry_set H r p nm node k)
    \<and> (link_rel R \<longrightarrow> debt R r X \<longrightarrow> debt R (dentry_set H r p nm node k) X)
    \<and> rep_info (dentry_set H r p nm node k) = rep_info r"
  proof (cases "get_dir r p")
    case None
    then show ?thesis using base_ok_mono [OF b] by (simp add: dentry_set_def)
  next
    case (Some dir)
    obtain dir' u where u: "upsert H dir nm node k = (dir', u)" by fastforce
    define r1 where "r1 = entries_add (put_dir r p dir') (dentry_delta u)"
    define r2 where "r2 = (if gained_link u then link_inc r1 node else r1)"
    note o = upsert_dir_ok [OF b Some u, folded r1_def]
    have e: "dentry_set H r p nm node k = (case displaced u of Some old \<Rightarrow> link_dec r2 old | None \<Rightarrow> r2)"
      unfolding r1_def r2_def by (simp add: dentry_set_def Some u Let_def)
    have node1: "get_node r1 node \<noteq> None" using node o(4) by simp
    note li = link_inc_keeps [OF node1]
    have room: "roomy (Suc n) r" using b by (simp add: base_ok_def)
    have "roomy n r2"
    proof (cases "gained_link u")
      case True
      have "roomy n (link_inc r node)" by (rule roomy_link_inc [OF room node])
      moreover have "link_count (link_inc r1 node) = link_count (link_inc r node)"
        using o(2) link_inc_keeps(2) [OF node] li(2) by (simp add: fun_eq_iff)
      ultimately show ?thesis using True o(1) li(6) by (simp add: r2_def base_ok_def roomy_def)
    next
      case False
      then show ?thesis using o(1) by (simp add: r2_def base_ok_def)
    qed
    then have b2: "base_ok H slots n r2"
      using o(1) by (simp add: r2_def base_ok_def counters_ok_def dirs_wf_def li)
    have i2: "rep_info r2 = rep_info r" using o(5) li(9) by (simp add: r2_def)
    have d2: "debt R r2 (opt_mset (displaced u) + X)" if R: "link_rel R" and d: "debt R r X"
    proof (cases "gained_link u")
      case True
      then show ?thesis
        using debt_link_inc [OF R d room node, of r1 "opt_mset (displaced u)"] o(2,3) node1
        by (simp add: r2_def gained_mset_def)
    next
      case False
      then have "refs r1 j + count (opt_mset (displaced u) + X) j = refs r j + count X j" for j
        using o(3) [of j] by (simp add: gained_mset_def)
      then show ?thesis
        using d unfolding debt_def by (simp add: r2_def False o(2) del: count_union)
    qed
    show ?thesis
    proof (cases "displaced u")
      case None
      then show ?thesis using b2 d2 i2 by (simp add: e opt_mset_def)
    next
      case (Some old)
      then show ?thesis
        using base_ok_gc(1) [OF b2] d2 gc_debt(1) [of R r2 old] gc_shrinks(1) [of r2 old] i2
        by (simp add: e opt_mset_def shrinks_def)
    qed
  qed
  then show "base_ok H slots n (dentry_set H r p nm node k)"
    and "link_rel R \<Longrightarrow> debt R r X \<Longrightarrow> debt R (dentry_set H r p nm node k) X"
    and "rep_info (dentry_set H r p nm node k) = rep_info r" by auto
qed

text \<open>The table of one directory after a removal.\<close>

lemma remove_dir_ok:
  assumes b: "base_ok H slots n r" and d: "get_dir r p = Some dir"
    and u: "dir_remove H dir nm = (dir', Some node)"
  defines "r1 \<equiv> entries_add (put_dir r p dir') (- 1)"
  shows "base_ok H slots n r1" "link_count r1 = link_count r"
    "refs r1 j + count {#node#} j = refs r j"
    "get_node r1 j = None \<longleftrightarrow> get_node r j = None" "rep_info r1 = rep_info r"
    "get_dir r1 j = (if j = p then Some dir' else get_dir r j)"
proof -
  have wf: "dir_wf H slots dir" and room: "dir_room n dir"
    using b d by (auto simp: base_ok_def dirs_wf_def roomy_def)
  note uw = dir_remove_wf [OF wf u]
  have lt: "mset (map dt_node (dents dir')) + {#node#} = mset (map dt_node (dents dir)) + {#}"
    using ls_remove_targets [OF dir_wfD(4) [OF wf], of nm, folded uw(2,3)] by (simp add: opt_mset_def)
  note pk = put_dir_keeps [OF d]
  show lc: "link_count r1 = link_count r"
    using pk(1) by (simp add: r1_def link_count_def fun_eq_iff)
  show "refs r1 j + count {#node#} j = refs r j"
    using refs_put_dir_mset [OF d lt] by (simp add: r1_def refs_def)
  show "get_node r1 j = None \<longleftrightarrow> get_node r j = None" "rep_info r1 = rep_info r"
    by (simp_all add: r1_def pk(7,9)) (simp add: entries_add_def pk(9))
  show gd: "get_dir r1 j = (if j = p then Some dir' else get_dir r j)" for j
    using pk(6) by (simp add: r1_def get_dir_def)
  have "size (mset (map dt_node (dents dir')) + {#node#}) = size (mset (map dt_node (dents dir)))"
    using lt by simp
  then have "length (dents dir) = Suc (length (dents dir'))" by simp
  then have "entries_err r1 = entries_err r" by (simp add: r1_def pk(4))
  then have "counters_ok r1"
    using b pk(2,3) by (simp add: base_ok_def counters_ok_def r1_def)
  moreover have "dirs_wf H slots r1"
    using b uw(1) by (auto simp: base_ok_def dirs_wf_def gd)
  moreover have "roomy n r1"
    using b uw(4) [OF room] by (auto simp: base_ok_def roomy_def gd lc)
  ultimately show "base_ok H slots n r1"
    using b pk(8) by (simp add: base_ok_def r1_def entries_add_def)
qed

lemma remove_dir_absent:
  assumes b: "base_ok H slots n r" and d: "get_dir r p = Some dir"
    and u: "dir_remove H dir nm = (dir', None)"
  shows "dir' = dir" "put_dir r p dir' = r"
proof -
  show "dir' = dir" using u by (auto simp: dir_remove_def Let_def split: option.splits)
  then show "put_dir r p dir' = r"
    using d by (auto simp: put_dir_def get_dir_def bind_eq_Some_conv intro!: share_replica.equality fmap_ext)
qed

lemma dentry_remove_ok:
  assumes b: "base_ok H slots n r"
  shows "base_ok H slots n (dentry_remove H r p nm)"
    and "link_rel R \<Longrightarrow> debt R r X \<Longrightarrow> debt R (dentry_remove H r p nm) X"
    and "rep_info (dentry_remove H r p nm) = rep_info r"
proof -
  have "base_ok H slots n (dentry_remove H r p nm)
    \<and> (link_rel R \<longrightarrow> debt R r X \<longrightarrow> debt R (dentry_remove H r p nm) X)
    \<and> rep_info (dentry_remove H r p nm) = rep_info r"
  proof (cases "get_dir r p")
    case None
    then show ?thesis using b by (simp add: dentry_remove_def)
  next
    case (Some dir)
    obtain dir' rm where u: "dir_remove H dir nm = (dir', rm)" by fastforce
    show ?thesis
    proof (cases rm)
      case None
      then show ?thesis
        using b u remove_dir_absent [OF b Some] by (simp add: dentry_remove_def Some)
    next
      case (Some node)
      define r1 where "r1 = entries_add (put_dir r p dir') (- 1)"
      note o = remove_dir_ok [OF b \<open>get_dir r p = Some dir\<close> u [unfolded Some], folded r1_def]
      have e: "dentry_remove H r p nm = link_dec r1 node"
        by (simp add: dentry_remove_def \<open>get_dir r p = Some dir\<close> u Some r1_def)
      have "refs r1 j + count (add_mset node X) j = refs r j + count X j" for j
        using o(3) [of j] by (cases "node = j") simp_all
      then have "debt R r X \<longrightarrow> debt R r1 (add_mset node X)"
        unfolding debt_def o(2) by metis
      then show ?thesis
        using base_ok_gc(1) [OF o(1)] gc_debt(1) [of R r1 node] gc_shrinks(1) [of r1 node] o(5)
        by (auto simp: e shrinks_def)
    qed
  qed
  then show "base_ok H slots n (dentry_remove H r p nm)"
    and "link_rel R \<Longrightarrow> debt R r X \<Longrightarrow> debt R (dentry_remove H r p nm) X"
    and "rep_info (dentry_remove H r p nm) = rep_info r" by auto
qed

text \<open>
  A rename takes the source dentry without dropping its link, so that the link is owed
  until the destination dentry is in place.
\<close>

lemma dentry_take_ok:
  assumes b: "base_ok H slots n r" and t: "dentry_take H r p nm = (r1, Some (node, k))"
  shows "base_ok H slots n r1" "debt R r X \<Longrightarrow> debt R r1 (add_mset node X)"
    "get_node r1 j = None \<longleftrightarrow> get_node r j = None" "rep_info r1 = rep_info r"
    "get_dir r1 j = None \<longleftrightarrow> get_dir r j = None"
proof -
  obtain dir dir' where d: "get_dir r p = Some dir" and u: "dir_remove H dir nm = (dir', Some node)"
      and r1: "r1 = entries_add (put_dir r p dir') (- 1)"
    using t by (auto simp: dentry_take_def Let_def split: option.splits prod.splits)
  note o = remove_dir_ok [OF b d u, folded r1]
  show "base_ok H slots n r1" "get_node r1 j = None \<longleftrightarrow> get_node r j = None" "rep_info r1 = rep_info r"
    by (rule o)+
  show "get_dir r1 j = None \<longleftrightarrow> get_dir r j = None" using d by (simp add: o(6))
  have "refs r1 j + count (add_mset node X) j = refs r j + count X j" for j
    using o(3) [of j] by (cases "node = j") simp_all
  then show "debt R r X \<Longrightarrow> debt R r1 (add_mset node X)" unfolding debt_def o(2) by metis
qed

lemma dentry_take_None:
  assumes b: "base_ok H slots n r" and t: "dentry_take H r p nm = (r1, None)"
  shows "r1 = r"
  using t remove_dir_absent(2) [OF b]
  by (auto simp: dentry_take_def Let_def split: option.splits prod.splits)

lemma dentry_relink_ok:
  assumes b: "base_ok H slots (Suc n) r"
  shows "base_ok H slots n (dentry_relink H r p nm node k)"
    and "link_rel R \<Longrightarrow> debt R r (add_mset node X) \<Longrightarrow> R = (\<le>) \<or> relink_gains r p nm node \<Longrightarrow>
      debt R (dentry_relink H r p nm node k) X"
    and "rep_info (dentry_relink H r p nm node k) = rep_info r"
proof -
  have "base_ok H slots n (dentry_relink H r p nm node k)
    \<and> (link_rel R \<longrightarrow> debt R r (add_mset node X) \<longrightarrow> R = (\<le>) \<or> relink_gains r p nm node \<longrightarrow>
        debt R (dentry_relink H r p nm node k) X)
    \<and> rep_info (dentry_relink H r p nm node k) = rep_info r"
  proof (cases "get_dir r p")
    case None
    then show ?thesis
      using base_ok_mono [OF b] debt_mono [of r X "{#node#}"]
      by (auto simp: dentry_relink_def relink_gains_def)
  next
    case (Some dir)
    obtain dir' u where u: "upsert H dir nm node k = (dir', u)" by fastforce
    define r1 where "r1 = entries_add (put_dir r p dir') (dentry_delta u)"
    define r2 where "r2 = (case displaced u of Some old \<Rightarrow> link_dec r1 old | None \<Rightarrow> r1)"
    note o = upsert_dir_ok [OF b Some u, folded r1_def]
    have e: "dentry_relink H r p nm node k =
        (case get_node r2 node of Some n \<Rightarrow> put_node r2 node (set_parent n p) | None \<Rightarrow> r2)" (is "_ = ?r3")
      unfolding r1_def r2_def by (simp add: dentry_relink_def Some u Let_def)
    have wf: "dir_wf H slots dir" and room: "dir_room (Suc n) dir"
      using b Some by (auto simp: base_ok_def dirs_wf_def roomy_def)
    have ur: "u = ls_upsert_result (as_bytes nm) node (dents dir)" by (rule upsert_wf(3) [OF wf room u])
    have d1: "debt R r1 (opt_mset (displaced u) + X)"
      if d: "debt R r (add_mset node X)" and g: "R = (\<le>) \<or> relink_gains r p nm node"
    proof (cases "gained_link u")
      case True
      then have "refs r1 j + count (opt_mset (displaced u) + X) j = refs r j + count (add_mset node X) j" for j
        using o(3) [of j] by (simp add: gained_mset_def)
      then show ?thesis using d unfolding debt_def o(2) by metis
    next
      case False
      then have "\<not> relink_gains r p nm node" and dn: "displaced u = None"
        by (auto simp: ur ls_upsert_result_def relink_gains_def Some split: option.splits if_splits)
      then have le: "R = (\<le>)" using g by simp
      have "refs r1 = refs r" using o(3) False dn by (simp add: gained_mset_def opt_mset_def fun_eq_iff)
      then have "debt (\<le>) r1 (X + {#node#})" using d le by (simp add: debt_def o(2))
      then show ?thesis using debt_mono [of r1 X "{#node#}"] le dn by (simp add: opt_mset_def)
    qed
    have b2: "base_ok H slots n r2" and i2: "rep_info r2 = rep_info r"
      using base_ok_gc(1) [OF o(1)] gc_shrinks(1) [of r1] o(1,5)
      by (auto simp: r2_def shrinks_def split: option.splits)
    have d2: "debt R r2 X" if "link_rel R" "debt R r1 (opt_mset (displaced u) + X)"
      using that gc_debt(1) [OF that(1), of r1] by (auto simp: r2_def opt_mset_def split: option.splits)
    note s = same_shape_set_parent [of r2 node p]
    have "rep_pending ?r3 = rep_pending r2" by (simp split: option.splits)
    then have "base_ok H slots n ?r3"
      using base_ok_same_shape [OF b2 s] b2 by (simp add: base_ok_def)
    moreover have "rep_info ?r3 = rep_info r" using s i2 by (simp add: same_shape_def)
    ultimately show ?thesis unfolding e using d1 d2 same_shape_keeps(7) [OF s] by blast
  qed
  then show "base_ok H slots n (dentry_relink H r p nm node k)"
    and "link_rel R \<Longrightarrow> debt R r (add_mset node X) \<Longrightarrow> R = (\<le>) \<or> relink_gains r p nm node \<Longrightarrow>
      debt R (dentry_relink H r p nm node k) X"
    and "rep_info (dentry_relink H r p nm node k) = rep_info r" by auto
qed

lemma force_remove_ok:
  assumes b: "base_ok H slots n r"
  shows "base_ok H slots n (force_remove r key)"
proof (cases "get_node r key")
  case None
  then show ?thesis using b by (simp add: force_remove_def remove_node_None)
next
  case (Some m)
  let ?r = "put_node r key (m\<lparr>n_links := 0\<rparr>)"
  have "shrinks r ?r" by (rule shrinks_put [OF Some]) simp
  then have "base_ok H slots n ?r"
    using b shrinks_wf_room [of r ?r] err_put_links [OF Some, of 0]
    by (simp add: base_ok_def counters_ok_def)
  then show ?thesis using base_ok_gc(2) by (simp add: force_remove_def Some Let_def)
qed

text \<open>One created dentry, as the records \<^verbatim>\<open>Created\<close> and \<^verbatim>\<open>CreatedBatch\<close> apply it.\<close>

lemma created_ok:
  fixes p :: node_key and nm :: name and k :: kind
  assumes b: "base_ok H slots (Suc n) r" and s: "same_shape r r1" "rep_pending r1 = rep_pending r"
    and node: "get_node r1 node \<noteq> None"
  defines "r' \<equiv> dentry_set H (if k = Dir then mark_dir_complete r1 node else r1) p nm node k"
  shows "base_ok H slots n r'" "link_rel R \<Longrightarrow> debt R r X \<Longrightarrow> debt R r' X" "rep_info r' = rep_info r"
proof -
  let ?r2 = "if k = Dir then mark_dir_complete r1 node else r1"
  have s2: "same_shape r ?r2" using s same_shape_trans [OF s(1) same_shape_mark_dir_complete] by simp
  have "rep_pending ?r2 = rep_pending r"
    using s by (auto simp: mark_dir_complete_def put_dir_def split: option.splits)
  then have b2: "base_ok H slots (Suc n) ?r2"
    using base_ok_same_shape [OF b s2] b by (simp add: base_ok_def)
  have node2: "get_node ?r2 node \<noteq> None"
    using node same_shape_keeps(9) [OF s(1)] same_shape_keeps(9) [OF s2] by simp
  note d = dentry_set_ok [OF b2 node2, where p = p and nm = nm and k = k, folded r'_def]
  show "base_ok H slots n r'" by (rule d)
  show "link_rel R \<Longrightarrow> debt R r X \<Longrightarrow> debt R r' X" using d(2) same_shape_keeps(7) [OF s2] by simp
  show "rep_info r' = rep_info r" using d(3) s2 by (simp add: same_shape_def)
qed

lemma stash_ok:
  assumes "base_ok H slots n r"
  shows "base_ok H slots n (stash_pending r key q)" "debt R (stash_pending r key q) X = debt R r X"
    "rep_info (stash_pending r key q) = rep_info r"
proof -
  note s = same_shape_stash_pending [of r key q]
  show "base_ok H slots n (stash_pending r key q)"
    by (rule base_ok_same_shape [OF assms s] pending_stash)+ (use assms in \<open>simp add: base_ok_def\<close>)
  show "debt R (stash_pending r key q) X = debt R r X" by (rule same_shape_keeps(7) [OF s])
  show "rep_info (stash_pending r key q) = rep_info r" using s by (simp add: same_shape_def)
qed

lemma drain_pending_base:
  assumes "base_ok H slots n r"
  shows "base_ok H slots n (drain_pending r key)"
  by (rule base_ok_same_shape [OF assms same_shape_drain_pending])
    (use assms pending_drain [of r key] in \<open>simp add: base_ok_def\<close>)

lemma created_entry_ok:
  assumes b: "base_ok H slots (Suc n) r"
  shows "base_ok H slots n (created_entry H p e r)"
    "link_rel R \<Longrightarrow> debt R r X \<Longrightarrow> debt R (created_entry H p e r) X"
    "rep_info (created_entry H p e r) = rep_info r"
proof -
  let ?r = "drain_pending (upsert_node H r (se_node e) (se_attr e) p) (se_node e)"
  note u = upsert_node_ok [OF b, where key = "se_node e" and a = "se_attr e" and parent = p]
  note s = same_shape_drain_pending [of "upsert_node H r (se_node e) (se_attr e) p" "se_node e"]
  have b1: "base_ok H slots (Suc n) ?r" by (rule drain_pending_base [OF u(1)])
  have node: "get_node ?r (se_node e) \<noteq> None"
    using same_shape_keeps(9) [OF s] u(3) by simp
  note c = created_ok [OF b1 same_shape_refl refl node, where p = p and nm = "se_name e"
      and k = "attr_kind (se_attr e)"]
  have e: "created_entry H p e r =
      dentry_set H (if attr_kind (se_attr e) = Dir then mark_dir_complete ?r (se_node e) else ?r)
        p (se_name e) (se_node e) (attr_kind (se_attr e))"
    by (simp add: created_entry_def Let_def)
  show "base_ok H slots n (created_entry H p e r)" unfolding e by (rule c(1))
  show "link_rel R \<Longrightarrow> debt R r X \<Longrightarrow> debt R (created_entry H p e r) X"
    unfolding e using c(2) same_shape_keeps(7) [OF s] u(2) by simp
  show "rep_info (created_entry H p e r) = rep_info r"
    unfolding e using c(3) s u(4) by (simp add: same_shape_def)
qed

lemma created_batch_ok:
  assumes "base_ok H slots (length es + n) r"
  shows "base_ok H slots n (fold (created_entry H p) es r)"
    "link_rel R \<Longrightarrow> debt R r X \<Longrightarrow> debt R (fold (created_entry H p) es r) X"
    "rep_info (fold (created_entry H p) es r) = rep_info r"
proof -
  have "base_ok H slots n (fold (created_entry H p) es r)
    \<and> (link_rel R \<longrightarrow> debt R r X \<longrightarrow> debt R (fold (created_entry H p) es r) X)
    \<and> rep_info (fold (created_entry H p) es r) = rep_info r"
    using assms
  proof (induction es arbitrary: r)
    case (Cons e es)
    then have "base_ok H slots (Suc (length es + n)) r" by simp
    from created_entry_ok [OF this, where p = p and e = e] Cons.IH [of "created_entry H p e r"]
    show ?case by simp
  qed simp
  then show "base_ok H slots n (fold (created_entry H p) es r)"
    "link_rel R \<Longrightarrow> debt R r X \<Longrightarrow> debt R (fold (created_entry H p) es r) X"
    "rep_info (fold (created_entry H p) es r) = rep_info r" by auto
qed

section \<open>Records of the journal and of a snapshot\<close>

lemma apply_rec_ok:
  assumes b: "base_ok H slots (rec_weight c + n) r"
  shows "base_ok H slots n (fst (apply_rec H r c))"
    and "link_rel R \<Longrightarrow> debt R r {#} \<Longrightarrow> rec_links_ok H R r c \<Longrightarrow> debt R (fst (apply_rec H r c)) {#}"
    and "rep_info (fst (apply_rec H r c)) = rep_info r"
proof -
  have "base_ok H slots n (fst (apply_rec H r c))
    \<and> (link_rel R \<longrightarrow> debt R r {#} \<longrightarrow> rec_links_ok H R r c \<longrightarrow> debt R (fst (apply_rec H r c)) {#})
    \<and> rep_info (fst (apply_rec H r c)) = rep_info r"
  proof (cases c)
    case (Created p nm node a)
    have b': "base_ok H slots (Suc n) r" using b Created by simp
    show ?thesis
    proof (cases a)
      case None
      let ?u = "case rep_getattr r node of Err _ \<Rightarrow> upsert_node H r node (placeholder_attr Reg) p | Ok _ \<Rightarrow> r"
      note u = upsert_node_ok [OF b', where key = node and a = "placeholder_attr Reg" and parent = p]
      have bu: "base_ok H slots (Suc n) ?u" "debt R ?u X = debt R r X" "get_node ?u node \<noteq> None"
          "rep_info ?u = rep_info r" for X
        using u b' by (auto simp: rep_getattr_def split: sum.splits option.splits)
      note c' = created_ok [OF bu(1) same_shape_refl refl bu(3), where p = p and nm = nm and k = Reg]
      show ?thesis using c' bu(2,4) by (simp add: Created None)
    next
      case (Some a')
      have e: "fst (apply_rec H r c) = created_entry H p \<lparr>se_name = nm, se_node = node, se_attr = a'\<rparr> r"
        by (simp add: Created Some created_entry_def Let_def)
      show ?thesis unfolding e using created_entry_ok [OF b'] by blast
    qed
  next
    case (CreatedBatch p es)
    then have "base_ok H slots (length es + n) r" using b by simp
    from created_batch_ok [OF this] show ?thesis by (simp add: CreatedBatch)
  next
    case (Removed p nm)
    then show ?thesis using dentry_remove_ok [of n r] b by simp
  next
    case (Renamed p nm p' nm')
    have b': "base_ok H slots (Suc n) r" using b Renamed by simp
    obtain r1 t where t: "dentry_take H r p (as_bytes nm) = (r1, t)" by fastforce
    show ?thesis
    proof (cases t)
      case None
      then show ?thesis
        using dentry_take_None [OF b' t [unfolded None]] base_ok_mono [OF b'] t by (simp add: Renamed)
    next
      case (Some nk)
      obtain node k where nk: "nk = (node, k)" by (cases nk)
      note to = dentry_take_ok [OF b' t [unfolded Some nk]]
      note ro = dentry_relink_ok [OF to(1), where p = p' and nm = nm' and node = node and k = k]
      show ?thesis
        using ro(1,3) ro(2) [of R "{#}"] to(2) [of R "{#}"] to(4)
        by (auto simp: Renamed t Some nk)
    qed
  next
    case (AttrChanged node a)
    note s = same_shape_update_attr [of r node a]
    have bu: "base_ok H slots n (fst (update_attr r node a))"
      using base_ok_same_shape [OF _ s, of H slots n] b
      by (simp add: AttrChanged pending_update base_ok_def)
    show ?thesis
    proof (cases "update_attr r node a")
      case (Pair r1 ok)
      then show ?thesis
        using bu s stash_ok [of n r1] same_shape_keeps(7) [OF s]
        by (cases ok) (auto simp: AttrChanged same_shape_def)
    qed
  next
    case (Content node v sz t ip)
    note s = same_shape_update_content [of r node v sz t]
    have bu: "base_ok H slots n (fst (update_content r node v sz t))"
      using base_ok_same_shape [OF _ s, of H slots n] b
      by (simp add: Content pending_update base_ok_def)
    show ?thesis
    proof (cases "update_content r node v sz t")
      case (Pair r1 ok)
      then show ?thesis
        using bu s stash_ok [of n r1] same_shape_keeps(7) [OF s]
        by (cases ok) (auto simp: Content same_shape_def)
    qed
  next
    case (SelfRemoved node)
    have "rep_info (force_remove r node) = rep_info r"
      using gc_shrinks(2) by (auto simp: force_remove_def shrinks_def Let_def split: option.splits)
    then show ?thesis using force_remove_ok [of n r node] b by (simp add: SelfRemoved)
  qed (use b in simp_all)
  then show "base_ok H slots n (fst (apply_rec H r c))"
    and "link_rel R \<Longrightarrow> debt R r {#} \<Longrightarrow> rec_links_ok H R r c \<Longrightarrow> debt R (fst (apply_rec H r c)) {#}"
    and "rep_info (fst (apply_rec H r c)) = rep_info r" by auto
qed

text \<open>The dentry loop of a snapshot record, on the directory it holds.\<close>

lemma snap_dentries_ok:
  assumes "dir_wf H slots dir" "dir_room (length es + n) dir"
    and "snap_dentries H es dir r L U = (dir', r', L', U')"
  shows "dir_wf H slots dir' \<and> dir_room n dir'
    \<and> (\<exists>i. r' = r\<lparr>rep_entries := rep_entries r + of_int i\<rparr> \<and> int (length (dents dir')) = int (length (dents dir)) + i)
    \<and> (\<exists>M V. L' = L @ M \<and> U' = U @ V \<and> set M \<subseteq> se_node ` set es \<and> length M \<le> length es
        \<and> mset (map dt_node (dents dir')) + mset V = mset (map dt_node (dents dir)) + mset M)"
  using assms
proof (induction es arbitrary: dir r L U)
  case Nil
  then show ?case by (auto intro: exI [of _ "0 :: int"])
next
  case (Cons e es)
  obtain d1 u where u: "upsert H dir (se_name e) (se_node e) (attr_kind (se_attr e)) = (d1, u)"
    by fastforce
  have room: "dir_room (Suc (length es + n)) dir" using Cons.prems(2) by simp
  note uw = upsert_wf [OF Cons.prems(1) room u]
  note lt = ls_upsert_targets [OF dir_wfD(4) [OF Cons.prems(1)], of "ds_next_cookie dir" "as_bytes (se_name e)"
      "se_node e" "attr_kind (se_attr e)", folded uw(2,3)]
  let ?L = "if gained_link u then L @ [se_node e] else L"
  let ?U = "case displaced u of Some old \<Rightarrow> U @ [old] | None \<Rightarrow> U"
  let ?g = "if gained_link u then [se_node e] else []"
  let ?d = "case displaced u of Some old \<Rightarrow> [old] | None \<Rightarrow> []"
  have "snap_dentries H es d1 (entries_add r (dentry_delta u)) ?L ?U = (dir', r', L', U')"
    using Cons.prems(3) by (simp add: u)
  from Cons.IH [OF uw(1) uw(4) this] obtain i M V where
      wf: "dir_wf H slots dir'" "dir_room n dir'"
      and i: "r' = (entries_add r (dentry_delta u))\<lparr>rep_entries := rep_entries (entries_add r (dentry_delta u)) + of_int i\<rparr>"
        "int (length (dents dir')) = int (length (dents d1)) + i"
      and M: "L' = ?L @ M" "U' = ?U @ V" "set M \<subseteq> se_node ` set es" "length M \<le> length es"
        "mset (map dt_node (dents dir')) + mset V = mset (map dt_node (dents d1)) + mset M"
    by auto
  have "r' = r\<lparr>rep_entries := rep_entries r + of_int (dentry_delta u + i)\<rparr>"
    by (simp add: i(1) entries_add_def algebra_simps)
  moreover have "int (length (dents dir')) = int (length (dents dir)) + (dentry_delta u + i)"
    using i(2) lt(2) by simp
  moreover have "L' = L @ (?g @ M)" "U' = U @ (?d @ V)"
    using M(1,2) by (auto split: option.splits)
  moreover have "mset ?g = gained_mset u (se_node e)" "mset ?d = opt_mset (displaced u)"
    by (simp_all add: gained_mset_def opt_mset_def split: option.splits)
  then have "mset (map dt_node (dents dir')) + mset (?d @ V) = mset (map dt_node (dents dir)) + mset (?g @ M)"
    using M(5) lt(1) by (simp del: mset_map) (metis (no_types, lifting) add.assoc add.commute)
  moreover have "set (?g @ M) \<subseteq> se_node ` set (e # es)" "length (?g @ M) \<le> length (e # es)"
    using M(3,4) by auto
  ultimately show ?case using wf by blast
qed

lemma link_incs_ok:
  assumes "\<forall>k \<in> set L. get_node r k \<noteq> None" "\<forall>k. unat (link_count r k) + (length L + n) < 2 ^ 32"
  shows "refs (fold (\<lambda>k r. link_inc r k) L r) = refs r"
    "unat (link_count (fold (\<lambda>k r. link_inc r k) L r) j) = unat (link_count r j) + count_list L j"
    "get_dir (fold (\<lambda>k r. link_inc r k) L r) = get_dir r"
    "nodes_err (fold (\<lambda>k r. link_inc r k) L r) = nodes_err r"
    "dirs_err (fold (\<lambda>k r. link_inc r k) L r) = dirs_err r"
    "entries_err (fold (\<lambda>k r. link_inc r k) L r) = entries_err r"
    "rep_pending (fold (\<lambda>k r. link_inc r k) L r) = rep_pending r"
    "rep_info (fold (\<lambda>k r. link_inc r k) L r) = rep_info r"
proof -
  have "refs (fold (\<lambda>k r. link_inc r k) L r) = refs r
    \<and> (\<forall>j. unat (link_count (fold (\<lambda>k r. link_inc r k) L r) j) = unat (link_count r j) + count_list L j)
    \<and> get_dir (fold (\<lambda>k r. link_inc r k) L r) = get_dir r
    \<and> nodes_err (fold (\<lambda>k r. link_inc r k) L r) = nodes_err r
    \<and> dirs_err (fold (\<lambda>k r. link_inc r k) L r) = dirs_err r
    \<and> entries_err (fold (\<lambda>k r. link_inc r k) L r) = entries_err r
    \<and> rep_pending (fold (\<lambda>k r. link_inc r k) L r) = rep_pending r
    \<and> rep_info (fold (\<lambda>k r. link_inc r k) L r) = rep_info r"
    using assms
  proof (induction L arbitrary: r)
    case Nil
    then show ?case by simp
  next
    case (Cons k L)
    have k: "get_node r k \<noteq> None" using Cons.prems(1) by simp
    note li = link_inc_keeps [OF k]
    have b: "unat (link_count r j) + (Suc (length L) + n) < 2 ^ 32" for j
      using Cons.prems(2) by simp
    have s: "unat (link_count r k + 1) = unat (link_count r k) + 1"
      using b [of k] by (intro unat_Suc_word) simp
    have lc: "unat (link_count (link_inc r k) j) = unat (link_count r j) + (if j = k then 1 else 0)" for j
      by (simp add: li(2) s)
    have "\<forall>j \<in> set L. get_node (link_inc r k) j \<noteq> None" using Cons.prems(1) li(7) by simp
    moreover have "\<forall>j. unat (link_count (link_inc r k) j) + (length L + n) < 2 ^ 32"
    proof
      fix j show "unat (link_count (link_inc r k) j) + (length L + n) < 2 ^ 32"
        using b [of j] by (auto simp: lc)
    qed
    ultimately show ?case using Cons.IH [of "link_inc r k"] li lc by auto
  qed
  then show "refs (fold (\<lambda>k r. link_inc r k) L r) = refs r"
    "unat (link_count (fold (\<lambda>k r. link_inc r k) L r) j) = unat (link_count r j) + count_list L j"
    "get_dir (fold (\<lambda>k r. link_inc r k) L r) = get_dir r"
    "nodes_err (fold (\<lambda>k r. link_inc r k) L r) = nodes_err r"
    "dirs_err (fold (\<lambda>k r. link_inc r k) L r) = dirs_err r"
    "entries_err (fold (\<lambda>k r. link_inc r k) L r) = entries_err r"
    "rep_pending (fold (\<lambda>k r. link_inc r k) L r) = rep_pending r"
    "rep_info (fold (\<lambda>k r. link_inc r k) L r) = rep_info r" by auto
qed

lemma link_decs_ok:
  assumes "base_ok H slots n r"
  shows "base_ok H slots n (fold (\<lambda>k r. link_dec r k) U r)"
    "link_rel R \<Longrightarrow> debt R r (mset U + X) \<Longrightarrow> debt R (fold (\<lambda>k r. link_dec r k) U r) X"
    "rep_info (fold (\<lambda>k r. link_dec r k) U r) = rep_info r"
proof -
  have "base_ok H slots n (fold (\<lambda>k r. link_dec r k) U r)
    \<and> (link_rel R \<longrightarrow> debt R r (mset U + X) \<longrightarrow> debt R (fold (\<lambda>k r. link_dec r k) U r) X)
    \<and> rep_info (fold (\<lambda>k r. link_dec r k) U r) = rep_info r"
    using assms
  proof (induction U arbitrary: r)
    case (Cons k U)
    have "link_rel R \<longrightarrow> debt R r (mset (k # U) + X) \<longrightarrow> debt R (link_dec r k) (mset U + X)"
      using gc_debt(1) [of R r k] by simp
    then show ?case
      using Cons.IH [OF base_ok_gc(1) [OF Cons.prems], of k] gc_shrinks(1) [of r k]
      by (simp add: shrinks_def)
  qed simp
  then show "base_ok H slots n (fold (\<lambda>k r. link_dec r k) U r)"
    "link_rel R \<Longrightarrow> debt R r (mset U + X) \<Longrightarrow> debt R (fold (\<lambda>k r. link_dec r k) U r) X"
    "rep_info (fold (\<lambda>k r. link_dec r k) U r) = rep_info r" by auto
qed

lemma upsert_nodes_ok:
  assumes "base_ok H slots n r"
  shows "base_ok H slots n (fold (\<lambda>e r. upsert_node H r (se_node e) (se_attr e) p) es r)" (is ?b)
    and "debt R (fold (\<lambda>e r. upsert_node H r (se_node e) (se_attr e) p) es r) X = debt R r X" (is ?d)
    and "get_node (fold (\<lambda>e r. upsert_node H r (se_node e) (se_attr e) p) es r) k = None \<longleftrightarrow>
      k \<notin> se_node ` set es \<and> get_node r k = None" (is ?n)
    and "rep_info (fold (\<lambda>e r. upsert_node H r (se_node e) (se_attr e) p) es r) = rep_info r" (is ?i)
    and "get_dir r j = Some dir \<Longrightarrow>
      get_dir (fold (\<lambda>e r. upsert_node H r (se_node e) (se_attr e) p) es r) j = Some dir" (is "?h \<Longrightarrow> ?g")
proof -
  have "?b \<and> ?d \<and> ?n \<and> ?i \<and> (?h \<longrightarrow> ?g)"
    using assms
  proof (induction es arbitrary: r)
    case (Cons e es)
    note u = upsert_node_ok [OF Cons.prems, where key = "se_node e" and a = "se_attr e" and parent = p]
    show ?case using Cons.IH [OF u(1)] u by auto
  qed simp
  then show ?b ?d ?n ?i "?h \<Longrightarrow> ?g" by auto
qed

text \<open>
  A validated snapshot record is applied without a panic; the new dentries are linked and
  the displaced ones unlinked, so that the link relation is kept.
\<close>

lemma apply_snap_dir_ok:
  assumes b: "base_ok H slots (length (sd_entries d) + n) r"
    and kind: "attr_kind (sd_dir_attr d) = Dir"
  obtains r' where "apply_snap_dir H r d = Some r'" "base_ok H slots n r'"
    "link_rel R \<Longrightarrow> debt R r {#} \<Longrightarrow> debt R r' {#}" "rep_info r' = rep_info r"
proof -
  define r1 where "r1 = upsert_node H r (sd_dir d) (sd_dir_attr d) (sd_parent d)"
  define r2 where "r2 = fold (\<lambda>e r. upsert_node H r (se_node e) (se_attr e) (sd_dir d)) (sd_entries d) r1"
  note u1 = upsert_node_ok [OF b, where key = "sd_dir d" and a = "sd_dir_attr d" and parent = "sd_parent d",
      folded r1_def]
  note u2 = upsert_nodes_ok [OF u1(1), where es = "sd_entries d" and p = "sd_dir d", folded r2_def]
  obtain dir where dir1: "get_dir r1 (sd_dir d) = Some dir"
    using u1(5) [of "sd_dir d"] kind by (cases "get_dir r (sd_dir d)") auto
  have dir: "get_dir r2 (sd_dir d) = Some dir" by (rule u2(5) [OF dir1])
  obtain node where node: "get_node r2 (sd_dir d) = Some node" "n_dir node = Some dir"
    using dir by (auto simp: get_dir_def bind_eq_Some_conv)
  obtain dir' r3 L U where sn: "snap_dentries H (sd_entries d) dir r2 [] [] = (dir', r3, L, U)"
    by (metis prod_cases4)
  have wf: "dir_wf H slots dir" and room: "dir_room (length (sd_entries d) + n) dir"
    using u2(1) dir by (auto simp: base_ok_def dirs_wf_def roomy_def)
  obtain i where i: "r3 = r2\<lparr>rep_entries := rep_entries r2 + of_int i\<rparr>"
      "int (length (dents dir')) = int (length (dents dir)) + i"
      and wf': "dir_wf H slots dir'" "dir_room n dir'"
      and L: "set L \<subseteq> se_node ` set (sd_entries d)" "length L \<le> length (sd_entries d)"
      and targets: "mset (map dt_node (dents dir')) + mset U = mset (map dt_node (dents dir)) + mset L"
    using snap_dentries_ok [OF wf room sn] by auto
  define dir'' where "dir'' = (if sd_last d then dir'\<lparr>ds_complete := True\<rparr> else dir')"
  define r4 where "r4 = put_dir r2 (sd_dir d) dir''"
  have d'': "dents dir'' = dents dir'" "dir_wf H slots dir''" "dir_room n dir''"
    using wf' by (simp_all add: dir''_def dents_def live_def)
  note pk = put_dir_keeps [OF dir, where d' = dir'', folded r4_def]
  let ?r4 = "r4\<lparr>rep_entries := rep_entries r2 + of_int i\<rparr>"
  let ?r5 = "fold (\<lambda>k r. link_inc r k) L ?r4"
  have swap: "q\<lparr>rep_entries := x, rep_shards := y\<rparr> = q\<lparr>rep_shards := y, rep_entries := x\<rparr>"
    for q :: "'a share_replica" and x y by simp
  have e: "apply_snap_dir H r d = Some (fold (\<lambda>k r. link_dec r k) U ?r5)"
    using node sn
    by (simp add: apply_snap_dir_def r1_def [symmetric] r2_def [symmetric] Let_def i(1) dir''_def [symmetric]
        r4_def put_dir_def swap)
  have lc4: "link_count ?r4 = link_count r2" "get_dir ?r4 = get_dir r4" "refs ?r4 = refs r4"
    using pk(1) by (simp_all add: link_count_def get_dir_def refs_def fun_eq_iff)
  have links: "unat (link_count r2 k) + (length (sd_entries d) + n) < 2 ^ 32" for k
    using u2(1) by (simp add: base_ok_def roomy_def)
  have "\<forall>k \<in> set L. get_node ?r4 k \<noteq> None" using L(1) u2(3) pk(7) by auto
  moreover have "\<forall>k. unat (link_count ?r4 k) + (length L + n) < 2 ^ 32"
    unfolding lc4 using links L(2) by (meson add_le_mono le_refl order_le_less_trans)
  ultimately have inc: "refs ?r5 = refs ?r4" "get_dir ?r5 = get_dir ?r4" "nodes_err ?r5 = nodes_err ?r4"
      "dirs_err ?r5 = dirs_err ?r4" "entries_err ?r5 = entries_err ?r4"
      "rep_pending ?r5 = rep_pending ?r4" "rep_info ?r5 = rep_info ?r4"
      "\<And>k. unat (link_count ?r5 k) = unat (link_count ?r4 k) + count_list L k"
    using link_incs_ok [of L ?r4 n] by blast+
  have "of_int (int (length (dents dir'))) = (of_int (int (length (dents dir)) + i) :: u64)"
    using i(2) by simp
  then have "entries_err ?r4 = entries_err r2"
    using pk(4) d''(1) by (simp add: entries_err_def total_dentries_def r4_def put_dir_def node)
  then have "counters_ok ?r5"
    using u2(1) pk(2,3) inc(3-5)
    by (simp add: base_ok_def counters_ok_def) (simp add: err_defs total_dirs_def)
  moreover have "dirs_wf H slots ?r5"
    using u2(1) d''(2) by (auto simp: base_ok_def dirs_wf_def inc(2) lc4 pk(6))
  moreover have "roomy n ?r5"
  proof -
    have "unat (link_count ?r5 k) + n < 2 ^ 32" for k
      using links [of k] L(2) count_le_length [of L k] inc(8) [of k] by (simp add: lc4)
    moreover have "dir_room n da" if "get_dir r2 k = Some da" for k da
      by (rule dir_room_less [of "length (sd_entries d)"])
        (use u2(1) that in \<open>auto simp: base_ok_def roomy_def\<close>)
    ultimately show ?thesis
      using u2(1) d''(3) by (auto simp: base_ok_def roomy_def inc(2) lc4 pk(6))
  qed
  ultimately have b5: "base_ok H slots n ?r5"
    using u2(1) pk(8) by (simp add: base_ok_def inc(6))
  have d5: "debt R ?r5 (mset U)" if R: "link_rel R" and "debt R r {#}"
    unfolding debt_def
  proof
    fix k
    have "debt R r2 {#}" using that(2) u1(2) u2(2) by simp
    then have "R (refs r2 k) (unat (link_count r2 k))" by (simp add: debt_def)
    moreover have "refs ?r5 k + count (mset U) k = refs r2 k + count_list L k"
      using refs_put_dir_mset [OF dir, of dir'' "mset U" "mset L" k, folded r4_def] targets d''(1)
      by (simp add: inc(1) lc4 count_mset_list)
    ultimately show "R (refs ?r5 k + count (mset U) k) (unat (link_count ?r5 k))"
      using link_rel_add [OF R, of "refs r2 k" _ "count_list L k"] inc(8) [of k] by (simp add: lc4)
  qed
  show thesis
    using that [OF e] link_decs_ok(1,3) [OF b5, of U] link_decs_ok(2) [OF b5, of R U "{#}"]
      d5 inc(7) pk(9) u2(4) u1(4) by simp
qed

end

end
