(* ===== verification/Replica_Reach.thy ===== *)
theory Replica_Reach
  imports Replica_Inv
begin

text \<open>
  The states a replica can reach from an empty one, by validated snapshot records, validated
  journal records, the end of a snapshot and the attribute nudge, as an inductive predicate;
  the invariants hold in all of them. A step is taken while the 32-bit and 64-bit counters of
  the tables it fills still have room (\<open>roomy\<close>), and the parameter \<open>G\<close> restricts the journal
  records.
\<close>

section \<open>Reachable states\<close>

inductive reachable ::
    "'t name_index \<Rightarrow> share_info \<Rightarrow> ('t share_replica \<Rightarrow> rec \<Rightarrow> bool) \<Rightarrow> 't share_replica \<Rightarrow> bool"
  for H :: "'t name_index" and info :: share_info and G :: "'t share_replica \<Rightarrow> rec \<Rightarrow> bool" where
  init: "reachable H info G (replica_new info)"
| snap: "reachable H info G r \<Longrightarrow> validate_snap_dir d = Ok () \<Longrightarrow> roomy (length (sd_entries d)) r \<Longrightarrow>
    apply_snap_dir H r d = Some r' \<Longrightarrow> reachable H info G r'"
| journal: "reachable H info G r \<Longrightarrow> validate_rec c = Ok () \<Longrightarrow> roomy (rec_weight c) r \<Longrightarrow> G r c \<Longrightarrow>
    reachable H info G (fst (apply_rec H r c))"
| finish: "reachable H info G r \<Longrightarrow> reachable H info G (fst (finish_snapshot r))"
| bump: "reachable H info G r \<Longrightarrow> reachable H info G (bump_dir_attr r k)"
| state: "reachable H info G r \<Longrightarrow> reachable H info G (set_state r st)"

inductive_cases reachable_cases: "reachable H info G r"

text \<open>The record streams of the theorems: all, those without a forced removal, those with exact links.\<close>

definition any_rec :: "'t share_replica \<Rightarrow> rec \<Rightarrow> bool" where
  "any_rec r c \<longleftrightarrow> True"

definition not_forced :: "'t name_index \<Rightarrow> 't share_replica \<Rightarrow> rec \<Rightarrow> bool" where
  "not_forced H = rec_links_ok H (\<le>)"

definition exact_links :: "'t name_index \<Rightarrow> 't share_replica \<Rightarrow> rec \<Rightarrow> bool" where
  "exact_links H = rec_links_ok H (=)"

lemma snap_dir_kind: "validate_snap_dir d = Ok () \<Longrightarrow> attr_kind (sd_dir_attr d) = Dir"
  by (auto simp: validate_snap_dir_def and_then_ok split: if_splits)

lemma debt_new: "link_rel R \<Longrightarrow> debt R (replica_new info) {#}"
  by (simp add: debt_def refs_def replica_new_def link_count_def link_relD(5))

lemma finish_total:
  assumes "dirs_wf H slots r"
  shows "fmap_sum node_live_len (rep_shards r) = total_dentries r"
  unfolding total_dentries_def
proof (rule fmap_sum_cong)
  fix k n assume n: "get_node r k = Some n"
  show "node_live_len n = length (node_targets n)"
  proof (cases "n_dir n")
    case (Some d)
    then have "get_dir r k = Some d" using n by (simp add: get_dir_def)
    then have "dir_wf H slots d" using assms by (simp add: dirs_wf_def)
    then show ?thesis using Some by (simp add: node_live_len_def node_targets_def live_len_dents dents_def)
  qed (simp add: node_live_len_def node_targets_def)
qed

text \<open>At the end of a snapshot the entry counter is recounted; it was exact before.\<close>

lemma finish_snapshot_recount:
  assumes "dirs_wf H slots r" "counters_ok r"
  shows "fst (finish_snapshot r) = set_state r Live" "snd (finish_snapshot r) = replica_stats r"
proof -
  have "rep_entries r = of_nat (fmap_sum node_live_len (rep_shards r))"
    using assms(2) finish_total [OF assms(1)] by (simp add: counters_ok_def entries_err_def)
  then have e: "r\<lparr>rep_entries := of_nat (fmap_sum node_live_len (rep_shards r))\<rparr> = r" by simp
  show "fst (finish_snapshot r) = set_state r Live" "snd (finish_snapshot r) = replica_stats r"
    unfolding finish_snapshot_def Let_def e by (simp_all add: set_state_def replica_stats_def)
qed

lemma same_shape_set_state: "same_shape r (set_state r st)"
  by (simp add: same_shape_def set_state_def)

context hash_index
begin

lemma base_ok_new: "base_ok H slots 0 (replica_new info)"
  by (simp add: base_ok_def dirs_wf_def get_dir_def replica_new_def counters_ok_def err_defs
      total_dirs_def total_dentries_def roomy_def link_count_def)

lemma base_ok_roomy: "base_ok H slots m r \<Longrightarrow> roomy n r \<Longrightarrow> base_ok H slots n r"
  by (simp add: base_ok_def)

lemma base_ok_set_state: "base_ok H slots n r \<Longrightarrow> base_ok H slots n (set_state r st)"
  by (rule base_ok_same_shape [OF _ same_shape_set_state]) (simp_all add: base_ok_def set_state_def)

lemma reachable_base:
  assumes "reachable H info G r"
  shows "base_ok H slots 0 r \<and> rep_info r = info"
  using assms
proof induction
  case init
  then show ?case using base_ok_new by (simp add: replica_new_def)
next
  case (snap r d r')
  have b: "base_ok H slots (length (sd_entries d) + 0) r" using snap by (simp add: base_ok_def)
  obtain r'' where "apply_snap_dir H r d = Some r''" "base_ok H slots 0 r''" "rep_info r'' = rep_info r"
    using apply_snap_dir_ok [OF b snap_dir_kind [OF snap.hyps(2)]] by metis
  then show ?case using snap by simp
next
  case (journal r c)
  then show ?case using apply_rec_ok(1,3) [of c 0 r] by (simp add: base_ok_def)
next
  case (finish r)
  then show ?case
    using finish_snapshot_recount(1) [of H slots r] base_ok_set_state [of 0 r Live]
    by (simp add: base_ok_def) (simp add: set_state_def)
next
  case (bump r k)
  have "rep_pending (bump_dir_attr r k) = rep_pending r"
    by (simp add: bump_dir_attr_def Let_def split: option.splits)
  then show ?case
    using base_ok_same_shape [OF _ same_shape_bump_dir_attr, of H slots 0 r k] bump
      same_shape_bump_dir_attr [of r k] by (simp add: base_ok_def same_shape_def)
next
  case (state r st)
  then show ?case using base_ok_set_state by (simp add: set_state_def)
qed

lemma reachable_debt:
  assumes "reachable H info G r" "link_rel R" "\<And>r c. G r c \<Longrightarrow> rec_links_ok H R r c"
  shows "debt R r {#}"
  using assms(1)
proof induction
  case init
  then show ?case by (rule debt_new [OF assms(2)])
next
  case (snap r d r')
  have b: "base_ok H slots (length (sd_entries d) + 0) r"
    using reachable_base [OF snap.hyps(1)] snap by (simp add: base_ok_def)
  obtain r'' where "apply_snap_dir H r d = Some r''" "debt R r''{#}"
    using apply_snap_dir_ok [OF b snap_dir_kind [OF snap.hyps(2)], of R] assms(2) snap.IH by metis
  then show ?case using snap by simp
next
  case (journal r c)
  have "base_ok H slots (rec_weight c + 0) r"
    using reachable_base [OF journal.hyps(1)] journal by (simp add: base_ok_def)
  then show ?case by (rule apply_rec_ok(2)) (use journal assms in auto)
next
  case (finish r)
  have "debt R (fst (finish_snapshot r)) {#} = debt R r {#}"
    by (simp add: debt_def refs_def link_count_def finish_snapshot_def set_state_def Let_def)
  then show ?case using finish by simp
next
  case (bump r k)
  then show ?case using same_shape_keeps(7) [OF same_shape_bump_dir_attr] by blast
next
  case (state r st)
  then show ?case using same_shape_keeps(7) [OF same_shape_set_state] by blast
qed

end

section \<open>What garbage collection keeps\<close>

text \<open>The attributes of a node that survives, with its side tables.\<close>

definition keeps_attrs :: "'t share_replica \<Rightarrow> 't share_replica \<Rightarrow> bool" where
  "keeps_attrs r r' \<longleftrightarrow> (\<forall>k. get_node r' k \<noteq> None \<longrightarrow>
     fmlookup (rep_symlinks r') k = fmlookup (rep_symlinks r) k
     \<and> fmlookup (rep_rdevs r') k = fmlookup (rep_rdevs r) k)"

lemma keeps_attrs_trans:
  "keeps_attrs r r' \<Longrightarrow> keeps_attrs r' r'' \<Longrightarrow> shrinks r' r'' \<Longrightarrow> keeps_attrs r r''"
  unfolding keeps_attrs_def using shrinks_wf_room(3) by metis

lemma gc_keeps_attrs:
  shows "keeps_attrs r (link_dec r key)" "keeps_attrs r (remove_node r key)"
    "keeps_attrs r (drop_links r keys)"
proof (induction r key and r key and r keys rule: gc_induct)
  case (dec_None r key)
  then show ?case by (simp add: link_dec_None keeps_attrs_def)
next
  case (dec r key n n')
  then show ?case by (simp add: link_dec_cases keeps_attrs_def)
next
  case (remove_None r key)
  then show ?case by (simp add: remove_node_None keeps_attrs_def)
next
  case (remove r key n)
  have "keeps_attrs r (unlinked r key n)"
    by (simp add: keeps_attrs_def unlinked_def Let_def drop_side_def)
  then show ?case
    using keeps_attrs_trans remove gc_shrinks(3) by (simp add: remove_node_cases) blast
next
  case (Nil r)
  then show ?case by (simp add: keeps_attrs_def)
next
  case (Cons r key keys)
  have "keeps_attrs r (link_dec (entries_add r (- 1)) key)"
    using Cons(1) by (simp add: keeps_attrs_def entries_add_def)
  then show ?case using keeps_attrs_trans Cons(2) gc_shrinks(3) by simp blast
qed

lemma shrinks_getattr:
  assumes "shrinks r r'" "keeps_attrs r r'" "get_node r' k \<noteq> None"
  shows "rep_getattr r' k = rep_getattr r k"
proof -
  obtain n' where n': "get_node r' k = Some n'" using assms(3) by auto
  obtain n where n: "get_node r k = Some n" "core n' = core n" using shrinks_node [OF assms(1) n'] .
  have "node_attr (core m) = node_attr m" "n_has_side (core m) = n_has_side m" for m :: "'a node"
    by (simp_all add: core_def node_attr_def)
  then have "node_attr n' = node_attr n" "n_has_side n' = n_has_side n" using n(2) by metis+
  then show ?thesis
    using assms(2,3) n n' by (auto simp: rep_getattr_def graft_side_def keeps_attrs_def Let_def)
qed

text \<open>The root stays.\<close>

lemma gc_root:
  shows "get_node r (replica_root r) \<noteq> None \<longrightarrow> get_node (link_dec r key) (replica_root r) \<noteq> None"
    and "key \<noteq> replica_root r \<longrightarrow> get_node r (replica_root r) \<noteq> None \<longrightarrow>
      get_node (remove_node r key) (replica_root r) \<noteq> None"
    and "get_node r (replica_root r) \<noteq> None \<longrightarrow> get_node (drop_links r keys) (replica_root r) \<noteq> None"
proof (induction r key and r key and r keys rule: gc_induct)
  case (dec_None r key)
  then show ?case by (simp add: link_dec_None)
next
  case (dec r key n n')
  then show ?case by (auto simp: link_dec_cases replica_root_def)
next
  case (remove_None r key)
  then show ?case by (simp add: remove_node_None)
next
  case (remove r key n)
  then show ?case
    by (auto simp: remove_node_cases unlinked_def Let_def replica_root_def drop_side_def split: if_splits)
next
  case (Nil r)
  then show ?case by simp
next
  case (Cons r key keys)
  have "replica_root (entries_add r (- 1)) = replica_root r"
    "replica_root (link_dec (entries_add r (- 1)) key) = replica_root r"
    using shrinks_wf_room(4) [OF gc_shrinks(1) [of "entries_add r (- 1)" key]]
    by (simp_all add: replica_root_def entries_add_def)
  then show ?case using Cons by simp
qed

text \<open>A node without links is garbage unless it is the root; a collection leaves no new garbage.\<close>

definition orphan :: "'t share_replica \<Rightarrow> node_key \<Rightarrow> bool" where
  "orphan r k \<longleftrightarrow> k \<noteq> replica_root r \<and> get_node r k \<noteq> None \<and> link_count r k = 0"

lemma orphan_put: "orphan (put_node r key n) j \<longleftrightarrow>
    (if j = key then j \<noteq> replica_root r \<and> n_links n = 0 else orphan r j)"
  by (auto simp: orphan_def link_count_put replica_root_def)

lemma gc_orphans:
  shows "orphan (link_dec r key) j \<longrightarrow> orphan r j"
    and "orphan (remove_node r key) j \<longrightarrow> orphan r j \<and> j \<noteq> key"
    and "orphan (drop_links r keys) j \<longrightarrow> orphan r j"
proof (induction r key and r key and r keys rule: gc_induct)
  case (dec_None r key)
  then show ?case by (simp add: link_dec_None)
next
  case (dec r key n n')
  then show ?case by (auto simp: link_dec_cases orphan_put split: if_splits)
next
  case (remove_None r key)
  then show ?case by (auto simp: remove_node_None orphan_def)
next
  case (remove r key n)
  have "orphan (unlinked r key n) j \<longrightarrow> orphan r j \<and> j \<noteq> key"
    by (auto simp: orphan_def unlinked_def Let_def link_count_def replica_root_def drop_side_def)
  then show ?case using remove by (auto simp: remove_node_cases)
next
  case (Nil r)
  then show ?case by simp
next
  case (Cons r key keys)
  then show ?case by (simp add: orphan_def link_count_def replica_root_def entries_add_def)
qed

end
