(* ===== verification/Samples.thy ===== *)
theory Samples
  imports Replica_Reach
begin

text \<open>
  Concrete inputs on which the hypotheses of the theorems hold: a small share, its first
  snapshot record and a few names.
\<close>

section \<open>Names\<close>

lemma name_abstype [code abstype]: "mk_name (as_bytes n) = n"
  by (rule as_bytes_inverse)

instantiation name :: equal
begin

definition equal_name :: "name \<Rightarrow> name \<Rightarrow> bool" where
  "equal_name a b \<longleftrightarrow> as_bytes a = as_bytes b"

instance
  by standard (simp add: equal_name_def as_bytes_inject)

end

definition name_a :: name where "name_a = mk_name [97]"
definition name_b :: name where "name_b = mk_name [98]"
definition name_ab :: name where "name_ab = mk_name [97, 98]"

lemma name_samples [simp, code abstract]: "as_bytes name_a = [97]"
  unfolding name_a_def by (rule as_bytes_mk_name) (simp add: name_check_ok MAX_NAME_def)

lemma name_b_bytes [simp, code abstract]: "as_bytes name_b = [98]"
  unfolding name_b_def by (rule as_bytes_mk_name) (simp add: name_check_ok MAX_NAME_def)

lemma name_ab_bytes [simp, code abstract]: "as_bytes name_ab = [97, 98]"
  unfolding name_ab_def by (rule as_bytes_mk_name) (simp add: name_check_ok MAX_NAME_def)

section \<open>A share\<close>

definition nk :: "nat \<Rightarrow> node_key" where
  "nk n = \<lparr>ino = of_nat n, generation = 1\<rparr>"

definition sample_info :: share_info where
  "sample_info = \<lparr>si_id = 0, si_name = [115], si_epoch = 1, si_fsid = 1, si_root = nk 2,
     si_flags = 0, si_ino_bits = 32\<rparr>"

definition file_attr :: attr where "file_attr = placeholder_attr Reg"
definition dir_attr :: attr where "dir_attr = placeholder_attr Dir"

definition sample_snap :: snap_dir where
  "sample_snap = \<lparr>sd_snap_id = 1, sd_share = 0, sd_dir = nk 2, sd_dir_attr = dir_attr,
     sd_parent = nk 2,
     sd_entries = [\<lparr>se_name = name_a, se_node = nk 10, se_attr = file_attr\<rparr>,
       \<lparr>se_name = name_b, se_node = nk 11, se_attr = dir_attr\<rparr>],
     sd_last = True\<rparr>"

definition sample_rep :: "(u64 \<times> u32) list share_replica" where
  "sample_rep = the (apply_snap_dir list_index (replica_new sample_info) sample_snap)"

lemma sample_valid: "validate_snap_dir sample_snap = Ok ()" "length (sd_entries sample_snap) = 2"
  by (code_simp, code_simp)

lemma base_ok_empty: "n < 2 ^ 23 \<Longrightarrow> base_ok list_index mset n (replica_new info)"
  using list_index.base_ok_new [of info] by (simp add: base_ok_def roomy_def get_dir_def replica_new_def link_count_def)

lemma sample_snap_applied: "apply_snap_dir list_index (replica_new sample_info) sample_snap = Some sample_rep"
  and sample_base: "base_ok list_index mset 100 sample_rep"
proof -
  have "base_ok list_index mset (length (sd_entries sample_snap) + 100) (replica_new sample_info)"
    by (rule base_ok_empty) (simp add: sample_valid)
  from list_index.apply_snap_dir_ok [OF this snap_dir_kind [OF sample_valid(1)]]
  obtain r' where "apply_snap_dir list_index (replica_new sample_info) sample_snap = Some r'"
    "base_ok list_index mset 100 r'" by metis
  then show "apply_snap_dir list_index (replica_new sample_info) sample_snap = Some sample_rep"
    "base_ok list_index mset 100 sample_rep" by (simp_all add: sample_rep_def)
qed

lemma sample_roomy: "n \<le> 100 \<Longrightarrow> roomy n sample_rep"
proof (induction "100 - n" arbitrary: n)
  case 0
  then show ?case using sample_base by (simp add: base_ok_def)
next
  case (Suc m)
  then have "roomy (Suc n) sample_rep" by simp
  then show ?case by (rule roomy_mono)
qed

lemma sample_reachable: "reachable list_index sample_info G sample_rep"
proof (rule reachable.snap [OF reachable.init sample_valid(1) _ sample_snap_applied])
  show "roomy (length (sd_entries sample_snap)) (replica_new sample_info :: (u64 \<times> u32) list share_replica)"
    using base_ok_empty [of 2 sample_info] by (simp add: sample_valid base_ok_def)
qed

end
