(* ===== verification/Replica_Props.thy ===== *)
theory Replica_Props
  imports Samples
begin

text \<open>
  What the journal records do to the tree a client sees: creation, removal and rename as
  changes of lookups, their idempotence, and the properties of the replica.
\<close>

section \<open>Lookups after one dentry operation\<close>

lemma dir_find_complete [simp]: "dir_find H (d\<lparr>ds_complete := b\<rparr>) nm = dir_find H d nm"
  by (simp add: dir_find_def find_idx_def name_of_def split: option.split)

definition rep_find :: "'t name_index \<Rightarrow> 't share_replica \<Rightarrow> node_key \<Rightarrow> bytes \<Rightarrow> (node_key \<times> kind) option" where
  "rep_find H r p b = Option.bind (get_dir r p) (\<lambda>d. dir_find H d b)"

lemma rep_find_same_shape:
  assumes "same_shape r r'"
  shows "rep_find H r' p b = rep_find H r p b"
proof -
  have "map_option (\<lambda>d. d\<lparr>ds_complete := False\<rparr>) (get_dir r' p) =
      map_option (\<lambda>d. d\<lparr>ds_complete := False\<rparr>) (get_dir r p)"
  proof -
    have "map_option shape (get_node r' p) = map_option shape (get_node r p)"
      using assms by (simp add: same_shape_def)
    then show ?thesis
      by (cases "get_node r p"; cases "get_node r' p") (auto simp: shape_def get_dir_def)
  qed
  moreover have "rep_find H q p b =
      Option.bind (map_option (\<lambda>d. d\<lparr>ds_complete := False\<rparr>) (get_dir q p)) (\<lambda>d. dir_find H d b)"
    for q :: "'a share_replica"
    by (cases "get_dir q p") (simp_all add: rep_find_def)
  ultimately show ?thesis by simp
qed

lemma same_shape_get_dir:
  assumes "same_shape r r'"
  shows "get_dir r' q = None \<longleftrightarrow> get_dir r q = None"
proof -
  have "map_option shape (get_node r' q) = map_option shape (get_node r q)"
    using assms by (simp add: same_shape_def)
  then show ?thesis
    by (cases "get_node r q"; cases "get_node r' q") (auto simp: get_dir_def dest: shape_targets(2))
qed

lemma upsert_node_same_shape:
  assumes "get_node r key = Some m" "attr_kind a = Dir \<longrightarrow> n_dir m \<noteq> None"
  shows "same_shape r (upsert_node H r key a p)"
proof -
  obtain r1 side where ns: "note_side r key a = (r1, side)" by fastforce
  have sh: "rep_shards r1 = rep_shards r" "same_shape r r1"
    using note_side_shards [of r key a] by (simp_all add: ns)
  have m: "get_node r1 key = Some m" using sh assms(1) by simp
  let ?m = "set_parent ((set_attr m a)\<lparr>n_content_version := n_content_version m\<rparr>) p"
  have u: "upsert_node H r key a p = put_node r1 key (?m\<lparr>n_has_side := n_has_side ?m \<or> side\<rparr>)"
    using m assms(2) by (auto simp: upsert_node_def ns Let_def set_parent_def set_attr_def)
  have "same_shape r1 (upsert_node H r key a p)"
    unfolding u by (rule same_shape_put [OF m]) (simp add: shape_def set_parent_def set_attr_def)
  then show ?thesis by (rule same_shape_trans [OF sh(2)])
qed

lemma rep_lookup_find:
  assumes "rep_find H r p b = Some (child, k)" "get_node r child \<noteq> None"
  obtains a where "rep_lookup H r p b = Ok (child, a)" "rep_getattr r child = Ok a"
proof -
  obtain n d where n: "get_node r p = Some n" "n_dir n = Some d" "dir_find H d b = Some (child, k)"
    using assms(1) by (auto simp: rep_find_def get_dir_def bind_eq_Some_conv)
  obtain a where a: "rep_getattr r child = Ok a"
    using assms(2) by (cases "get_node r child") (auto simp: rep_getattr_def)
  show thesis by (rule that [OF _ a]) (simp add: rep_lookup_def n a)
qed

lemma rep_lookup_none:
  assumes "rep_find H r p b = None"
  shows "rep_lookup H r p b = (if get_node r p \<noteq> None \<and> get_dir r p = None then Err ReNotDir else Err ReNoEnt)"
  using assms
  by (cases "get_node r p") (auto simp: rep_find_def rep_lookup_def get_dir_def split: option.splits)

lemma shrinks_find:
  assumes "shrinks r r'" "get_dir r' p \<noteq> None"
  shows "rep_find H r' p b = rep_find H r p b"
  using assms shrinks_wf_room(5) [OF assms(1)] by (auto simp: rep_find_def)

lemma shrinks_dir_node:
  assumes "shrinks r r'" "get_dir r p \<noteq> None" "get_node r' p \<noteq> None"
  shows "get_dir r' p \<noteq> None"
proof -
  obtain n' where n': "get_node r' p = Some n'" using assms(3) by auto
  obtain n where n: "get_node r p = Some n" "core n' = core n" using shrinks_node [OF assms(1) n'] .
  then show ?thesis using assms(2) n' core_dir [OF n(2)] by (simp add: get_dir_def)
qed

lemma dents_ref:
  assumes "debt (\<le>) r X" "get_dir r p = Some d" "x \<in> set (dents d)"
  shows "get_node r (dt_node x) \<noteq> None" "0 < refs r (dt_node x)"
proof -
  obtain n where n: "get_node r p = Some n" "n_dir n = Some d"
    using assms(2) by (auto simp: get_dir_def bind_eq_Some_conv)
  have "dt_node x \<in> set (node_targets n)" using assms(3) n by (simp add: node_targets_def targets_dents)
  then have "0 < count_list (node_targets n) (dt_node x)" by (metis count_list_0_iff gr0I)
  also have "\<dots> \<le> refs r (dt_node x)" unfolding refs_def by (rule fmap_sum_ge [OF n(1)])
  finally show pos: "0 < refs r (dt_node x)" .
  have "refs r (dt_node x) + count X (dt_node x) \<le> unat (link_count r (dt_node x))"
    using assms(1) by (simp add: debt_def)
  then have "0 < unat (link_count r (dt_node x))" using pos by linarith
  then show "get_node r (dt_node x) \<noteq> None" by (auto simp: link_count_def split: option.splits)
qed

definition created_kind :: "attr option \<Rightarrow> kind" where
  "created_kind a = (case a of Some a \<Rightarrow> attr_kind a | None \<Rightarrow> Reg)"

context hash_index
begin

lemma rep_find_mem:
  assumes "dirs_wf H slots r" "rep_find H r p b = Some (child, k)"
  obtains d x where "get_dir r p = Some d" "x \<in> set (dents d)" "dt_node x = child" "dt_name x = b"
proof -
  obtain d where d: "get_dir r p = Some d" "dir_find H d b = Some (child, k)"
    using assms(2) by (auto simp: rep_find_def bind_eq_Some_conv)
  have wf: "dir_wf H slots d" using assms(1) d(1) by (simp add: dirs_wf_def)
  obtain x where "ls_find b (dents d) = Some x" "dt_node x = child"
    using d(2) dir_find_refines [OF wf] by auto
  then show thesis
    using that d(1) ls_find_Some_distinct [OF dir_wfD(4) [OF wf]] by blast
qed

lemma dentry_set_find:
  assumes b: "base_ok H slots (Suc n) r" and node: "get_node r node \<noteq> None"
    and p: "get_dir r p \<noteq> None" and p': "get_node (dentry_set H r p nm node k) p \<noteq> None"
  shows "rep_find H (dentry_set H r p nm node k) p c =
    (if c = as_bytes nm then Some (node, k) else rep_find H r p c)"
proof -
  obtain dir where dir: "get_dir r p = Some dir" using p by auto
  obtain dir' u where u: "upsert H dir nm node k = (dir', u)" by fastforce
  define r1 where "r1 = entries_add (put_dir r p dir') (dentry_delta u)"
  define r2 where "r2 = (if gained_link u then link_inc r1 node else r1)"
  note o = upsert_dir_ok [OF b dir u, folded r1_def]
  have e: "dentry_set H r p nm node k = (case displaced u of Some old \<Rightarrow> link_dec r2 old | None \<Rightarrow> r2)"
    unfolding r1_def r2_def by (simp add: dentry_set_def dir u Let_def)
  have n1: "get_node r1 node \<noteq> None" using node o(4) by simp
  have d2: "get_dir r2 p = Some dir'" using link_inc_keeps(6) [OF n1] o(6) by (simp add: r2_def)
  have s: "shrinks r2 (dentry_set H r p nm node k)"
    using gc_shrinks(1) by (auto simp: e split: option.splits)
  have "get_dir (dentry_set H r p nm node k) p \<noteq> None"
    using shrinks_dir_node [OF s _ p'] d2 by simp
  then have "rep_find H (dentry_set H r p nm node k) p c = rep_find H r2 p c"
    by (rule shrinks_find [OF s])
  moreover have wf: "dir_wf H slots dir" "dir_room 1 dir"
    using b dir by (auto simp: base_ok_def dirs_wf_def roomy_def intro: dir_room_less [of n])
  ultimately show ?thesis
    using dt.fnd_ups [OF wf, of nm node k c] u d2 dir by (simp add: rep_find_def)
qed

lemma dentry_set_keeps_dir:
  assumes "get_dir r j \<noteq> None" "get_node (dentry_set H r p nm node k) j \<noteq> None"
  shows "get_dir (dentry_set H r p nm node k) j \<noteq> None"
proof (cases "get_dir r p")
  case None
  then show ?thesis using assms by (simp add: dentry_set_def)
next
  case (Some dir)
  obtain dir' u where u: "upsert H dir nm node k = (dir', u)" by fastforce
  define r1 where "r1 = entries_add (put_dir r p dir') (dentry_delta u)"
  define r2 where "r2 = (if gained_link u then link_inc r1 node else r1)"
  have e: "dentry_set H r p nm node k = (case displaced u of Some old \<Rightarrow> link_dec r2 old | None \<Rightarrow> r2)"
    unfolding r1_def r2_def by (simp add: dentry_set_def Some u Let_def)
  have "get_dir r1 j \<noteq> None"
    using put_dir_keeps(6) [OF Some, of dir' j] assms(1) by (simp add: r1_def get_dir_def)
  then have "get_dir r2 j \<noteq> None"
    by (auto simp: r2_def link_inc_def get_dir_def split: option.splits)
  moreover have "shrinks r2 (dentry_set H r p nm node k)"
    using gc_shrinks(1) by (auto simp: e split: option.splits)
  ultimately show ?thesis using shrinks_dir_node assms(2) by blast
qed

text \<open>Setting a dentry that is already in place changes nothing.\<close>

lemma upsert_noop:
  assumes wf: "dir_wf H slots d" and f: "dir_find H d (as_bytes nm) = Some (node, k)"
  shows "upsert H d nm node k = (d, \<lparr>gained_link = False, displaced = None, dentry_delta = 0\<rparr>)"
proof -
  obtain i where i: "find_idx H d (as_bytes nm) = Some i" "ce_node (ds_ents d ! i) = node"
      "ce_kind (ds_ents d ! i) = k"
    using f by (auto simp: dir_find_def Let_def split: option.splits)
  have "(ds_ents d ! i)\<lparr>ce_kind := k\<rparr> = ds_ents d ! i" using i(3) by (cases "ds_ents d ! i") simp
  then have "(ds_ents d)[i := (ds_ents d ! i)\<lparr>ce_kind := k\<rparr>] = ds_ents d" by simp
  then show ?thesis using i by (simp add: upsert_def)
qed

lemma put_dir_same: "get_dir r p = Some d \<Longrightarrow> put_dir r p d = r"
  by (auto simp: put_dir_def get_dir_def bind_eq_Some_conv intro!: share_replica.equality fmap_ext)

lemma dentry_set_noop:
  assumes "dirs_wf H slots r" "rep_find H r p (as_bytes nm) = Some (node, k)"
  shows "dentry_set H r p nm node k = r"
proof -
  obtain d where d: "get_dir r p = Some d" "dir_find H d (as_bytes nm) = Some (node, k)"
    using assms(2) by (auto simp: rep_find_def bind_eq_Some_conv)
  have "dir_wf H slots d" using assms(1) d(1) by (simp add: dirs_wf_def)
  from upsert_noop [OF this d(2)] show ?thesis
    using d put_dir_same [OF d(1)] by (simp add: dentry_set_def entries_add_def)
qed

lemma dentry_remove_find:
  assumes b: "base_ok H slots n r" and p: "get_dir r p \<noteq> None"
    and p': "get_node (dentry_remove H r p nm) p \<noteq> None"
  shows "rep_find H (dentry_remove H r p nm) p c = (if c = nm then None else rep_find H r p c)"
proof -
  obtain dir where dir: "get_dir r p = Some dir" using p by auto
  obtain dir' rm where u: "dir_remove H dir nm = (dir', rm)" by fastforce
  define r1 where "r1 = (case rm of Some _ \<Rightarrow> entries_add (put_dir r p dir') (- 1) | None \<Rightarrow> put_dir r p dir')"
  have "shrinks r1 (dentry_remove H r p nm)"
    using gc_shrinks(1) by (auto simp: dentry_remove_def dir u r1_def split: option.splits)
  note s = this
  have d1: "get_dir r1 p = Some dir'"
    using put_dir_keeps(6) [OF dir] by (simp add: r1_def get_dir_def split: option.splits)
  have "get_dir (dentry_remove H r p nm) p \<noteq> None" using shrinks_dir_node [OF s _ p'] d1 by simp
  then have "rep_find H (dentry_remove H r p nm) p c = rep_find H r1 p c" by (rule shrinks_find [OF s])
  moreover have wf: "dir_wf H slots dir" using b dir by (auto simp: base_ok_def dirs_wf_def)
  ultimately show ?thesis
    using dt.fnd_rem [OF wf, of nm c] u d1 dir by (simp add: rep_find_def)
qed

lemma dentry_remove_noop:
  assumes b: "base_ok H slots n r" and f: "rep_find H r p nm = None"
  shows "dentry_remove H r p nm = r"
proof (cases "get_dir r p")
  case None
  then show ?thesis by (simp add: dentry_remove_def)
next
  case (Some dir)
  have "dir_find H dir nm = None" using f Some by (simp add: rep_find_def)
  then have "dir_remove H dir nm = (dir, None)"
    by (auto simp: dir_find_def dir_remove_def Let_def split: option.splits)
  then show ?thesis using put_dir_same [OF Some] by (simp add: dentry_remove_def Some)
qed

lemma removed_twice:
  assumes "base_ok H slots n r"
  shows "dentry_remove H (dentry_remove H r p nm) p nm = dentry_remove H r p nm"
proof -
  let ?r = "dentry_remove H r p nm"
  have "rep_find H ?r p nm = None"
  proof (cases "get_dir r p = None \<or> get_node ?r p = None")
    case True
    have "get_dir r p = None \<Longrightarrow> ?r = r" by (simp add: dentry_remove_def)
    then show ?thesis using True by (cases "get_dir r p") (auto simp: rep_find_def get_dir_def)
  next
    case False
    then show ?thesis using dentry_remove_find [OF assms, of p nm nm] by simp
  qed
  from dentry_remove_noop [OF dentry_remove_ok(1) [OF assms] this] show ?thesis .
qed

text \<open>The state in which a creation sets its dentry, and what it leaves alone.\<close>

lemma created_before_dentry:
  assumes b: "base_ok H slots n r"
  obtains r1 k where "apply_rec H r (Created p nm node a) = (dentry_set H r1 p nm node k, Applied)"
    "k = (case a of Some a \<Rightarrow> attr_kind a | None \<Rightarrow> Reg)"
    "base_ok H slots n r1" "get_node r1 node \<noteq> None" "\<And>R X. debt R r1 X = debt R r X"
    "\<And>q. get_dir r q \<noteq> None \<Longrightarrow> get_dir r1 q \<noteq> None"
    "\<And>q c. get_dir r q \<noteq> None \<Longrightarrow> rep_find H r1 q c = rep_find H r q c"
    "get_node r node \<noteq> None \<Longrightarrow> (k = Dir \<longrightarrow> get_dir r node \<noteq> None) \<Longrightarrow> same_shape r r1"
    "k = Dir \<Longrightarrow> get_dir r1 node \<noteq> None"
proof -
  let ?k = "case a of Some a \<Rightarrow> attr_kind a | None \<Rightarrow> Reg"
  let ?a = "case a of Some a \<Rightarrow> a | None \<Rightarrow> placeholder_attr Reg"
  define r0 where "r0 = (if a = None \<and> get_node r node \<noteq> None then r else upsert_node H r node ?a p)"
  define r0' where "r0' = (if a = None then r0 else drain_pending r0 node)"
  define r1 where "r1 = (if ?k = Dir then mark_dir_complete r0' node else r0')"
  have e: "apply_rec H r (Created p nm node a) = (dentry_set H r1 p nm node ?k, Applied)"
    by (simp add: r0_def r0'_def r1_def rep_getattr_def Let_def split: option.splits)
  note u = upsert_node_ok [OF b, where key = node and a = ?a and parent = p]
  have k: "?k = attr_kind ?a" by (simp add: placeholder_attr_def split: option.splits)
  have b0: "base_ok H slots n r0" "get_node r0 node \<noteq> None" "\<And>R X. debt R r0 X = debt R r X"
    using b u(1-3) by (auto simp: r0_def)
  have g0: "get_dir r q \<noteq> None \<Longrightarrow> get_dir r0 q = get_dir r q" for q
    using u(5) by (auto simp: r0_def)
  have s0: "get_node r node \<noteq> None \<Longrightarrow> (?k = Dir \<longrightarrow> get_dir r node \<noteq> None) \<Longrightarrow> same_shape r r0"
    using upsert_node_same_shape [of r node _ ?a H p] k by (auto simp: r0_def get_dir_def)
  have s01: "same_shape r0 r1"
    using same_shape_drain_pending [of r0 node] same_shape_mark_dir_complete
      same_shape_trans [OF same_shape_drain_pending same_shape_mark_dir_complete]
    by (auto simp: r0'_def r1_def)
  have "fmap_size (rep_pending r1) \<le> fmap_size (rep_pending r0)"
    using pending_drain [of r0 node]
    by (auto simp: r0'_def r1_def mark_dir_complete_def put_dir_def split: option.splits)
  then have b1: "base_ok H slots n r1"
    by (intro base_ok_same_shape [OF b0(1) s01]) (use b0(1) in \<open>simp add: base_ok_def\<close>)
  have f1: "get_dir r q \<noteq> None \<Longrightarrow> rep_find H r1 q c = rep_find H r q c" for q c
    using rep_find_same_shape [OF s01] g0 by (simp add: rep_find_def)
  have d1: "get_dir r q \<noteq> None \<Longrightarrow> get_dir r1 q \<noteq> None" for q
    using same_shape_get_dir [OF s01] g0 by simp
  have dd: "get_dir r1 node \<noteq> None" if "?k = Dir"
  proof -
    have "a \<noteq> None" using that by (auto split: option.splits)
    then have "get_dir r0 node \<noteq> None" using u(5) [of node] that k by (auto simp: r0_def)
    then show ?thesis using same_shape_get_dir [OF s01] by simp
  qed
  show thesis
    by (rule that [OF e refl b1 _ _ d1 f1 _ dd])
      (use b0 s0 s01 same_shape_keeps(7,9) [OF s01] same_shape_trans in \<open>auto\<close>)
qed

lemma created_find:
  assumes b: "base_ok H slots (Suc n) r" and p: "get_dir r p \<noteq> None"
    and p': "get_node (fst (apply_rec H r (Created p nm node a))) p \<noteq> None"
  shows "rep_find H (fst (apply_rec H r (Created p nm node a))) p c =
    (if c = as_bytes nm then Some (node, created_kind a) else rep_find H r p c)"
proof -
  obtain r1 where e: "apply_rec H r (Created p nm node a) =
        (dentry_set H r1 p nm node (created_kind a), Applied)"
      and r1: "base_ok H slots (Suc n) r1" "get_node r1 node \<noteq> None" "get_dir r1 p \<noteq> None"
        "rep_find H r1 p c = rep_find H r p c"
    using created_before_dentry [OF b, of p nm node a] p by (metis created_kind_def)
  show ?thesis
    using dentry_set_find [OF r1(1-3)] p' r1(4) unfolding e by simp
qed

lemma created_dir_table:
  assumes b: "base_ok H slots n r" and k: "created_kind a = Dir"
    and node': "get_node (fst (apply_rec H r (Created p nm node a))) node \<noteq> None"
  shows "get_dir (fst (apply_rec H r (Created p nm node a))) node \<noteq> None"
proof -
  obtain r1 where e: "apply_rec H r (Created p nm node a) =
        (dentry_set H r1 p nm node (created_kind a), Applied)" and r1: "get_dir r1 node \<noteq> None"
    using created_before_dentry [OF b, of p nm node a] k by (metis created_kind_def)
  show ?thesis using dentry_set_keeps_dir [OF r1] node' unfolding e by simp
qed

text \<open>Applying a creation a second time leaves links, dentries, cookies and counters as they are.\<close>

lemma created_twice:
  fixes nm :: name and node :: node_key and a :: "attr option"
  assumes b: "base_ok H slots (Suc n) r" and d: "debt (\<le>) r {#}" and p: "get_dir r p \<noteq> None"
  defines "r' \<equiv> fst (apply_rec H r (Created p nm node a))"
  assumes p': "get_node r' p \<noteq> None"
  shows "same_shape r' (fst (apply_rec H r' (Created p nm node a)))"
proof -
  have w: "base_ok H slots (rec_weight (Created p nm node a) + n) r" using b by simp
  have b': "base_ok H slots n r'" "debt (\<le>) r' {#}"
    using apply_rec_ok(1) [OF w] apply_rec_ok(2) [OF w, of "(\<le>)"] d by (simp_all add: r'_def link_rel_def del: apply_rec.simps)
  have f: "rep_find H r' p (as_bytes nm) = Some (node, created_kind a)"
    using created_find [OF b p, of nm node a] p' by (simp add: r'_def del: apply_rec.simps)
  have dw: "dirs_wf H slots r'" using b'(1) by (simp add: base_ok_def)
  obtain dd x where x: "get_dir r' p = Some dd" "x \<in> set (dents dd)" "dt_node x = node"
    using rep_find_mem [OF dw f] .
  have node': "get_node r' node \<noteq> None" using dents_ref(1) [OF b'(2) x(1,2)] x(3) by simp
  obtain r1 where e: "apply_rec H r' (Created p nm node a) =
        (dentry_set H r1 p nm node (created_kind a), Applied)"
      and r1: "base_ok H slots n r1" "rep_find H r1 p (as_bytes nm) = rep_find H r' p (as_bytes nm)"
        "(created_kind a = Dir \<longrightarrow> get_dir r' node \<noteq> None) \<Longrightarrow> same_shape r' r1"
    using created_before_dentry [OF b'(1), of p nm node a] x(1) node' by (metis created_kind_def option.discI)
  have "dentry_set H r1 p nm node (created_kind a) = r1"
    by (rule dentry_set_noop) (use r1 f in \<open>simp_all add: base_ok_def\<close>)
  then show ?thesis
    using r1(3) created_dir_table [OF b, of a p nm node] node' unfolding e by (simp add: r'_def)
qed

lemma renamed_find:
  assumes b: "base_ok H slots (Suc n) r"
    and src: "rep_find H r p (as_bytes nm) = Some (node, k)" and q: "get_dir r q \<noteq> None"
    and q': "get_node (fst (apply_rec H r (Renamed p nm q nm'))) q \<noteq> None"
  shows "rep_find H (fst (apply_rec H r (Renamed p nm q nm'))) q (as_bytes nm') = Some (node, k)"
    and "get_node (fst (apply_rec H r (Renamed p nm q nm'))) p \<noteq> None \<Longrightarrow> (p, nm) \<noteq> (q, nm') \<Longrightarrow>
      rep_find H (fst (apply_rec H r (Renamed p nm q nm'))) p (as_bytes nm) = None"
proof -
  obtain dir where dir: "get_dir r p = Some dir" "dir_find H dir (as_bytes nm) = Some (node, k)"
    using src by (auto simp: rep_find_def bind_eq_Some_conv)
  have wf: "dir_wf H slots dir" "dir_room (Suc n) dir"
    using b dir by (auto simp: base_ok_def dirs_wf_def roomy_def)
  obtain dir' where dir': "dir_remove H dir (as_bytes nm) = (dir', Some node)"
    using dir(2) by (auto simp: dir_find_def dir_remove_def Let_def split: option.splits)
  define r1 where "r1 = entries_add (put_dir r p dir') (- 1)"
  note t = remove_dir_ok [OF b dir(1) dir', folded r1_def]
  have take_eq: "dentry_take H r p (as_bytes nm) = (r1, Some (node, k))"
    by (simp add: dentry_take_def dir dir' r1_def)
  have "get_dir r1 q \<noteq> None" using t(6) [of q] q by simp
  then obtain dq where dq: "get_dir r1 q = Some dq" by auto
  obtain dq' u where u: "upsert H dq nm' node k = (dq', u)" by fastforce
  define r2 where "r2 = entries_add (put_dir r1 q dq') (dentry_delta u)"
  define r3 where "r3 = (case displaced u of Some old \<Rightarrow> link_dec r2 old | None \<Rightarrow> r2)"
  note o = upsert_dir_ok [OF t(1) dq u, folded r2_def]
  let ?r4 = "case get_node r3 node of Some n \<Rightarrow> put_node r3 node (set_parent n q) | None \<Rightarrow> r3"
  have e: "fst (apply_rec H r (Renamed p nm q nm')) = ?r4"
    unfolding r2_def r3_def by (simp add: take_eq dentry_relink_def dq u Let_def)
  note s4 = same_shape_set_parent [of r3 node q]
  have sh: "shrinks r2 r3" using gc_shrinks(1) by (auto simp: r3_def split: option.splits)
  have find4: "rep_find H ?r4 j c = rep_find H r2 j c"
    if "get_node ?r4 j \<noteq> None" "get_dir r2 j \<noteq> None" for j c
  proof -
    have "get_node r3 j \<noteq> None" using that(1) same_shape_keeps(9) [OF s4] by simp
    then have "get_dir r3 j \<noteq> None" using shrinks_dir_node [OF sh that(2)] by blast
    then show ?thesis using rep_find_same_shape [OF s4] shrinks_find [OF sh] by simp
  qed
  have wq: "dir_wf H slots dq" "dir_room 1 dq"
    using t(1) dq by (auto simp: base_ok_def dirs_wf_def roomy_def intro: dir_room_less [of n])
  have fq: "dir_find H dq' c = (if c = as_bytes nm' then Some (node, k) else dir_find H dq c)" for c
    using dt.fnd_ups [OF wq, of nm' node k c] u by simp
  show "rep_find H (fst (apply_rec H r (Renamed p nm q nm'))) q (as_bytes nm') = Some (node, k)"
    using find4 [of q] q' fq o(6) [of q] unfolding e by (simp add: rep_find_def)
  show "rep_find H (fst (apply_rec H r (Renamed p nm q nm'))) p (as_bytes nm) = None"
    if "get_node (fst (apply_rec H r (Renamed p nm q nm'))) p \<noteq> None" "(p, nm) \<noteq> (q, nm')"
  proof -
    have gone: "dir_find H dir' (as_bytes nm) = None"
      using dt.fnd_rem [OF wf(1), of "as_bytes nm" "as_bytes nm"] dir' by simp
    have "rep_find H r2 p (as_bytes nm) = None"
    proof (cases "p = q")
      case True
      then have "as_bytes nm \<noteq> as_bytes nm'" using that(2) by (simp add: as_bytes_inject)
      then show ?thesis using True fq o(6) [of q] t(6) [of q] dq gone by (simp add: rep_find_def)
    next
      case False
      then show ?thesis using o(6) [of p] t(6) [of p] gone by (simp add: rep_find_def)
    qed
    moreover have "get_dir r2 p \<noteq> None" using o(6) [of p] t(6) [of p] by simp
    ultimately show ?thesis using find4 [of p] that(1) unfolding e by simp
  qed
qed

text \<open>The dentries of a snapshot record are found in the directory it describes.\<close>

lemma snap_dentries_find:
  assumes "dir_wf H slots dir" "dir_room (length es) dir" "distinct (map se_name es)"
    and "snap_dentries H es dir r L U = (dir', r', L', U')"
  shows "dir_find H dir' b =
    (case find (\<lambda>e. as_bytes (se_name e) = b) es of
       Some e \<Rightarrow> Some (se_node e, attr_kind (se_attr e)) | None \<Rightarrow> dir_find H dir b)"
  using assms
proof (induction es arbitrary: dir r L U)
  case (Cons e es)
  obtain d1 u where u: "upsert H dir (se_name e) (se_node e) (attr_kind (se_attr e)) = (d1, u)"
    by fastforce
  have room: "dir_room (Suc (length es)) dir" using Cons.prems(2) by simp
  note uw = upsert_wf [OF Cons.prems(1) room u]
  have room1: "dir_room 1 dir" using room dir_room_less [of "length es" 1 dir] by simp
  have f1: "dir_find H d1 b = (if b = as_bytes (se_name e) then Some (se_node e, attr_kind (se_attr e))
      else dir_find H dir b)"
    using dt.fnd_ups [OF Cons.prems(1) room1, of "se_name e" "se_node e" "attr_kind (se_attr e)" b] u by simp
  have none: "find (\<lambda>x. as_bytes (se_name x) = as_bytes (se_name e)) es = None"
    unfolding find_None_iff as_bytes_inject using Cons.prems(3) by (force simp: image_iff)
  obtain r1 L1 U1 where sn: "snap_dentries H es d1 r1 L1 U1 = (dir', r', L', U')"
    using Cons.prems(4) unfolding snap_dentries.simps u Let_def by auto
  have "distinct (map se_name es)" using Cons.prems(3) by simp
  note ih = Cons.IH [OF uw(1) uw(4) this sn]
  show ?case
  proof (cases "b = as_bytes (se_name e)")
    case True
    then show ?thesis using ih f1 none by simp
  next
    case False
    then have "as_bytes (se_name e) \<noteq> b" by simp
    then show ?thesis using ih f1 False by (simp split: option.split)
  qed
qed simp

end

lemma link_incs_dir: "get_dir (fold (\<lambda>k r. link_inc r k) L r) j = get_dir r j"
proof (induction L arbitrary: r)
  case (Cons k L)
  have "get_dir (link_inc r k) j = get_dir r j"
    by (auto simp: link_inc_def get_dir_def split: option.splits)
  then show ?case using Cons by simp
qed simp

lemma link_decs_shrinks: "shrinks r (fold (\<lambda>k r. link_dec r k) U r)"
proof (induction U arbitrary: r)
  case (Cons k U)
  show ?case using shrinks_trans [OF gc_shrinks(1) Cons.IH] by simp
qed simp

section \<open>The root\<close>

definition keeps_root :: "'t share_replica \<Rightarrow> 't share_replica \<Rightarrow> bool" where
  "keeps_root r r' \<longleftrightarrow> rep_info r' = rep_info r
     \<and> (get_node r (replica_root r) \<noteq> None \<longrightarrow> get_node r' (replica_root r) \<noteq> None)"

named_theorems root_intros

lemma keeps_root_refl [simp]: "keeps_root r r"
  by (simp add: keeps_root_def)

lemma keeps_root_trans [trans]: "keeps_root r r' \<Longrightarrow> keeps_root r' r'' \<Longrightarrow> keeps_root r r''"
  by (simp add: keeps_root_def replica_root_def)

lemma keeps_root_shape: "same_shape r r' \<Longrightarrow> keeps_root r r'"
  using same_shape_keeps(9) [of r r'] by (simp add: keeps_root_def same_shape_def)

lemma keeps_root_upsert_node: "keeps_root r (upsert_node H r key a p)"
proof -
  obtain r1 side where ns: "note_side r key a = (r1, side)" by fastforce
  have "rep_shards r1 = rep_shards r" "rep_info r1 = rep_info r"
    using note_side_shards [of r key a] by (simp_all add: ns same_shape_def)
  then show ?thesis by (auto simp: keeps_root_def upsert_node_def ns Let_def split: option.splits)
qed

text \<open>Each operation, applied after steps that keep the root.\<close>

lemma keeps_root_ops [root_intros]:
  assumes "keeps_root r q"
  shows "keeps_root r (entries_add q i)" "keeps_root r (put_dir q p d)" "keeps_root r (link_inc q k)"
    "keeps_root r (link_dec q k)" "keeps_root r (upsert_node H q key a parent)"
    "keeps_root r (drain_pending q k)" "keeps_root r (mark_dir_complete q k)"
    "keeps_root r (stash_pending q k z)" "keeps_root r (fst (update_attr q k a))"
    "keeps_root r (fst (update_content q k v sz t))"
    "keeps_root r (case get_node q k of Some n \<Rightarrow> put_node q k (set_parent n p) | None \<Rightarrow> q)"
proof -
  have "keeps_root q (entries_add q i)" by (simp add: keeps_root_def entries_add_def)
  moreover have "keeps_root q (put_dir q p d)" by (simp add: keeps_root_def put_dir_def split: option.splits)
  moreover have "keeps_root q (link_inc q k)" by (simp add: keeps_root_def link_inc_def split: option.splits)
  moreover have "keeps_root q (link_dec q k)"
    using gc_root(1) [of q k] gc_shrinks(1) [of q k] by (simp add: keeps_root_def shrinks_def)
  ultimately show "keeps_root r (entries_add q i)" "keeps_root r (put_dir q p d)" "keeps_root r (link_inc q k)"
    "keeps_root r (link_dec q k)"
    using keeps_root_trans [OF assms] by blast+
  show "keeps_root r (upsert_node H q key a parent)"
    by (rule keeps_root_trans [OF assms keeps_root_upsert_node])
  show "keeps_root r (drain_pending q k)" "keeps_root r (mark_dir_complete q k)"
    "keeps_root r (stash_pending q k z)" "keeps_root r (fst (update_attr q k a))"
    "keeps_root r (fst (update_content q k v sz t))"
    "keeps_root r (case get_node q k of Some n \<Rightarrow> put_node q k (set_parent n p) | None \<Rightarrow> q)"
    by (rule keeps_root_trans [OF assms keeps_root_shape], rule same_shape_drain_pending
        same_shape_mark_dir_complete same_shape_stash_pending same_shape_update_attr
        same_shape_update_content same_shape_set_parent)+
qed

lemma keeps_root_dentry_set [root_intros]:
  "keeps_root r q \<Longrightarrow> keeps_root r (dentry_set H q p nm node k)"
  unfolding dentry_set_def Let_def by (auto split: option.splits prod.splits intro!: root_intros)

lemma keeps_root_dentry_remove: "keeps_root r (dentry_remove H r p nm)"
  unfolding dentry_remove_def Let_def by (auto split: option.splits prod.splits intro!: root_intros)

lemma keeps_root_dentry_take: "keeps_root r (fst (dentry_take H r p nm))"
  unfolding dentry_take_def Let_def by (auto split: option.splits prod.splits intro!: root_intros)

lemma keeps_root_dentry_relink: "keeps_root r (dentry_relink H r p nm node k)"
proof (cases "get_dir r p")
  case None
  then show ?thesis by (simp add: dentry_relink_def)
next
  case (Some dir)
  obtain dir' u where u: "upsert H dir nm node k = (dir', u)" by fastforce
  define r1 where "r1 = entries_add (put_dir r p dir') (dentry_delta u)"
  define r2 where "r2 = (case displaced u of Some old \<Rightarrow> link_dec r1 old | None \<Rightarrow> r1)"
  have e: "dentry_relink H r p nm node k =
      (case get_node r2 node of Some n \<Rightarrow> put_node r2 node (set_parent n p) | None \<Rightarrow> r2)"
    unfolding r1_def r2_def by (simp add: dentry_relink_def Some u Let_def)
  have "keeps_root r r2"
    unfolding r1_def r2_def by (auto split: option.splits intro!: root_intros)
  then show ?thesis unfolding e by (rule root_intros)
qed

lemma keeps_root_created_entry [root_intros]:
  "keeps_root r q \<Longrightarrow> keeps_root r (created_entry H p e q)"
  by (auto simp: created_entry_def Let_def intro!: root_intros)

lemma keeps_root_created_batch: "keeps_root r q \<Longrightarrow> keeps_root r (fold (created_entry H p) es q)"
proof (induction es arbitrary: q)
  case (Cons e es)
  then show ?case using Cons.IH [OF keeps_root_created_entry [OF Cons.prems]] by simp
qed simp

lemma keeps_root_force_remove:
  assumes "key \<noteq> replica_root r"
  shows "keeps_root r (force_remove r key)"
proof -
  let ?q = "case get_node r key of Some n \<Rightarrow> put_node r key (n\<lparr>n_links := 0\<rparr>) | None \<Rightarrow> r"
  have q: "keeps_root r ?q" by (simp add: keeps_root_def split: option.splits)
  have "replica_root ?q = replica_root r" by (simp add: replica_root_def split: option.splits)
  then have "keeps_root ?q (remove_node ?q key)"
    using gc_root(2) [of key ?q] gc_shrinks(2) [of ?q key] assms by (simp add: keeps_root_def shrinks_def)
  then show ?thesis using keeps_root_trans [OF q] by (simp add: force_remove_def Let_def)
qed

lemma keeps_root_apply_rec: "keeps_root r (fst (apply_rec H r c))"
proof (cases c)
  case (Created p nm node a)
  then show ?thesis by (auto simp: Let_def split: option.splits sum.splits intro!: root_intros)
next
  case (CreatedBatch p es)
  then show ?thesis by (simp add: keeps_root_created_batch)
next
  case (Removed p nm)
  then show ?thesis by (simp add: keeps_root_dentry_remove)
next
  case (Renamed p nm q nm')
  obtain r1 t where t: "dentry_take H r p (as_bytes nm) = (r1, t)" by fastforce
  then have "keeps_root r r1" using keeps_root_dentry_take [of r H p "as_bytes nm"] by simp
  then show ?thesis
    using Renamed t keeps_root_trans [OF _ keeps_root_dentry_relink] by (auto split: option.splits)
next
  case (AttrChanged node a)
  obtain r1 ok where u: "update_attr r node a = (r1, ok)" by fastforce
  then have "keeps_root r r1" using root_intros(9) [OF keeps_root_refl, of r node a] by simp
  then show ?thesis using AttrChanged u by (cases ok) (auto intro!: root_intros)
next
  case (Content node v sz t ip)
  obtain r1 ok where u: "update_content r node v sz t = (r1, ok)" by fastforce
  then have "keeps_root r r1" using root_intros(10) [OF keeps_root_refl, of r node v sz t] by simp
  then show ?thesis using Content u by (cases ok) (auto intro!: root_intros)
next
  case (SelfRemoved node)
  then show ?thesis by (simp add: keeps_root_force_remove)
qed simp_all

section \<open>Properties of the replica\<close>

text \<open>
  C1. In every reachable state the three counters are exact (as 64-bit words): the nodes, the
  directories and the live dentries of the table. The recount at the end of a snapshot
  therefore returns the statistics unchanged.
\<close>

theorem replica_counters_exact:
  assumes "hash_index H slots" "reachable H info any_rec r"
  shows "rep_nodes r = of_nat (fmap_size (rep_shards r)) \<and> rep_dirs r = of_nat (total_dirs r)
    \<and> rep_entries r = of_nat (fmap_sum node_live_len (rep_shards r))
    \<and> snd (finish_snapshot r) = replica_stats r"
proof -
  have b: "dirs_wf H slots r" "counters_ok r"
    using hash_index.reachable_base [OF assms] by (simp_all add: base_ok_def)
  then show ?thesis
    using finish_snapshot_recount(2) [OF b] finish_total [OF b(1)]
    by (simp add: counters_ok_def err_defs)
qed

theorem replica_counters_exact_witness:
  "snd (finish_snapshot sample_rep) = replica_stats sample_rep \<and> rep_nodes sample_rep = 3"
proof
  show "snd (finish_snapshot sample_rep) = replica_stats sample_rep"
    using replica_counters_exact [OF list_index.hash_index_axioms sample_reachable] by (elim conjE)
  show "rep_nodes sample_rep = 3" by code_simp
qed

text \<open>
  C4. Without forced removals no dentry dangles: every entry a directory lists resolves, by
  lookup, to the node the entry names.
\<close>

theorem replica_no_dangling:
  assumes "hash_index H slots" "reachable H info (not_forced H) r"
    and "get_dir r p = Some d" "x \<in> set (dents d)"
  shows "\<exists>a. rep_lookup H r p (dt_name x) = Ok (dt_node x, a)"
proof -
  have b: "base_ok H slots 0 r" and db: "debt (\<le>) r {#}"
    using hash_index.reachable_base [OF assms(1,2)] hash_index.reachable_debt [OF assms(1,2), of "(\<le>)"]
    by (auto simp: link_rel_def not_forced_def)
  have wf: "dir_wf H slots d" using b assms(3) by (simp add: base_ok_def dirs_wf_def)
  have "dir_find H d (dt_name x) = Some (dt_node x, dt_kind x)"
    using hash_index.dir_find_refines [OF assms(1) wf] ls_find_Some_distinct [OF dir_wfD(4) [OF wf]] assms(4)
    by auto
  then have "rep_find H r p (dt_name x) = Some (dt_node x, dt_kind x)"
    using assms(3) by (simp add: rep_find_def)
  from rep_lookup_find [OF this dents_ref(1) [OF db assms(3,4)]] show ?thesis by blast
qed

theorem replica_no_dangling_witness:
  "\<exists>a. rep_lookup list_index sample_rep (nk 2) [97] = Ok (nk 10, a)"
proof -
  let ?d = "the (get_dir sample_rep (nk 2))" and ?x = "\<lparr>dt_cookie = 3, dt_name = [97], dt_node = nk 10, dt_kind = Reg\<rparr>"
  have "get_dir sample_rep (nk 2) \<noteq> None \<and> ?x \<in> set (dents ?d)" by code_simp
  then have "get_dir sample_rep (nk 2) = Some ?d" "?x \<in> set (dents ?d)" by auto
  from replica_no_dangling [OF list_index.hash_index_axioms sample_reachable this] show ?thesis by simp
qed



lemma created_resolves:
  assumes H: "hash_index H slots" and re: "reachable H info (not_forced H) r"
    and rm: "roomy 1 r" and p: "get_dir r p \<noteq> None"
    and p': "get_node (fst (apply_rec H r (Created p nm node a))) p \<noteq> None"
  shows "rep_find H (fst (apply_rec H r (Created p nm node a))) p (as_bytes nm) = Some (node, created_kind a)"
    and "get_node (fst (apply_rec H r (Created p nm node a))) node \<noteq> None"
proof -
  let ?r = "fst (apply_rec H r (Created p nm node a))"
  have b: "base_ok H slots (Suc 0) r"
    using hash_index.reachable_base [OF H re] rm by (simp add: base_ok_def)
  have db: "debt (\<le>) r {#}"
    using hash_index.reachable_debt [OF H re, of "(\<le>)"] by (auto simp: link_rel_def not_forced_def)
  have w: "base_ok H slots (rec_weight (Created p nm node a) + 0) r" using b by simp
  have b': "base_ok H slots 0 ?r" "debt (\<le>) ?r {#}"
    using hash_index.apply_rec_ok(1,2) [OF H w] db by (simp_all add: link_rel_def del: apply_rec.simps)
  show f: "rep_find H ?r p (as_bytes nm) = Some (node, created_kind a)"
    using hash_index.created_find [OF H b p p', of "as_bytes nm"] by simp
  have dw: "dirs_wf H slots ?r" using b'(1) by (simp add: base_ok_def)
  obtain d x where "get_dir ?r p = Some d" "x \<in> set (dents d)" "dt_node x = node"
    using hash_index.rep_find_mem [OF H dw f] .
  then show "get_node ?r node \<noteq> None" using dents_ref(1) [OF b'(2)] by metis
qed



text \<open>
  C17. Creation is idempotent on the tree: applying the same \<^verbatim>\<open>Created\<close> record again changes no
  dentry, no cookie, no directory generation, no link count and no counter.
\<close>

theorem replica_created_idempotent:
  assumes "hash_index H slots" "reachable H info (not_forced H) r"
    and "roomy 1 r" "get_dir r p \<noteq> None"
    and "r' = fst (apply_rec H r (Created p nm node a))" "get_node r' p \<noteq> None"
  shows "same_shape r' (fst (apply_rec H r' (Created p nm node a)))"
proof -
  have b: "base_ok H slots (Suc 0) r"
    using hash_index.reachable_base [OF assms(1,2)] assms(3) by (simp add: base_ok_def)
  have db: "debt (\<le>) r {#}"
    using hash_index.reachable_debt [OF assms(1,2), of "(\<le>)"] by (auto simp: link_rel_def not_forced_def)
  show ?thesis
    unfolding assms(5) by (rule hash_index.created_twice [OF assms(1) b db assms(4)]) (use assms(5,6) in simp)
qed

theorem replica_created_idempotent_witness:
  "let r' = fst (apply_rec list_index sample_rep (Created (nk 2) name_ab (nk 12) (Some file_attr)))
   in same_shape r' (fst (apply_rec list_index r' (Created (nk 2) name_ab (nk 12) (Some file_attr))))"
proof -
  let ?r = "fst (apply_rec list_index sample_rep (Created (nk 2) name_ab (nk 12) (Some file_attr)))"
  have "get_dir sample_rep (nk 2) \<noteq> None \<and> get_node ?r (nk 2) \<noteq> None" by code_simp
  then have h: "get_dir sample_rep (nk 2) \<noteq> None" "get_node ?r (nk 2) \<noteq> None" by blast+
  have "roomy 1 sample_rep" by (rule sample_roomy) simp
  from replica_created_idempotent [OF list_index.hash_index_axioms sample_reachable this h(1) refl h(2)]
  show ?thesis unfolding Let_def .
qed

text \<open>
  C18. A removed entry is gone: after \<^verbatim>\<open>Removed\<close> the name no longer resolves, the other names of
  the directory do as before, and a second application changes nothing at all.
\<close>

theorem replica_removed:
  assumes "hash_index H slots" "reachable H info any_rec r"
    and "get_dir r p \<noteq> None" "r' = fst (apply_rec H r (Removed p nm))" "get_node r' p \<noteq> None"
  shows "rep_lookup H r' p (as_bytes nm) = Err ReNoEnt
    \<and> (\<forall>b. b \<noteq> as_bytes nm \<longrightarrow> rep_find H r' p b = rep_find H r p b)
    \<and> apply_rec H r' (Removed p nm) = (r', Applied)"
proof -
  have b: "base_ok H slots 0 r" using hash_index.reachable_base [OF assms(1,2)] by simp
  have r': "r' = dentry_remove H r p (as_bytes nm)" by (simp add: assms(4))
  note f = hash_index.dentry_remove_find [OF assms(1) b assms(3), of "as_bytes nm", folded r', OF assms(5)]
  have "get_dir r' p \<noteq> None"
  proof -
    obtain dir where dir: "get_dir r p = Some dir" using assms(3) by auto
    obtain dir' rm where u: "dir_remove H dir (as_bytes nm) = (dir', rm)" by fastforce
    let ?r1 = "case rm of Some _ \<Rightarrow> entries_add (put_dir r p dir') (- 1) | None \<Rightarrow> put_dir r p dir'"
    have "shrinks ?r1 r'"
      using gc_shrinks(1) by (auto simp: r' dentry_remove_def dir u split: option.splits)
    moreover have "get_dir ?r1 p \<noteq> None"
      using put_dir_keeps(6) [OF dir] by (simp add: get_dir_def split: option.splits)
    ultimately show ?thesis using shrinks_dir_node assms(5) by blast
  qed
  then have "rep_lookup H r' p (as_bytes nm) = Err ReNoEnt"
    using rep_lookup_none [of H r' p "as_bytes nm"] f [of "as_bytes nm"] by simp
  moreover have "apply_rec H r' (Removed p nm) = (r', Applied)"
    using hash_index.removed_twice [OF assms(1) b, of p "as_bytes nm"] by (simp add: r')
  ultimately show ?thesis using f by simp
qed

theorem replica_removed_witness:
  "rep_lookup list_index (fst (apply_rec list_index sample_rep (Removed (nk 2) name_b))) (nk 2) [98] =
    Err ReNoEnt"
proof -
  let ?r = "fst (apply_rec list_index sample_rep (Removed (nk 2) name_b))"
  have "get_dir sample_rep (nk 2) \<noteq> None \<and> get_node ?r (nk 2) \<noteq> None" by code_simp
  then have h: "get_dir sample_rep (nk 2) \<noteq> None" "get_node ?r (nk 2) \<noteq> None" by blast+
  from replica_removed [OF list_index.hash_index_axioms sample_reachable h(1) refl h(2)]
  show ?thesis by (simp del: apply_rec.simps)
qed

text \<open>
  C19. A rename moves the dentry: the destination name resolves to the node and kind the source
  name had, and the source name resolves to nothing.
\<close>

theorem replica_renamed:
  assumes "hash_index H slots" "reachable H info any_rec r" "roomy 1 r"
    and "rep_find H r p (as_bytes nm) = Some (node, k)" "get_dir r q \<noteq> None" "(p, nm) \<noteq> (q, nm')"
    and "r' = fst (apply_rec H r (Renamed p nm q nm'))" "get_node r' p \<noteq> None" "get_node r' q \<noteq> None"
  shows "rep_find H r' q (as_bytes nm') = Some (node, k) \<and> rep_find H r' p (as_bytes nm) = None"
proof -
  have b: "base_ok H slots (Suc 0) r"
    using hash_index.reachable_base [OF assms(1,2)] assms(3) by (simp add: base_ok_def)
  show ?thesis
    using hash_index.renamed_find [OF assms(1) b assms(4,5), of nm'] assms(6-9) by simp
qed

theorem replica_renamed_witness:
  "rep_find list_index (fst (apply_rec list_index sample_rep (Renamed (nk 2) name_a (nk 11) name_ab)))
     (nk 11) [97, 98] = Some (nk 10, Reg)"
proof -
  let ?r = "fst (apply_rec list_index sample_rep (Renamed (nk 2) name_a (nk 11) name_ab))"
  have c: "rep_find list_index sample_rep (nk 2) (as_bytes name_a) = Some (nk 10, Reg)
      \<and> get_dir sample_rep (nk 11) \<noteq> None \<and> (nk 2, name_a) \<noteq> (nk 11, name_ab)
      \<and> get_node ?r (nk 2) \<noteq> None \<and> get_node ?r (nk 11) \<noteq> None"
    by code_simp
  have "roomy 1 sample_rep" by (rule sample_roomy) simp
  from replica_renamed [OF list_index.hash_index_axioms sample_reachable this _ _ _ refl,
      of "nk 2" name_a "nk 10" Reg "nk 11" name_ab] c
  show ?thesis by (simp del: apply_rec.simps)
qed



text \<open>
  The root is never collected: once it is in the table, every journal record leaves it there.
\<close>

theorem replica_root_stays:
  assumes "get_node r (replica_root r) \<noteq> None"
  shows "get_node (fst (apply_rec H r c)) (replica_root r) \<noteq> None
    \<and> replica_root (fst (apply_rec H r c)) = replica_root r"
  using keeps_root_apply_rec [of r H c] assms by (simp add: keeps_root_def replica_root_def)

theorem replica_root_stays_witness:
  "get_node (fst (apply_rec list_index sample_rep (SelfRemoved (nk 2)))) (replica_root sample_rep) \<noteq> None"
proof -
  have "get_node sample_rep (replica_root sample_rep) \<noteq> None" by code_simp
  from replica_root_stays [OF this, of list_index "SelfRemoved (nk 2)"] show ?thesis by blast
qed



text \<open>An attribute record as the guest builds them.\<close>

definition attr_regular :: "attr \<Rightarrow> bool" where
  "attr_regular a \<longleftrightarrow> (attr_symlink_target a \<noteq> None \<longleftrightarrow> attr_kind a = Symlink)
     \<and> (attr_rdev a \<noteq> 0 \<longleftrightarrow> attr_kind a = Chr \<or> attr_kind a = Blk)"

text \<open>
  Attributes read back: after \<^verbatim>\<open>AttrChanged\<close> on a known node, \<^verbatim>\<open>getattr\<close> returns the attributes
  of the record, except that the content version, which only content records move, is kept.
  The record is one as the guest builds them: a link target exactly on symbolic links and a
  device number exactly on devices.
\<close>

theorem replica_attr_changed:
  assumes "get_node r node = Some n" "attr_regular a"
  shows "rep_getattr (fst (apply_rec H r (AttrChanged node a))) node =
      Ok (a\<lparr>attr_content_version := n_content_version n\<rparr>)
    \<and> snd (apply_rec H r (AttrChanged node a)) = Applied"
proof -
  obtain r1 side where ns: "note_side r node a = (r1, side)" by fastforce
  have r1: "rep_shards r1 = rep_shards r"
      "attr_kind a = Symlink \<Longrightarrow> fmlookup (rep_symlinks r1) node = attr_symlink_target a"
      "attr_kind a = Chr \<or> attr_kind a = Blk \<Longrightarrow> fmlookup (rep_rdevs r1) node = Some (attr_rdev a)"
      "attr_kind a = Symlink \<or> attr_kind a = Chr \<or> attr_kind a = Blk \<Longrightarrow> side"
    using ns assms(2) note_side_shards(1) [of r node a]
    by (auto simp: note_side_def attr_regular_def split: option.splits if_splits)
  let ?n = "(set_attr n a)\<lparr>n_has_side := n_has_side (set_attr n a) \<or> side\<rparr>"
  have u: "update_attr r node a = (put_node r1 node ?n, True)"
    using assms(1) r1(1) by (simp add: update_attr_def ns Let_def)
  have na: "node_attr ?n = a\<lparr>attr_content_version := n_content_version n, attr_rdev := 0,
      attr_symlink_target := None\<rparr>"
    by (cases a) (simp add: node_attr_def set_attr_def)
  have "graft_side (put_node r1 node ?n) node (n_has_side ?n) (node_attr ?n) =
      a\<lparr>attr_content_version := n_content_version n\<rparr>"
    unfolding na using r1(2-4) assms(2)
    by (cases a; cases "attr_kind a") (auto simp: graft_side_def attr_regular_def)
  then show ?thesis by (simp add: u rep_getattr_def)
qed

theorem replica_attr_changed_witness:
  "rep_getattr (fst (apply_rec list_index sample_rep (AttrChanged (nk 10) (file_attr\<lparr>attr_size := 7\<rparr>)))) (nk 10) =
    Ok (file_attr\<lparr>attr_size := 7\<rparr>)"
proof -
  let ?n = "the (get_node sample_rep (nk 10))"
  have c: "get_node sample_rep (nk 10) \<noteq> None \<and> n_content_version ?n = 0" by code_simp
  then have n: "get_node sample_rep (nk 10) = Some ?n" by auto
  have a: "attr_regular (file_attr\<lparr>attr_size := 7\<rparr>)"
    by (simp add: attr_regular_def file_attr_def placeholder_attr_def)
  show ?thesis
    using replica_attr_changed [OF n a, of list_index] c
    by (simp add: file_attr_def placeholder_attr_def del: apply_rec.simps)
qed

text \<open>
  The stash of records that arrive before their node is bounded in the number of nodes it
  holds records for.
\<close>

theorem replica_pending_bounded:
  assumes "hash_index H slots" "reachable H info any_rec r"
  shows "fmap_size (rep_pending r) \<le> 65536"
  using hash_index.reachable_base [OF assms] by (simp add: base_ok_def MAX_PENDING_def)

theorem replica_pending_bounded_witness: "fmap_size (rep_pending sample_rep) \<le> 65536"
  by (rule replica_pending_bounded [OF list_index.hash_index_axioms sample_reachable])

text \<open>
  C22. It is not bounded in the number of records: a stream of \<open>n\<close> attribute records for one
  unknown node leaves all \<open>n\<close> of them stashed, for every \<open>n\<close>.
\<close>

theorem replica_pending_records_unbounded:
  assumes "get_node r node = None" "rep_pending r = fmempty" "attr_rdev a = 0" "attr_symlink_target a = None"
  shows "fmlookup (rep_pending (fold (\<lambda>c r. fst (apply_rec H r c)) (replicate (Suc n) (AttrChanged node a)) r))
    node = Some (replicate (Suc n) (PendAttr a))"
proof -
  define st where "st m = r\<lparr>rep_pending := (if m = 0 then fmempty else fmupd node (replicate m (PendAttr a)) fmempty)\<rparr>" for m
  have ns: "note_side (st m) node a = (st m, False)" for m
    using assms(3,4) by (simp add: note_side_def)
  have upd: "fmupd node x (fmupd node y fmempty) = fmupd node x fmempty" for x y :: "pending list"
    by (rule fmap_ext) simp
  have step: "fst (apply_rec H (st m) (AttrChanged node a)) = st (Suc m)" for m
  proof -
    have "fst (apply_rec H (st m) (AttrChanged node a)) = stash_pending (st m) node (PendAttr a)"
      using assms(1) by (simp add: update_attr_def ns) (simp add: st_def)
    also have "\<dots> = st (Suc m)"
      by (simp add: stash_pending_def st_def Let_def MAX_PENDING_def fmap_size_upd upd replicate_append_same)
    finally show ?thesis .
  qed
  have "fold (\<lambda>c r. fst (apply_rec H r c)) (replicate k (AttrChanged node a)) (st m) = st (m + k)" for k m
    by (induction k arbitrary: m) (simp_all add: step del: apply_rec.simps)
  moreover have "r = st 0" using assms(2) by (simp add: st_def)
  ultimately have "fold (\<lambda>c r. fst (apply_rec H r c)) (replicate (Suc n) (AttrChanged node a)) r = st (Suc n)"
    by (metis add_0)
  then show ?thesis by (simp only:) (simp add: st_def)
qed

theorem replica_pending_records_unbounded_witness:
  "fmlookup (rep_pending (fold (\<lambda>c r. fst (apply_rec list_index r c))
    (replicate (Suc 99999) (AttrChanged (nk 50) file_attr)) sample_rep)) (nk 50) =
    Some (replicate (Suc 99999) (PendAttr file_attr))"
proof (rule replica_pending_records_unbounded)
  show "get_node sample_rep (nk 50) = None" by code_simp
  show "rep_pending sample_rep = fmempty" by code_simp
qed (simp_all add: file_attr_def placeholder_attr_def)

text \<open>
  C23. A forced removal leaves the dentries that point at the node in place: the directory still
  lists the name, but looking it up fails.
\<close>

theorem replica_forced_removal_dangles:
  assumes "hash_index H slots" "reachable H info any_rec r"
    and "rep_find H r p b = Some (node, k)" "node \<noteq> replica_root r" "rep_exists r node"
    and "r' = fst (apply_rec H r (SelfRemoved node))" "get_node r' p \<noteq> None"
  shows "rep_find H r' p b = Some (node, k) \<and> rep_lookup H r' p b = Err ReNoEnt"
proof -
  let ?q = "case get_node r node of Some n \<Rightarrow> put_node r node (n\<lparr>n_links := 0\<rparr>) | None \<Rightarrow> r"
  have r': "r' = remove_node ?q node"
    using assms(4,5) by (simp add: assms(6) force_remove_def Let_def)
  have q: "rep_find H ?q p b = Some (node, k)"
    using assms(3) by (auto simp: rep_find_def get_dir_def split: option.splits)
  obtain m where m: "get_node ?q node = Some m"
    using assms(5) by (auto simp: rep_exists_def split: option.splits)
  have sh: "shrinks ?q r'" unfolding r' by (rule gc_shrinks(2))
  have "get_dir ?q p \<noteq> None" using q by (auto simp: rep_find_def bind_eq_Some_conv)
  then have d: "get_dir r' p \<noteq> None" by (rule shrinks_dir_node [OF sh _ assms(7)])
  then have f: "rep_find H r' p b = Some (node, k)" using shrinks_find [OF sh] q by simp
  have "get_node (unlinked ?q node m) node = None"
    by (simp add: unlinked_def Let_def drop_side_def)
  then have gone: "get_node r' node = None"
    unfolding r' remove_node_cases [OF m] by (rule shrinks_wf_room(3) [OF gc_shrinks(3)])
  obtain n' d' where "get_node r' p = Some n'" "n_dir n' = Some d'" "dir_find H d' b = Some (node, k)"
    using f by (auto simp: rep_find_def get_dir_def bind_eq_Some_conv)
  then have "rep_lookup H r' p b = Err ReNoEnt"
    using gone by (simp add: rep_lookup_def rep_getattr_def)
  then show ?thesis using f by simp
qed

theorem replica_forced_removal_dangles_witness:
  "rep_lookup list_index (fst (apply_rec list_index sample_rep (SelfRemoved (nk 10)))) (nk 2) [97] = Err ReNoEnt"
proof -
  let ?r = "fst (apply_rec list_index sample_rep (SelfRemoved (nk 10)))"
  have "rep_find list_index sample_rep (nk 2) [97] = Some (nk 10, Reg) \<and> nk 10 \<noteq> replica_root sample_rep
      \<and> rep_exists sample_rep (nk 10) \<and> get_node ?r (nk 2) \<noteq> None"
    by code_simp
  then have h: "rep_find list_index sample_rep (nk 2) [97] = Some (nk 10, Reg)"
      "nk 10 \<noteq> replica_root sample_rep" "rep_exists sample_rep (nk 10)" "get_node ?r (nk 2) \<noteq> None"
    by blast+
  from replica_forced_removal_dangles [OF list_index.hash_index_axioms sample_reachable h(1-3) refl h(4)]
  show ?thesis by blast
qed

end
