(* ===== verification/Readdir.thy ===== *)
theory Readdir
  imports Samples
begin

text \<open>
  Paging through a directory: what one page holds, the whole listing by repeated pages, and
  a listing whose pages are interleaved with changes of the directory.
\<close>

section \<open>One page\<close>

definition rde_of :: "dentry \<Rightarrow> read_dir_entry" where
  "rde_of x = \<lparr>rde_cookie = dt_cookie x, rde_name = mk_name (dt_name x), rde_node = dt_node x,
     rde_kind = dt_kind x\<rparr>"

lemma page_loop_spec:
  assumes "\<forall>e \<in> set es. name_check (name_of d e) = Ok ()" "length acc \<le> m"
  shows "page_loop d m es acc =
    Ok (acc @ map (rde_of \<circ> dentry_of (ds_arena d)) (take (m - length acc) es),
        length acc + length es \<le> m)"
  using assms
proof (induction es arbitrary: acc)
  case (Cons e es)
  show ?case
  proof (cases "length acc = m")
    case False
    let ?x = "\<lparr>rde_cookie = ce_cookie e, rde_name = mk_name (name_of d e), rde_node = ce_node e,
        rde_kind = ce_kind e\<rparr>"
    have "page_loop d m (e # es) acc = page_loop d m es (acc @ [?x])"
      using Cons.prems False by (simp add: name_new_def)
    also have "\<dots> = Ok ((acc @ [?x]) @ map (rde_of \<circ> dentry_of (ds_arena d)) (take (m - length (acc @ [?x])) es),
        length (acc @ [?x]) + length es \<le> m)"
      using Cons.prems False by (intro Cons.IH) auto
    also have "?x = rde_of (dentry_of (ds_arena d) e)" by (simp add: rde_of_def name_of_def)
    finally show ?thesis
      using Cons.prems(2) False by (simp add: take_Cons' Suc_diff_Suc)
  qed simp
qed simp

context hash_index
begin

lemma page_refines:
  assumes wf: "dir_wf H slots d"
  defines "L c \<equiv> filter (\<lambda>x. c < dt_cookie x) (dents d)"
  shows "page_loop d m (range_after d c) [] = Ok (map rde_of (take m (L c)), length (L c) \<le> m)"
proof -
  have L: "L c = map (dentry_of (ds_arena d)) (range_after d c)"
    using range_after_refines [OF wf] by (simp add: L_def)
  have "\<forall>e \<in> set (range_after d c). name_check (name_of d e) = Ok ()"
  proof
    fix e assume "e \<in> set (range_after d c)"
    then have "dentry_of (ds_arena d) e \<in> set (L c)" unfolding L by simp
    then have "dentry_of (ds_arena d) e \<in> set (dents d)" by (simp add: L_def)
    then have "name_check (dt_name (dentry_of (ds_arena d) e)) = Ok ()" using dir_wfD(5) [OF wf] by blast
    then show "name_check (name_of d e) = Ok ()" by (simp add: name_of_def)
  qed
  from page_loop_spec [OF this, of "[]" m] show ?thesis
    by (simp add: L take_map)
qed

end

section \<open>The whole listing\<close>

text \<open>The client's loop: pages of at most \<open>m\<close> entries, each after the last cookie seen.\<close>

fun read_pages :: "nat \<Rightarrow> 't share_replica \<Rightarrow> node_key \<Rightarrow> nat \<Rightarrow> u64 \<Rightarrow>
    (replica_error + read_dir_entry list) option" where
  "read_pages 0 r dir m c = None"
| "read_pages (Suc n) r dir m c =
     (case rep_readdir r dir c m of
        Err e \<Rightarrow> Some (Err e)
      | Ok page \<Rightarrow>
          if rdp_eof page then Some (Ok (rdp_entries page))
          else (case read_pages n r dir m (rde_cookie (last (rdp_entries page))) of
                  None \<Rightarrow> None
                | Some (Err e) \<Rightarrow> Some (Err e)
                | Some (Ok rest) \<Rightarrow> Some (Ok (rdp_entries page @ rest))))"

lemma sorted_wrt_le_last:
  fixes xs :: "'b :: linorder list"
  shows "sorted_wrt (<) xs \<Longrightarrow> x \<in> set xs \<Longrightarrow> x \<le> last xs"
  by (induction xs rule: rev_induct) (auto simp: sorted_wrt_append)

lemma sorted_filter_after_take:
  assumes "sorted_wrt (<) (map f L)" "0 < m" "m < length L"
  shows "filter (\<lambda>x. f (last (take m L)) < (f x :: 'b :: linorder)) L = drop m L"
proof -
  have L: "L = take m L @ drop m L" by simp
  have s: "sorted_wrt (<) (map f (take m L) @ map f (drop m L))"
    using assms(1) by (metis append_take_drop_id map_append)
  have ne: "take m L \<noteq> []" using assms by auto
  then have la: "last (take m L) \<in> set (take m L)" by simp
  have st: "sorted_wrt (<) (map f (take m L))" using s by (simp add: sorted_wrt_append)
  have "\<forall>x \<in> set (take m L). \<not> f (last (take m L)) < f x"
  proof
    fix x assume "x \<in> set (take m L)"
    then have "f x \<le> last (map f (take m L))" by (intro sorted_wrt_le_last [OF st]) simp
    then show "\<not> f (last (take m L)) < f x" using ne by (simp add: last_map)
  qed
  moreover have "\<forall>x \<in> set (drop m L). f (last (take m L)) < f x"
    using s la by (auto simp: sorted_wrt_append)
  ultimately have "filter (\<lambda>x. f (last (take m L)) < f x) (take m L @ drop m L) = drop m L"
    unfolding filter_append by (simp add: filter_False filter_True)
  then show ?thesis by simp
qed

context hash_index
begin

lemma read_pages_after:
  assumes wf: "dir_wf H slots d" and n: "get_node r dir = Some nd" "n_dir nd = Some d" "ds_complete d"
    and m: "0 < m" and fuel: "length (filter (\<lambda>x. c < dt_cookie x) (dents d)) < n"
  shows "read_pages n r dir m c = Some (Ok (map rde_of (filter (\<lambda>x. c < dt_cookie x) (dents d))))"
  using fuel
proof (induction n arbitrary: c)
  case (Suc n)
  let ?L = "filter (\<lambda>x. c < dt_cookie x) (dents d)"
  have page: "rep_readdir r dir c m = Ok \<lparr>rdp_entries = map rde_of (take m ?L),
      rdp_eof = (length ?L \<le> m), rdp_dirgen = ds_dirgen d\<rparr>"
    using page_refines [OF wf, of m c] n by (simp add: rep_readdir_def)
  show ?case
  proof (cases "length ?L \<le> m")
    case True
    then show ?thesis using page by simp
  next
    case False
    let ?c = "dt_cookie (last (take m ?L))"
    have ne: "take m ?L \<noteq> []" using False m by auto
    have s: "sorted_wrt (<) (map dt_cookie ?L)"
      using dents_cookies(1) [OF wf] by (simp add: sorted_wrt_map sorted_wrt_filter)
    have "c < ?c" using last_in_set [OF ne] by (auto dest: in_set_takeD)
    then have "filter (\<lambda>x. ?c < dt_cookie x) (dents d) = filter (\<lambda>x. ?c < dt_cookie x) ?L"
      by (auto intro!: filter_cong)
    also have "\<dots> = drop m ?L" by (rule sorted_filter_after_take [OF s]) (use m False in auto)
    finally have rest: "filter (\<lambda>x. ?c < dt_cookie x) (dents d) = drop m ?L" .
    have "rde_cookie (last (map rde_of (take m ?L))) = ?c"
      using ne by (simp add: last_map rde_of_def)
    moreover have "read_pages n r dir m ?c = Some (Ok (map rde_of (drop m ?L)))"
      using Suc.IH [of ?c] Suc.prems m False unfolding rest by simp
    ultimately show ?thesis
      using page False by (simp add: map_append [symmetric] del: map_append)
  qed
qed simp

end

lemma ls_upsert_cookies:
  "x \<in> set (ls_upsert c nm node k L) \<Longrightarrow> dt_cookie x = c \<or> dt_cookie x \<in> dt_cookie ` set L"
  by (auto simp: ls_upsert_def ls_set_kind_def ls_remove_def split: if_splits)

section \<open>A listing interleaved with changes\<close>

datatype dir_op = OpUpsert name node_key kind | OpRemove bytes

fun dir_step :: "'t name_index \<Rightarrow> dir_op \<Rightarrow> 't dir_state \<Rightarrow> 't dir_state" where
  "dir_step H (OpUpsert nm node k) d = fst (upsert H d nm node k)"
| "dir_step H (OpRemove nm) d = fst (dir_remove H d nm)"

text \<open>
  \<open>dir_scan H m d c acc eof\<close>: a client that asked for pages of \<open>m\<close> entries has been given the
  entries \<open>acc\<close>, the last of them with cookie \<open>c\<close>; the directory is now \<open>d\<close>; \<open>eof\<close> tells
  whether the last page was marked as the end.
\<close>

inductive dir_scan ::
    "'t name_index \<Rightarrow> nat \<Rightarrow> 't dir_state \<Rightarrow> 't dir_state \<Rightarrow> u64 \<Rightarrow> read_dir_entry list \<Rightarrow> bool \<Rightarrow> bool"
  for H :: "'t name_index" and m :: nat and d0 :: "'t dir_state" where
  start: "dir_scan H m d0 d0 0 [] False"
| page: "dir_scan H m d0 d c acc False \<Longrightarrow> page_loop d m (range_after d c) [] = Ok (es, eof) \<Longrightarrow>
    dir_scan H m d0 d (if es = [] then c else rde_cookie (last es)) (acc @ es) eof"
| change: "dir_scan H m d0 d c acc False \<Longrightarrow> dir_room 1 d \<Longrightarrow>
    dir_scan H m d0 (dir_step H op d) c acc False"

inductive_cases dir_scan_cases: "dir_scan H m d0 d c acc eof"

definition scan_ok :: "'t dir_state \<Rightarrow> u64 \<Rightarrow> read_dir_entry list \<Rightarrow> bool \<Rightarrow> bool" where
  "scan_ok d c acc eof \<longleftrightarrow> c < ds_next_cookie d
     \<and> sorted_wrt (<) (map rde_cookie acc) \<and> (\<forall>e \<in> set acc. rde_cookie e \<le> c)
     \<and> (\<forall>x \<in> set (dents d). dt_cookie x \<le> c \<or> eof \<longrightarrow> dt_cookie x \<in> rde_cookie ` set acc)"

context hash_index
begin

lemma dir_step_wf:
  assumes wf: "dir_wf H slots d" and room: "dir_room 1 d"
  shows "dir_wf H slots (dir_step H op d)" "ds_next_cookie d \<le> ds_next_cookie (dir_step H op d)"
    "\<forall>x \<in> set (dents (dir_step H op d)). dt_cookie x = ds_next_cookie d \<or> dt_cookie x \<in> dt_cookie ` set (dents d)"
proof -
  have nc: "ds_next_cookie d \<le> ds_next_cookie d + 1"
    using room unat_Suc_word [of "ds_next_cookie d"] by (simp add: dir_room_def word_le_nat_alt)
  have "dir_wf H slots (dir_step H op d) \<and> ds_next_cookie d \<le> ds_next_cookie (dir_step H op d)
    \<and> (\<forall>x \<in> set (dents (dir_step H op d)). dt_cookie x = ds_next_cookie d \<or> dt_cookie x \<in> dt_cookie ` set (dents d))"
  proof (cases op)
    case (OpUpsert nm node k)
    obtain d' u where u: "upsert H d nm node k = (d', u)" by fastforce
    have room': "dir_room (Suc 0) d" using room by simp
    note uw = upsert_wf [OF wf room' u]
    show ?thesis
      using uw(1,6) u OpUpsert nc ls_upsert_cookies [of _ "ds_next_cookie d" "as_bytes nm" node k "dents d"]
      by (simp add: uw(2))
  next
    case (OpRemove nm)
    obtain d' u where u: "dir_remove H d nm = (d', u)" by fastforce
    note uw = dir_remove_wf [OF wf u]
    show ?thesis using uw(1,2,6) u OpRemove by (auto simp: ls_remove_def)
  qed
  then show "dir_wf H slots (dir_step H op d)" "ds_next_cookie d \<le> ds_next_cookie (dir_step H op d)"
    "\<forall>x \<in> set (dents (dir_step H op d)). dt_cookie x = ds_next_cookie d \<or> dt_cookie x \<in> dt_cookie ` set (dents d)"
    by auto
qed

lemma scan_page:
  assumes wf: "dir_wf H slots d" and ok: "scan_ok d c acc False"
    and p: "page_loop d m (range_after d c) [] = Ok (es, eof)"
  shows "scan_ok d (if es = [] then c else rde_cookie (last es)) (acc @ es) eof"
proof -
  let ?L = "filter (\<lambda>x. c < dt_cookie x) (dents d)"
  have es: "es = map rde_of (take m ?L)" and eof: "eof = (length ?L \<le> m)"
    using page_refines [OF wf, of m c] p by auto
  have ck: "map rde_cookie es = map dt_cookie (take m ?L)" by (simp add: es rde_of_def)
  have sL: "sorted_wrt (<) (map dt_cookie ?L)"
    using dents_cookies(1) [OF wf] by (simp add: sorted_wrt_map sorted_wrt_filter)
  then have "sorted_wrt (<) (take m (map dt_cookie ?L))" by (rule sorted_wrt_take)
  then have ses: "sorted_wrt (<) (map rde_cookie es)" by (simp add: ck take_map)
  let ?c = "if es = [] then c else rde_cookie (last es)"
  have gt: "\<forall>e \<in> set es. c < rde_cookie e" by (auto simp: es rde_of_def dest: in_set_takeD)
  have le: "\<forall>e \<in> set es. rde_cookie e \<le> ?c"
  proof
    fix e assume e: "e \<in> set es"
    then have "rde_cookie e \<le> last (map rde_cookie es)" by (intro sorted_wrt_le_last [OF ses]) simp
    then show "rde_cookie e \<le> ?c" using e by (auto simp: last_map)
  qed
  have cc: "c \<le> ?c" using gt by (auto dest: last_in_set intro: less_imp_le)
  have "?c < ds_next_cookie d"
  proof (cases "es = []")
    case False
    then have "rde_cookie (last es) \<in> set (map dt_cookie (take m ?L))" unfolding ck [symmetric] by simp
    then obtain x where "x \<in> set (take m ?L)" and e: "dt_cookie x = rde_cookie (last es)" by auto
    then have "x \<in> set (dents d)" by (auto dest: in_set_takeD)
    then show ?thesis using dents_cookies(2) [OF wf] False e by auto
  qed (use ok in \<open>simp add: scan_ok_def\<close>)
  moreover have "sorted_wrt (<) (map rde_cookie (acc @ es))"
    using ok ses gt by (fastforce simp: scan_ok_def sorted_wrt_append)
  moreover have "\<forall>e \<in> set (acc @ es). rde_cookie e \<le> ?c"
    using ok le cc by (auto simp: scan_ok_def intro: order_trans)
  moreover have "dt_cookie x \<in> rde_cookie ` set (acc @ es)"
    if x: "x \<in> set (dents d)" and h: "dt_cookie x \<le> ?c \<or> eof" for x
  proof (cases "dt_cookie x \<le> c")
    case True
    then show ?thesis using ok x by (auto simp: scan_ok_def)
  next
    case False
    then have xL: "x \<in> set ?L" using x by simp
    have "x \<in> set (take m ?L)"
    proof (rule ccontr)
      assume n: "x \<notin> set (take m ?L)"
      then have m: "m < length ?L" using xL by (metis not_le take_all)
      then have "\<not> eof" by (simp add: eof)
      then have "dt_cookie x \<le> ?c" "es \<noteq> []" using h False by (auto split: if_splits)
      moreover have "x \<in> set (drop m ?L)" using n xL by (metis Un_iff append_take_drop_id set_append)
      moreover have "sorted_wrt (<) (map dt_cookie (take m ?L) @ map dt_cookie (drop m ?L))"
        using sL by (metis append_take_drop_id map_append)
      moreover have "rde_cookie (last es) \<in> set (map dt_cookie (take m ?L))"
        using \<open>es \<noteq> []\<close> unfolding ck [symmetric] by simp
      ultimately have "rde_cookie (last es) < dt_cookie x" by (auto simp: sorted_wrt_append)
      then show False using \<open>dt_cookie x \<le> ?c\<close> \<open>es \<noteq> []\<close> by simp
    qed
    then have "dt_cookie x \<in> set (map rde_cookie es)" unfolding ck by simp
    then show ?thesis by auto
  qed
  ultimately show ?thesis by (simp add: scan_ok_def)
qed

lemma dir_scan_ok:
  assumes "dir_scan H m d0 d c acc eof" "dir_wf H slots d0"
  shows "dir_wf H slots d \<and> scan_ok d c acc eof"
  using assms(1)
proof induction
  case start
  have "0 < ds_next_cookie d0" using dir_wfD(8) [OF assms(2)] by (auto simp: FIRST_COOKIE_def word_gt_0)
  moreover have "\<forall>x \<in> set (dents d0). \<not> dt_cookie x \<le> 0"
    using dents_cookies(2) [OF assms(2)] by (auto simp: FIRST_COOKIE_def)
  ultimately show ?case using assms(2) by (simp add: scan_ok_def)
next
  case (page d c acc es eof)
  then show ?case using scan_page by blast
next
  case (change d c acc op)
  note st = dir_step_wf [OF conjunct1 [OF change.IH] change.hyps(2), of op]
  have "c < ds_next_cookie d" using change.IH by (simp add: scan_ok_def)
  then have "\<forall>x \<in> set (dents (dir_step H op d)). dt_cookie x \<le> c \<longrightarrow> dt_cookie x \<in> dt_cookie ` set (dents d)"
    using st(3) by auto
  moreover have "c < ds_next_cookie (dir_step H op d)"
    using \<open>c < ds_next_cookie d\<close> st(2) by (rule order_less_le_trans)
  moreover have "\<forall>x \<in> set (dents d). dt_cookie x \<le> c \<longrightarrow> dt_cookie x \<in> rde_cookie ` set acc"
    using change.IH by (simp add: scan_ok_def)
  ultimately have "\<forall>x \<in> set (dents (dir_step H op d)). dt_cookie x \<le> c \<longrightarrow> dt_cookie x \<in> rde_cookie ` set acc"
    by (metis imageE)
  then show ?case
    using st(1) change.IH \<open>c < ds_next_cookie (dir_step H op d)\<close> by (simp add: scan_ok_def)
qed

end

section \<open>Properties of listings\<close>

text \<open>
  C11. Paging is exact: with pages of at least one entry the loop of a client over an unchanging
  complete directory ends after at most one page per entry, without an error, and the pages
  concatenate to the live entries in cookie order, none missing and none twice.
\<close>

theorem readdir_pages_exact:
  assumes "hash_index H slots" "reachable H info any_rec r"
    and "get_dir r dir = Some d" "ds_complete d" "0 < m" "length (dents d) < n"
  shows "read_pages n r dir m 0 = Some (Ok (map rde_of (dents d)))
    \<and> distinct (map dt_cookie (dents d)) \<and> distinct (map dt_name (dents d))"
proof -
  have wf: "dir_wf H slots d"
    using hash_index.reachable_base [OF assms(1,2)] assms(3) by (simp add: base_ok_def dirs_wf_def)
  obtain nd where nd: "get_node r dir = Some nd" "n_dir nd = Some d"
    using assms(3) by (auto simp: get_dir_def bind_eq_Some_conv)
  have c: "\<forall>x \<in> set (dents d). 0 < dt_cookie x"
    using hash_index.dents_cookies(2) [OF assms(1) wf] by (auto simp: FIRST_COOKIE_def word_gt_0)
  then have f: "filter (\<lambda>x. 0 < dt_cookie x) (dents d) = dents d" by (simp add: filter_id_conv)
  have "read_pages n r dir m 0 = Some (Ok (map rde_of (dents d)))"
    using hash_index.read_pages_after [OF assms(1) wf nd assms(4,5), of 0 n] assms(6) f by simp
  moreover have "distinct (map dt_cookie (dents d))"
    using hash_index.dents_cookies(1) [OF assms(1) wf] by (simp add: strict_sorted_iff)
  ultimately show ?thesis using dir_wfD(4) [OF wf] by simp
qed

theorem readdir_pages_exact_witness:
  "read_pages 3 sample_rep (nk 2) 1 0 = Some (Ok (map rde_of (dents (the (get_dir sample_rep (nk 2))))))"
proof -
  let ?d = "the (get_dir sample_rep (nk 2))"
  have c: "get_dir sample_rep (nk 2) \<noteq> None \<and> ds_complete ?d \<and> length (dents ?d) < 3" by code_simp
  then have h: "get_dir sample_rep (nk 2) = Some ?d" "ds_complete ?d" "length (dents ?d) < 3" by auto
  from readdir_pages_exact [OF list_index.hash_index_axioms sample_reachable h(1,2) _ h(3), of 1]
  show ?thesis by simp
qed

text \<open>
  C10. A listing is stable under concurrent changes of the directory, compaction included: however
  upserts and removals are interleaved with the pages, no cookie is returned twice, and when
  the end is reported every entry that is then live has been returned.
\<close>

theorem readdir_stable:
  assumes "hash_index H slots" "dir_wf H slots d0" "dir_scan H m d0 d c acc eof"
  shows "distinct (map rde_cookie acc)
    \<and> (eof \<longrightarrow> dt_cookie ` set (dents d) \<subseteq> rde_cookie ` set acc)"
proof -
  have ok: "scan_ok d c acc eof" using hash_index.dir_scan_ok [OF assms(1,3,2)] by simp
  then have "sorted_wrt (<) (map rde_cookie acc)" by (simp add: scan_ok_def)
  then show ?thesis using ok by (auto simp: scan_ok_def strict_sorted_iff)
qed

theorem readdir_stable_witness:
  "let d0 = the (get_dir sample_rep (nk 2)); d = dir_step list_index (OpRemove [98]) d0;
       L = filter (\<lambda>x. 0 < dt_cookie x) (dents d)
   in dt_cookie ` set (dents d) \<subseteq> rde_cookie ` set (map rde_of (take 5 L))"
proof -
  let ?start = "the (get_dir sample_rep (nk 2))"
  let ?d = "dir_step list_index (OpRemove [98]) ?start"
  let ?L = "filter (\<lambda>x. 0 < dt_cookie x) (dents ?d)"
  let ?es = "map rde_of (take 5 ?L)"
  have c: "get_dir sample_rep (nk 2) \<noteq> None \<and> length ?L \<le> 5" by code_simp
  have wf: "dir_wf list_index mset ?start" and room: "dir_room 1 ?start"
    using c sample_base sample_roomy [of 1] by (auto simp: base_ok_def dirs_wf_def roomy_def)
  have wf': "dir_wf list_index mset ?d" by (rule list_index.dir_step_wf(1) [OF wf room])
  have "dir_scan list_index 5 ?start ?d 0 [] False" by (rule dir_scan.change [OF dir_scan.start room])
  moreover have "page_loop ?d 5 (range_after ?d 0) [] = Ok (?es, True)"
    using list_index.page_refines [OF wf', of 5 0] c by simp
  ultimately have "dir_scan list_index 5 ?start ?d (if ?es = [] then 0 else rde_cookie (last ?es)) ([] @ ?es) True"
    by (rule dir_scan.page)
  from readdir_stable [OF list_index.hash_index_axioms wf this] show ?thesis by (simp add: Let_def)
qed

end
