(* ===== verification/Conflicts.thy ===== *)
theory Conflicts
  imports Proto_Types
begin

text \<open>
  The log of guest-versus-Mac collisions (\<^verbatim>\<open>crates/mist-hostd/src/conflicts.rs\<close>). Instants are
  integers in nanoseconds and are arguments of the operations, as is the wall clock of a row.
  The detail line of a row is kept as the arguments of its format string.
\<close>

type_synonym instant = int
type_synonym recent_map = "(u16 \<times> node_key, instant) fmap"

definition WINDOW :: int where "WINDOW = 5 * 1000000000"
definition MAX_ROWS :: nat where "MAX_ROWS = 1024"
definition MAX_TRACKED :: nat where "MAX_TRACKED = 8192"

datatype conflict_detail = MacAfterGuest string | GuestAfterMac

record conflict_row =
  cr_at_unix_ms :: u64
  cr_share :: u16
  cr_ino :: u64
  cr_generation :: u32
  cr_path :: "bytes option"
  cr_kind :: string
  cr_detail :: conflict_detail

record conflict_tracker =
  ct_recent_mac :: recent_map
  ct_recent_guest :: recent_map
  ct_rows :: "conflict_row list"
  ct_total :: u64

definition tracker_default :: conflict_tracker where
  "tracker_default = \<lparr>ct_recent_mac = fmempty, ct_recent_guest = fmempty, ct_rows = [], ct_total = 0\<rparr>"

text \<open>\<^verbatim>\<open>get(&key).is_some_and(|t| t.elapsed() < window)\<close> and \<^verbatim>\<open>retain\<close> by the same test.\<close>

definition within :: "int \<Rightarrow> instant \<Rightarrow> recent_map \<Rightarrow> u16 \<times> node_key \<Rightarrow> bool" where
  "within window now m k = (case fmlookup m k of Some t \<Rightarrow> now - t < window | None \<Rightarrow> False)"

definition retain_within :: "int \<Rightarrow> instant \<Rightarrow> recent_map \<Rightarrow> recent_map" where
  "retain_within window now m = fmfilter (within window now m) m"

definition prune :: "instant \<Rightarrow> recent_map \<Rightarrow> recent_map" where
  "prune now m = (if fmap_size m > MAX_TRACKED then retain_within WINDOW now m else m)"

definition push_row :: "conflict_row \<Rightarrow> conflict_tracker \<Rightarrow> conflict_tracker" where
  "push_row row c =
     (let rows = (if length (ct_rows c) \<ge> MAX_ROWS then tl (ct_rows c) else ct_rows c)
      in c\<lparr>ct_total := ct_total c + 1, ct_rows := rows @ [row]\<rparr>)"

definition note_mac ::
    "instant \<Rightarrow> u64 \<Rightarrow> u16 \<Rightarrow> node_key \<Rightarrow> bytes option \<Rightarrow> string \<Rightarrow> conflict_tracker \<Rightarrow> conflict_tracker" where
  "note_mac now wall share node path op c =
     (let c = (if within WINDOW now (ct_recent_guest c) (share, node)
               then push_row \<lparr>cr_at_unix_ms = wall, cr_share = share, cr_ino = ino node,
                      cr_generation = generation node, cr_path = path,
                      cr_kind = ''mac-over-guest'', cr_detail = MacAfterGuest op\<rparr> c
               else c)
      in c\<lparr>ct_recent_mac := prune now (fmupd (share, node) now (ct_recent_mac c))\<rparr>)"

definition note_guest ::
    "instant \<Rightarrow> u64 \<Rightarrow> u16 \<Rightarrow> node_key \<Rightarrow> bytes option \<Rightarrow> conflict_tracker \<Rightarrow> conflict_tracker" where
  "note_guest now wall share node path c =
     (let c = (if within WINDOW now (ct_recent_mac c) (share, node)
               then push_row \<lparr>cr_at_unix_ms = wall, cr_share = share, cr_ino = ino node,
                      cr_generation = generation node, cr_path = path,
                      cr_kind = ''guest-over-mac'', cr_detail = GuestAfterMac\<rparr> c
               else c)
      in c\<lparr>ct_recent_guest := prune now (fmupd (share, node) now (ct_recent_guest c))\<rparr>)"

section \<open>The log is bounded and complete\<close>

lemma within_upd: "within w now (fmupd k t m) k' = (if k' = k then now - t < w else within w now m k')"
  by (simp add: within_def)

lemma within_retain: "0 < w \<Longrightarrow> now \<le> now' \<Longrightarrow> within w now' (retain_within w now m) k = within w now' m k"
  by (auto simp: within_def retain_within_def split: option.splits)

lemma within_prune: "now \<le> now' \<Longrightarrow> within WINDOW now' (prune now m) k = within WINDOW now' m k"
  by (simp add: prune_def within_retain WINDOW_def)

lemma rows_bound_push: "length (ct_rows c) \<le> MAX_ROWS \<Longrightarrow> length (ct_rows (push_row row c)) \<le> MAX_ROWS"
  by (auto simp: push_row_def MAX_ROWS_def Let_def)

text \<open>A history of mutations, with the time of each, and the tracker after it.\<close>

datatype change = MacChange u64 u16 node_key "bytes option" string | GuestChange u64 u16 node_key "bytes option"

fun note_change :: "instant \<times> change \<Rightarrow> conflict_tracker \<Rightarrow> conflict_tracker" where
  "note_change (now, MacChange wall share node path op) c = note_mac now wall share node path op c"
| "note_change (now, GuestChange wall share node path) c = note_guest now wall share node path c"

fun change_key :: "change \<Rightarrow> u16 \<times> node_key" where
  "change_key (MacChange _ share node _ _) = (share, node)"
| "change_key (GuestChange _ share node _) = (share, node)"

fun is_mac :: "change \<Rightarrow> bool" where
  "is_mac (MacChange _ _ _ _ _) = True"
| "is_mac (GuestChange _ _ _ _) = False"

definition last_of :: "bool \<Rightarrow> (u16 \<times> node_key) \<Rightarrow> (instant \<times> change) list \<Rightarrow> instant option" where
  "last_of mac k h = map_option fst (find (\<lambda>(t, c). is_mac c = mac \<and> change_key c = k) (rev h))"

definition tracked :: "(instant \<times> change) list \<Rightarrow> instant \<Rightarrow> conflict_tracker \<Rightarrow> bool" where
  "tracked h now c \<longleftrightarrow> (\<forall>k now'. now \<le> now' \<longrightarrow>
     within WINDOW now' (ct_recent_mac c) k = (\<exists>t. last_of True k h = Some t \<and> now' - t < WINDOW) \<and>
     within WINDOW now' (ct_recent_guest c) k = (\<exists>t. last_of False k h = Some t \<and> now' - t < WINDOW))"

lemma last_of_snoc:
  "last_of mac k (h @ [(t, c)]) = (if is_mac c = mac \<and> change_key c = k then Some t else last_of mac k h)"
  by (simp add: last_of_def)

lemma push_row_recent [simp]:
  "ct_recent_mac (push_row row c) = ct_recent_mac c" "ct_recent_guest (push_row row c) = ct_recent_guest c"
  by (simp_all add: push_row_def Let_def)

lemma tracked_note:
  assumes "tracked h now c" "now \<le> t"
  shows "tracked (h @ [(t, ch)]) t (note_change (t, ch) c)"
  using assms
  by (cases ch) (auto simp: tracked_def note_mac_def note_guest_def Let_def within_prune within_upd last_of_snoc)

lemma tracked_default: "tracked [] now tracker_default"
  by (simp add: tracked_def tracker_default_def within_def last_of_def)

lemma tracked_fold:
  assumes "sorted (map fst (h @ [(t, ch)]))"
  shows "tracked h t (fold note_change h tracker_default)"
  using assms
proof (induction h arbitrary: t ch rule: rev_induct)
  case Nil
  then show ?case by (simp add: tracked_default)
next
  case (snoc x h)
  obtain t' ch' where x: "x = (t', ch')" by fastforce
  have "sorted (map fst (h @ [(t', ch')]))" "t' \<le> t" using snoc.prems by (auto simp: sorted_append x)
  then have "tracked (h @ [x]) t' (fold note_change (h @ [x]) tracker_default)"
    using tracked_note [OF snoc.IH order_refl] by (simp add: x)
  then show ?case using \<open>t' \<le> t\<close> by (auto simp: tracked_def)
qed

lemma rows_bound_note: "length (ct_rows c) \<le> MAX_ROWS \<Longrightarrow> length (ct_rows (note_change x c)) \<le> MAX_ROWS"
  by (cases x; cases "snd x") (auto simp: note_mac_def note_guest_def Let_def rows_bound_push)

lemma rows_bound_fold: "length (ct_rows c) \<le> MAX_ROWS \<Longrightarrow> length (ct_rows (fold note_change h c)) \<le> MAX_ROWS"
  by (induction h arbitrary: c) (auto simp: rows_bound_note)

lemma total_note:
  "ct_total (note_change (t, ch) c) = ct_total c +
     (if within WINDOW t ((if is_mac ch then ct_recent_guest else ct_recent_mac) c) (change_key ch) then 1 else 0)"
  by (cases ch) (simp_all add: note_mac_def note_guest_def push_row_def Let_def)

section \<open>Property\<close>



end
