(* ===== verification/Session.thy ===== *)
theory Session
  imports Replica_Reach Conflicts
begin

text \<open>
  The host side of a VM session (\<^verbatim>\<open>crates/mist-hostd/src/session.rs\<close>): the echo fences, the
  assembler that seeds replicas from snapshots and applies the journal, and the guest side of
  the journal, its batcher (\<^verbatim>\<open>crates/mistd/src/linux/journal.rs\<close>). Instants and the wall clock
  are arguments; the random snapshot ids are a sequence in the state; the invalidations and the
  control messages that are sent are lists in the state. The JSON change feed and the
  statistics of the seed rate are not modelled.
\<close>

section \<open>The VM handle\<close>

record 't share_handle =
  sh_info :: share_info
  sh_replica :: "'t share_replica"

record 't vm_handle =
  vm_shares :: "'t share_handle list"
  vm_mac_dirty :: recent_map
  vm_conflicts :: conflict_tracker
  vm_journal_records :: u64
  vm_overflows :: u64
  vm_inval :: "(u16 \<times> node_key) list"

definition MAC_DIRTY_WINDOW :: int where "MAC_DIRTY_WINDOW = 5 * 1000000000"

definition note_mac_dirty :: "instant \<Rightarrow> u16 \<Rightarrow> node_key \<Rightarrow> recent_map \<Rightarrow> recent_map" where
  "note_mac_dirty now share node m =
     (let m = (if fmap_size m > 4096 then retain_within MAC_DIRTY_WINDOW now m else m)
      in fmupd (share, node) now m)"

definition is_mac_dirty :: "instant \<Rightarrow> u16 \<Rightarrow> node_key \<Rightarrow> recent_map \<Rightarrow> bool" where
  "is_mac_dirty now share node m = within MAC_DIRTY_WINDOW now m (share, node)"

text \<open>\<^verbatim>\<open>values().find\<close>: the order of the table is that of the list.\<close>

definition share_by_id :: "'t vm_handle \<Rightarrow> share_id \<Rightarrow> 't share_handle option" where
  "share_by_id vm sid = find (\<lambda>h. si_id (sh_info h) = sid) (vm_shares vm)"

text \<open>\<^verbatim>\<open>swap_replica\<close> on the handle that \<^verbatim>\<open>share_by_id\<close> returns.\<close>

primrec swap_replica :: "share_id \<Rightarrow> 't share_replica \<Rightarrow> 't share_handle list \<Rightarrow> 't share_handle list" where
  "swap_replica sid r [] = []"
| "swap_replica sid r (h # hs) =
     (if si_id (sh_info h) = sid then h\<lparr>sh_replica := r\<rparr> # hs else h # swap_replica sid r hs)"

section \<open>The assembler\<close>

definition SEQ_ADOPT :: u64 where "SEQ_ADOPT = - 1"

record 't staging =
  st_snap_id :: u64
  st_replica :: "'t share_replica"
  st_journal_buf :: "journal_batch list"

record 't assembler =
  as_vm :: "'t vm_handle"
  as_staging :: "(share_id, 't staging) fmap"
  as_infos :: "(share_id, share_info) fmap"
  as_seq :: "(share_id, u64) fmap"
  as_sent :: "ctl_msg list"
  as_rng :: "nat \<Rightarrow> u64"
  as_draws :: nat

definition asm_begin :: "share_id \<Rightarrow> u64 \<Rightarrow> 't assembler \<Rightarrow> 't assembler" where
  "asm_begin share snap_id A =
     (case fmlookup (as_infos A) share of
        None \<Rightarrow> A
      | Some info \<Rightarrow>
          A\<lparr>as_seq := fmdrop share (as_seq A),
            as_staging := fmupd share
              \<lparr>st_snap_id = snap_id, st_replica = replica_new info, st_journal_buf = []\<rparr> (as_staging A)\<rparr>)"

definition request_resync :: "share_id \<Rightarrow> 't assembler \<Rightarrow> 't assembler" where
  "request_resync share A =
     (let snap_id = as_rng A (as_draws A);
          A = asm_begin share snap_id (A\<lparr>as_draws := as_draws A + 1\<rparr>)
      in A\<lparr>as_sent := as_sent A @ [SnapshotStart share snap_id]\<rparr>)"

definition batch_end :: "journal_batch \<Rightarrow> u64" where
  "batch_end b = jb_first_seq b + of_nat (length (jb_records b))"

primrec replay_seq :: "journal_batch list \<Rightarrow> u64 \<Rightarrow> u64" where
  "replay_seq [] next_seq = next_seq"
| "replay_seq (b # bs) next_seq =
     replay_seq bs (if next_seq = SEQ_ADOPT then batch_end b else max next_seq (batch_end b))"

definition replay_buf :: "'t name_index \<Rightarrow> journal_batch list \<Rightarrow> 't share_replica \<Rightarrow> 't share_replica" where
  "replay_buf H bs r = fold (\<lambda>b. fold (\<lambda>rec r. fst (apply_rec H r rec)) (jb_records b)) bs r"

definition finish_seed :: "'t name_index \<Rightarrow> snap_done \<Rightarrow> 't assembler \<Rightarrow> 't assembler" where
  "finish_seed H dn A =
     (case fmlookup (as_staging A) (done_share dn) of
        None \<Rightarrow> A
      | Some s \<Rightarrow>
          if st_snap_id s \<noteq> done_snap_id dn then A
          else
            let A = A\<lparr>as_staging := fmdrop (done_share dn) (as_staging A)\<rparr>;
                (r, _) = finish_snapshot (st_replica s);
                next_seq = replay_seq (st_journal_buf s) SEQ_ADOPT;
                r = replay_buf H (st_journal_buf s) r;
                vm = as_vm A;
                vm = (case share_by_id vm (done_share dn) of
                        Some _ \<Rightarrow> vm\<lparr>vm_shares := swap_replica (done_share dn) (set_state r Live) (vm_shares vm)\<rparr>
                      | None \<Rightarrow> vm)
            in A\<lparr>as_vm := vm, as_seq := fmupd (done_share dn) next_seq (as_seq A)\<rparr>)"

text \<open>The node a record may conflict on, resolved before the record is applied.\<close>

definition conflicted_node :: "'t name_index \<Rightarrow> 't share_replica \<Rightarrow> rec \<Rightarrow> node_key option" where
  "conflicted_node H r rec =
     (case rec of
        Content node _ _ _ _ \<Rightarrow> Some node
      | AttrChanged node _ \<Rightarrow> Some node
      | Removed parent nm \<Rightarrow>
          (case rep_lookup H r parent (as_bytes nm) of Ok (n, _) \<Rightarrow> Some n | Err _ \<Rightarrow> None)
      | _ \<Rightarrow> None)"

definition is_attr_rec :: "rec \<Rightarrow> bool" where
  "is_attr_rec rec = (case rec of Content _ _ _ _ _ \<Rightarrow> True | AttrChanged _ _ \<Rightarrow> True | _ \<Rightarrow> False)"

text \<open>The directories to nudge after a record that did not come from the Mac.\<close>

definition bumped_parents :: "instant \<Rightarrow> u16 \<Rightarrow> recent_map \<Rightarrow> bool \<Rightarrow> rec \<Rightarrow> node_key list" where
  "bumped_parents now share dirty echo rec =
     (case rec of
        Created parent _ node _ \<Rightarrow> if \<not> is_mac_dirty now share node dirty then [parent] else []
      | CreatedBatch parent entries \<Rightarrow>
          if (case entries of [] \<Rightarrow> True | e # _ \<Rightarrow> \<not> is_mac_dirty now share (se_node e) dirty)
          then [parent] else []
      | Removed parent _ \<Rightarrow> if \<not> echo then [parent] else []
      | Renamed from_parent _ to_parent _ \<Rightarrow>
          if \<not> is_mac_dirty now share from_parent dirty \<and> \<not> is_mac_dirty now share to_parent dirty
          then [from_parent, to_parent] else []
      | _ \<Rightarrow> [])"

definition live_rec ::
    "'t name_index \<Rightarrow> (bytes \<Rightarrow> bytes) \<Rightarrow> instant \<Rightarrow> u64 \<Rightarrow> u16 \<Rightarrow> rec \<Rightarrow>
     't vm_handle \<times> 't share_replica \<times> bool \<Rightarrow> 't vm_handle \<times> 't share_replica \<times> bool" where
  "live_rec H lossy now wall share rec = (\<lambda>(vm, r, need_resync).
     let cn = conflicted_node H r rec;
         echo = (case cn of Some n \<Rightarrow> is_mac_dirty now share n (vm_mac_dirty vm) | None \<Rightarrow> False);
         vm = (case cn of
                 Some node \<Rightarrow>
                   if \<not> echo
                   then vm\<lparr>vm_conflicts := note_guest now wall share node (path_of lossy r node) (vm_conflicts vm),
                           vm_inval := vm_inval vm @ [(share, node)]\<rparr>
                   else vm
               | None \<Rightarrow> vm)
     in if echo \<and> is_attr_rec rec then (vm, r, need_resync)
        else
          let (r, outcome) = apply_rec H r rec
          in (vm, fold (\<lambda>p r. bump_dir_attr r p) (bumped_parents now share (vm_mac_dirty vm) echo rec) r,
              need_resync \<or> outcome = NeedResync))"

definition on_journal ::
    "'t name_index \<Rightarrow> (bytes \<Rightarrow> bytes) \<Rightarrow> instant \<Rightarrow> u64 \<Rightarrow> journal_batch \<Rightarrow> 't assembler \<Rightarrow> 't assembler" where
  "on_journal H lossy now wall b A =
     (if jb_share b = - 1 then fold request_resync (sorted_list_of_fset (fmdom (as_infos A))) A
      else
        case fmlookup (as_staging A) (jb_share b) of
          Some s \<Rightarrow>
            A\<lparr>as_staging := fmupd (jb_share b) (s\<lparr>st_journal_buf := st_journal_buf s @ [b]\<rparr>) (as_staging A)\<rparr>
        | None \<Rightarrow>
            case share_by_id (as_vm A) (jb_share b) of
              None \<Rightarrow> A
            | Some h \<Rightarrow>
                if rep_state (sh_replica h) \<noteq> Live then A
                else
                  case fmlookup (as_seq A) (jb_share b) of
                    None \<Rightarrow> A
                  | Some expected \<Rightarrow>
                      if expected \<noteq> SEQ_ADOPT \<and> jb_first_seq b \<noteq> expected
                      then request_resync (jb_share b) A
                      else
                        let A = A\<lparr>as_seq := fmupd (jb_share b) (batch_end b) (as_seq A)\<rparr>;
                            (vm, r, need_resync) =
                              fold (live_rec H lossy now wall (jb_share b)) (jb_records b)
                                (as_vm A, sh_replica h, False);
                            vm = vm\<lparr>vm_shares := swap_replica (jb_share b) r (vm_shares vm),
                                    vm_journal_records := vm_journal_records vm + of_nat (length (jb_records b))\<rparr>;
                            vm = (if need_resync then vm\<lparr>vm_overflows := vm_overflows vm + 1\<rparr> else vm);
                            A = A\<lparr>as_vm := vm\<rparr>
                        in if need_resync then request_resync (jb_share b) A else A)"

definition on_event ::
    "'t name_index \<Rightarrow> (bytes \<Rightarrow> bytes) \<Rightarrow> instant \<Rightarrow> u64 \<Rightarrow> event_msg \<Rightarrow> 't assembler \<Rightarrow> 't assembler" where
  "on_event H lossy now wall ev A =
     (case ev of
        EvSnapDir d \<Rightarrow>
          (case fmlookup (as_staging A) (sd_share d) of
             None \<Rightarrow> A
           | Some s \<Rightarrow>
               if st_snap_id s \<noteq> sd_snap_id d then A
               else case apply_snap_dir H (st_replica s) d of
                      Some r \<Rightarrow> A\<lparr>as_staging := fmupd (sd_share d) (s\<lparr>st_replica := r\<rparr>) (as_staging A)\<rparr>
                    | None \<Rightarrow> A)
      | EvSnapDone dn \<Rightarrow> finish_seed H dn A
      | EvJournal b \<Rightarrow> on_journal H lossy now wall b A)"

section \<open>The journal of the guest\<close>

fun approx_size :: "rec \<Rightarrow> nat" where
  "approx_size (Created _ nm _ _) = 48 + length (as_bytes nm)"
| "approx_size (CreatedBatch _ entries) = 16 + length entries * 64"
| "approx_size (Removed _ nm) = 24 + length (as_bytes nm)"
| "approx_size (Renamed _ from_name _ to_name) = 48 + length (as_bytes from_name) + length (as_bytes to_name)"
| "approx_size (AttrChanged _ _) = 64"
| "approx_size (Content _ _ _ _ _) = 40"
| "approx_size (SelfRemoved _) = 16"
| "approx_size Overflow = 8"
| "approx_size (EchoMarker _) = 8"

definition MAX_RECORDS :: nat where "MAX_RECORDS = 512"
definition MAX_BATCH_BYTES :: nat where "MAX_BATCH_BYTES = 64 * 1024"

text \<open>
  What the batcher sees of its channel: a record that arrives within the linger time of the
  batch being filled, or the end of that time. \<open>None\<close> closes a batch.
\<close>

fun fill_batch :: "rec option list \<Rightarrow> rec list \<Rightarrow> nat \<Rightarrow> rec list \<times> rec option list" where
  "fill_batch [] records bytes = (records, [])"
| "fill_batch (x # xs) records bytes =
     (if length records < MAX_RECORDS \<and> bytes < MAX_BATCH_BYTES then
        (case x of
           Some r \<Rightarrow> fill_batch xs (records @ [r]) (bytes + approx_size r)
         | None \<Rightarrow> (records, xs))
      else (records, x # xs))"

lemma fill_batch_shrinks: "length (snd (fill_batch xs records bytes)) \<le> length xs"
  by (induction xs records bytes rule: fill_batch.induct) (auto split: option.split)

function batcher :: "share_id \<Rightarrow> u64 \<Rightarrow> rec option list \<Rightarrow> journal_batch list" where
  "batcher share seq [] = []"
| "batcher share seq (None # xs) = batcher share seq xs"
| "batcher share seq (Some r # xs) =
     (let (records, xs) = fill_batch xs [r] 64
      in \<lparr>jb_share = share, jb_first_seq = seq, jb_guest_mono_ns = 0, jb_records = records\<rparr>
           # batcher share (seq + of_nat (length records)) xs)"
  by pat_completeness auto

termination batcher
proof (relation "measure (\<lambda>(_, _, xs). length xs)")
  fix share :: share_id and seq :: u64 and r :: rec and xs y records xs'
  assume "y = fill_batch xs [r] 64" "(records, xs') = y"
  then show "((share, seq + of_nat (length records), xs'), share, seq, Some r # xs) \<in> measure (\<lambda>(_, _, xs). length xs)"
    using fill_batch_shrinks [of xs "[r]" 64] by (metis (no_types, lifting) case_prod_conv in_measure le_imp_less_Suc length_Cons snd_conv)
qed simp_all

end
