(* ===== verification/Session_Props.thy ===== *)
theory Session_Props
  imports Session Samples
begin

text \<open>
  The laws of the session layer: a live batch, a run of batches from the guest's batcher, the
  seeding of a share under any interleaving of snapshot records and journal batches, and the
  invariant that every replica a session holds is well-formed with exact counters.
\<close>

section \<open>Records do not touch the share state\<close>

lemma state_basics [simp]:
  "rep_state (entries_add r i) = rep_state r" "rep_state (drop_side r k) = rep_state r"
  "rep_state (put_dir r k d) = rep_state r" "rep_state (link_inc r k) = rep_state r"
  "rep_state (mark_dir_complete r k) = rep_state r" "rep_state (fst (note_side r k a)) = rep_state r"
  "rep_state (bump_dir_attr r k) = rep_state r" "rep_state (stash_pending r k p) = rep_state r"
  by (auto simp: entries_add_def drop_side_def put_dir_def link_inc_def mark_dir_complete_def note_side_def
      bump_dir_attr_def stash_pending_def Let_def split: option.splits if_splits)

lemma state_unlinked [simp]: "rep_state (unlinked r key n) = rep_state r"
  by (simp add: unlinked_def Let_def split: option.splits)

lemma state_gc [simp]:
  shows "rep_state (link_dec r key) = rep_state r" "rep_state (remove_node r key) = rep_state r"
    "rep_state (drop_links r keys) = rep_state r"
proof (induction r key and r key and r keys rule: gc_induct)
  case (dec r key n n')
  then show ?case by (auto simp: link_dec_cases)
next
  case (remove r key n)
  then show ?case by (simp add: remove_node_cases)
qed (simp_all add: link_dec_None remove_node_None del: link_dec.simps remove_node.simps)

lemma state_upsert_node [simp]: "rep_state (upsert_node H r key a parent) = rep_state r"
  using state_basics(6) [of r key a]
  by (cases "note_side r key a") (auto simp: upsert_node_def Let_def simp del: state_basics(6) split: option.splits)

lemma state_updates [simp]:
  "rep_state (fst (update_attr r k a)) = rep_state r" "rep_state (fst (update_content r k v z t)) = rep_state r"
  using state_basics(6) [of r k a]
  by (auto simp: update_attr_def update_content_def Let_def simp del: state_basics(6) split: option.splits prod.splits)

lemma state_drain [simp]:
  fixes r :: "'t share_replica"
  shows "rep_state (drain_pending r k) = rep_state r"
proof -
  have p: "rep_state (apply_pending k p r) = rep_state r" for p and r :: "'t share_replica" by (cases p) simp_all
  have "rep_state (fold (apply_pending k) ps r) = rep_state r" for ps and r :: "'t share_replica"
    by (induction ps arbitrary: r) (simp_all add: p)
  then show ?thesis by (simp add: drain_pending_def split: option.splits)
qed

lemma state_dentries [simp]:
  "rep_state (dentry_set H r p nm node k) = rep_state r" "rep_state (dentry_relink H r p nm node k) = rep_state r"
  "rep_state (dentry_remove H r p b) = rep_state r" "rep_state (fst (dentry_take H r p b)) = rep_state r"
  by (auto simp: dentry_set_def dentry_relink_def dentry_remove_def dentry_take_def Let_def
      simp del: link_dec.simps split: option.splits prod.splits)

lemma state_created [simp]: "rep_state (fold (created_entry H p) es r) = rep_state r"
  by (induction es arbitrary: r) (simp_all add: created_entry_def Let_def)

lemma state_apply_rec [simp]: "rep_state (fst (apply_rec H r c)) = rep_state r"
proof (cases c)
  case (Renamed fp fnm tp tnm)
  have "rep_state (fst (dentry_take H r fp (as_bytes fnm))) = rep_state r" by simp
  then show ?thesis using Renamed by (auto simp del: state_dentries(4) split: prod.splits option.splits)
next
  case (AttrChanged node a)
  have "rep_state (fst (update_attr r node a)) = rep_state r" by simp
  then show ?thesis using AttrChanged by (auto simp del: state_updates split: prod.splits bool.splits)
next
  case (Content node v z t m)
  have "rep_state (fst (update_content r node v z t)) = rep_state r" by simp
  then show ?thesis using Content by (auto simp del: state_updates split: prod.splits bool.splits)
next
  case (SelfRemoved node)
  then show ?thesis by (simp add: force_remove_def Let_def del: remove_node.simps split: option.splits)
qed (simp_all add: Let_def split: option.splits sum.splits)

lemma outcome_apply_rec: "snd (apply_rec H r c) = NeedResync \<longleftrightarrow> c = Overflow"
  by (cases c) (auto split: prod.splits bool.splits option.splits simp: Let_def)

section \<open>Handles\<close>

lemma share_by_id_swap:
  "share_by_id vm sid = Some h \<Longrightarrow> vm_shares vm' = swap_replica sid r (vm_shares vm) \<Longrightarrow>
    share_by_id vm' sid = Some (h\<lparr>sh_replica := r\<rparr>)"
proof -
  have "find (\<lambda>h. si_id (sh_info h) = sid) hs = Some h \<Longrightarrow>
      find (\<lambda>h. si_id (sh_info h) = sid) (swap_replica sid r hs) = Some (h\<lparr>sh_replica := r\<rparr>)" for hs
    by (induction hs) (auto split: if_splits)
  then show "share_by_id vm sid = Some h \<Longrightarrow> vm_shares vm' = swap_replica sid r (vm_shares vm) \<Longrightarrow>
    share_by_id vm' sid = Some (h\<lparr>sh_replica := r\<rparr>)" by (simp add: share_by_id_def)
qed

lemma swap_replica_set: "h \<in> set (swap_replica sid r hs) \<Longrightarrow> sh_replica h = r \<or> h \<in> set hs"
  by (induction hs) (auto split: if_splits)

lemma share_by_id_in: "share_by_id vm sid = Some h \<Longrightarrow> h \<in> set (vm_shares vm)"
  by (auto simp: share_by_id_def find_Some_iff)

lemma live_rec_keeps:
  "vm_shares (fst (live_rec H lossy now wall share c x)) = vm_shares (fst x)"
  "rep_state (fst (snd (live_rec H lossy now wall share c x))) = rep_state (fst (snd x))"
  "snd (snd (live_rec H lossy now wall share c x)) = (snd (snd x) \<or> c = Overflow)"
proof -
  obtain vm r need where x: "x = (vm, r, need)" by (cases x)
  obtain r' out where a: "apply_rec H r c = (r', out)" by fastforce
  have st: "rep_state (fold (\<lambda>p r. bump_dir_attr r p) ps r') = rep_state r'" for ps by (induction ps arbitrary: r') simp_all
  have "rep_state r' = rep_state r" "out = NeedResync \<longleftrightarrow> c = Overflow"
    using state_apply_rec [of H r c] outcome_apply_rec [of H r c] by (simp_all add: a)
  then show "vm_shares (fst (live_rec H lossy now wall share c x)) = vm_shares (fst x)"
    "rep_state (fst (snd (live_rec H lossy now wall share c x))) = rep_state (fst (snd x))"
    "snd (snd (live_rec H lossy now wall share c x)) = (snd (snd x) \<or> c = Overflow)"
    by (auto simp: live_rec_def Let_def x a st is_attr_rec_def split: option.splits rec.splits)
qed

lemma live_recs_keep:
  "vm_shares (fst (fold (live_rec H lossy now wall share) cs x)) = vm_shares (fst x)"
  "rep_state (fst (snd (fold (live_rec H lossy now wall share) cs x))) = rep_state (fst (snd x))"
  "snd (snd (fold (live_rec H lossy now wall share) cs x)) = (snd (snd x) \<or> Overflow \<in> set cs)"
  by (induction cs arbitrary: x) (auto simp: live_rec_keeps)

section \<open>One live batch\<close>

text \<open>A share that is live, with the sequence number its next batch must have.\<close>

definition live_at :: "'t assembler \<Rightarrow> share_id \<Rightarrow> u64 \<Rightarrow> 't share_handle \<Rightarrow> bool" where
  "live_at A share expected h \<longleftrightarrow> share \<noteq> - 1 \<and> fmlookup (as_staging A) share = None
     \<and> share_by_id (as_vm A) share = Some h \<and> rep_state (sh_replica h) = Live
     \<and> fmlookup (as_seq A) share = Some expected"

lemma on_journal_gap:
  assumes "live_at A (jb_share b) expected h" "expected \<noteq> SEQ_ADOPT" "jb_first_seq b \<noteq> expected"
  shows "on_journal H lossy now wall b A = request_resync (jb_share b) A"
  using assms by (simp add: on_journal_def live_at_def)

lemma on_journal_live:
  assumes "live_at A (jb_share b) expected h" "expected = SEQ_ADOPT \<or> jb_first_seq b = expected"
    and "Overflow \<notin> set (jb_records b)"
    and "fold (live_rec H lossy now wall (jb_share b)) (jb_records b) (as_vm A, sh_replica h, False) = (vm, r, need)"
  shows "live_at (on_journal H lossy now wall b A) (jb_share b) (batch_end b) (h\<lparr>sh_replica := r\<rparr>)"
    and "as_sent (on_journal H lossy now wall b A) = as_sent A"
    and "as_vm (on_journal H lossy now wall b A) = vm\<lparr>vm_shares := swap_replica (jb_share b) r (vm_shares (as_vm A)),
      vm_journal_records := vm_journal_records vm + of_nat (length (jb_records b))\<rparr>"
proof -
  note k = live_recs_keep [of H lossy now wall "jb_share b" "jb_records b" "(as_vm A, sh_replica h, False)"]
  have n: "\<not> need" and s: "vm_shares vm = vm_shares (as_vm A)" "rep_state r = Live"
    using k assms(1,3,4) by (auto simp: live_at_def)
  have j: "on_journal H lossy now wall b A =
    A\<lparr>as_seq := fmupd (jb_share b) (batch_end b) (as_seq A),
      as_vm := vm\<lparr>vm_shares := swap_replica (jb_share b) r (vm_shares (as_vm A)),
        vm_journal_records := vm_journal_records vm + of_nat (length (jb_records b))\<rparr>\<rparr>"
    using assms(1,2,4) n s(1) by (auto simp: on_journal_def live_at_def Let_def)
  show "live_at (on_journal H lossy now wall b A) (jb_share b) (batch_end b) (h\<lparr>sh_replica := r\<rparr>)"
    using assms(1) s(2) share_by_id_swap [of "as_vm A" "jb_share b" h _ r] by (simp add: j live_at_def)
  show "as_sent (on_journal H lossy now wall b A) = as_sent A"
    "as_vm (on_journal H lossy now wall b A) = vm\<lparr>vm_shares := swap_replica (jb_share b) r (vm_shares (as_vm A)),
      vm_journal_records := vm_journal_records vm + of_nat (length (jb_records b))\<rparr>" by (simp_all add: j)
qed

section \<open>The batcher loses nothing\<close>

lemma fill_batch_records:
  "fill_batch xs records bytes = (records', xs') \<Longrightarrow> length records \<le> 512 \<Longrightarrow>
    records' @ List.map_filter (\<lambda>x. x) xs' = records @ List.map_filter (\<lambda>x. x) xs
    \<and> length records' \<le> 512 \<and> length records \<le> length records'"
proof (induction xs records bytes arbitrary: records' xs' rule: fill_batch.induct)
  case (1 records bytes)
  then show ?case by simp
next
  case (2 x xs records bytes)
  show ?case
  proof (cases "length records < MAX_RECORDS \<and> bytes < MAX_BATCH_BYTES")
    case True
    show ?thesis
    proof (cases x)
      case None
      then show ?thesis using "2.prems" True by (simp add: List.map_filter_simps)
    next
      case (Some r)
      have "fill_batch xs (records @ [r]) (bytes + approx_size r) = (records', xs')" using "2.prems"(1) True Some by simp
      moreover have "length (records @ [r]) \<le> 512" using True by (simp add: MAX_RECORDS_def)
      ultimately show ?thesis using "2.IH" [OF True Some] by (auto simp: Some List.map_filter_simps)
    qed
  next
    case False
    then show ?thesis using "2.prems" by auto
  qed
qed

primrec contiguous :: "share_id \<Rightarrow> u64 \<Rightarrow> journal_batch list \<Rightarrow> bool" where
  "contiguous share seq [] = True"
| "contiguous share seq (b # bs) =
     (jb_share b = share \<and> jb_first_seq b = seq \<and> contiguous share (batch_end b) bs)"

lemma batcher_ok:
  "concat (map jb_records (batcher share seq xs)) = List.map_filter (\<lambda>x. x) xs
   \<and> contiguous share seq (batcher share seq xs)
   \<and> (\<forall>b \<in> set (batcher share seq xs). jb_records b \<noteq> [] \<and> length (jb_records b) \<le> 512)"
proof (induction share seq xs rule: batcher.induct)
  case (3 share seq r xs)
  obtain records xs' where f: "fill_batch xs [r] 64 = (records, xs')" by fastforce
  note * = fill_batch_records [OF f]
  have "records \<noteq> []" using * by auto
  moreover have "records @ List.map_filter (\<lambda>x. x) xs' = r # List.map_filter (\<lambda>x. x) xs" "length records \<le> 512" using * by simp_all
  ultimately show ?case
    using 3 [OF refl f [symmetric]] by (simp add: f batch_end_def List.map_filter_simps)
qed (simp_all add: List.map_filter_simps)

section \<open>A run of live batches\<close>

text \<open>The effect of one record on the replica; of the VM it depends only on the echo fences.\<close>

definition live_apply ::
    "'t name_index \<Rightarrow> instant \<Rightarrow> u16 \<Rightarrow> recent_map \<Rightarrow> rec \<Rightarrow> 't share_replica \<Rightarrow> 't share_replica" where
  "live_apply H now share dirty c r =
     (let echo = (case conflicted_node H r c of Some n \<Rightarrow> is_mac_dirty now share n dirty | None \<Rightarrow> False)
      in if echo \<and> is_attr_rec c then r
         else fold (\<lambda>p r. bump_dir_attr r p) (bumped_parents now share dirty echo c) (fst (apply_rec H r c)))"

lemma live_rec_apply:
  "fst (snd (live_rec H lossy now wall share c x)) = live_apply H now share (vm_mac_dirty (fst x)) c (fst (snd x))"
  "vm_mac_dirty (fst (live_rec H lossy now wall share c x)) = vm_mac_dirty (fst x)"
  by (auto simp: live_rec_def live_apply_def Let_def split: prod.splits option.splits)

lemma live_recs_apply:
  "fst (snd (fold (live_rec H lossy now wall share) cs x)) =
     fold (live_apply H now share (vm_mac_dirty (fst x))) cs (fst (snd x))
   \<and> vm_mac_dirty (fst (fold (live_rec H lossy now wall share) cs x)) = vm_mac_dirty (fst x)"
  by (induction cs arbitrary: x) (simp_all add: live_rec_apply)

definition timed :: "((instant \<times> u64) \<times> journal_batch) list \<Rightarrow> (instant \<times> rec) list" where
  "timed ps = concat (map (\<lambda>((now, wall), b). map (Pair now) (jb_records b)) ps)"

definition journal_run ::
    "'t name_index \<Rightarrow> (bytes \<Rightarrow> bytes) \<Rightarrow> ((instant \<times> u64) \<times> journal_batch) list \<Rightarrow> 't assembler \<Rightarrow> 't assembler" where
  "journal_run H lossy ps = fold (\<lambda>((now, wall), b). on_journal H lossy now wall b) ps"

lemma timed_records: "map snd (timed ps) = concat (map jb_records (map snd ps))"
  by (induction ps) (auto simp: timed_def comp_def)

lemma live_apply_batch: "fold (live_apply H now share d) cs r = fold (\<lambda>(now, c). live_apply H now share d c) (map (Pair now) cs) r"
  by (induction cs arbitrary: r) simp_all

lemma journal_run_live:
  assumes "live_at A share e h" "e = SEQ_ADOPT \<or> e = seq" "contiguous share seq (map snd ps)"
    and "\<forall>b \<in> set (map snd ps). Overflow \<notin> set (jb_records b)"
  shows "\<exists>e' h'. live_at (journal_run H lossy ps A) share e' h' \<and> as_sent (journal_run H lossy ps A) = as_sent A
    \<and> sh_replica h' = fold (\<lambda>(now, c). live_apply H now share (vm_mac_dirty (as_vm A)) c) (timed ps) (sh_replica h)"
  using assms
proof (induction ps arbitrary: A e h seq)
  case Nil
  then show ?case by (auto simp: journal_run_def timed_def)
next
  case (Cons p ps)
  obtain now wall b where p: "p = ((now, wall), b)" by (cases p) auto
  obtain vm r need where f: "fold (live_rec H lossy now wall share) (jb_records b) (as_vm A, sh_replica h, False) = (vm, r, need)"
    by (cases "fold (live_rec H lossy now wall share) (jb_records b) (as_vm A, sh_replica h, False)")
  have b: "jb_share b = share" "jb_first_seq b = seq" "contiguous share (batch_end b) (map snd ps)"
    using Cons.prems(3) by (simp_all add: p)
  let ?A = "on_journal H lossy now wall b A"
  note l = on_journal_live [of A b e h H lossy now wall vm r need, unfolded b(1)]
  have la: "live_at ?A share (batch_end b) (h\<lparr>sh_replica := r\<rparr>)" and sent: "as_sent ?A = as_sent A"
    and dirty: "vm_mac_dirty (as_vm ?A) = vm_mac_dirty (as_vm A)"
    using l Cons.prems f b live_recs_apply [of H lossy now wall share "jb_records b" "(as_vm A, sh_replica h, False)"]
    by (auto simp: p)
  have r: "r = fold (live_apply H now share (vm_mac_dirty (as_vm A))) (jb_records b) (sh_replica h)"
    using live_recs_apply [of H lossy now wall share "jb_records b" "(as_vm A, sh_replica h, False)"] f by simp
  have "\<exists>e' h'. live_at (journal_run H lossy ps ?A) share e' h' \<and> as_sent (journal_run H lossy ps ?A) = as_sent ?A
    \<and> sh_replica h' = fold (\<lambda>(now, c). live_apply H now share (vm_mac_dirty (as_vm ?A)) c) (timed ps) r"
    using Cons.IH [OF la _ b(3)] Cons.prems(4) by simp
  then show ?case
    by (simp add: p journal_run_def timed_def sent dirty r live_apply_batch)
qed

section \<open>Seeding\<close>

type_synonym timed_event = "(instant \<times> u64) \<times> event_msg"

definition event_run ::
    "'t name_index \<Rightarrow> (bytes \<Rightarrow> bytes) \<Rightarrow> timed_event list \<Rightarrow> 't assembler \<Rightarrow> 't assembler" where
  "event_run H lossy es = fold (\<lambda>((now, wall), ev). on_event H lossy now wall ev) es"

fun seed_event :: "share_id \<Rightarrow> u64 \<Rightarrow> event_msg \<Rightarrow> bool" where
  "seed_event share sid (EvSnapDir d) = (sd_share d = share \<and> sd_snap_id d = sid)"
| "seed_event share sid (EvJournal b) = (jb_share b = share)"
| "seed_event share sid (EvSnapDone _) = False"

fun snaps_of :: "event_msg list \<Rightarrow> snap_dir list" where
  "snaps_of [] = []"
| "snaps_of (EvSnapDir d # es) = d # snaps_of es"
| "snaps_of (_ # es) = snaps_of es"

fun batches_of :: "event_msg list \<Rightarrow> journal_batch list" where
  "batches_of [] = []"
| "batches_of (EvJournal b # es) = b # batches_of es"
| "batches_of (_ # es) = batches_of es"

primrec snap_all :: "'t name_index \<Rightarrow> snap_dir list \<Rightarrow> 't share_replica \<Rightarrow> 't share_replica option" where
  "snap_all H [] r = Some r"
| "snap_all H (d # ds) r = (case apply_snap_dir H r d of Some r \<Rightarrow> snap_all H ds r | None \<Rightarrow> None)"

lemma seed_events:
  assumes "share \<noteq> - 1" "fmlookup (as_staging A) share = Some s"
    and "\<forall>e \<in> set (map snd es). seed_event share (st_snap_id s) e"
    and "snap_all H (snaps_of (map snd es)) (st_replica s) = Some r"
  shows "as_vm (event_run H lossy es A) = as_vm A \<and> as_sent (event_run H lossy es A) = as_sent A
    \<and> as_seq (event_run H lossy es A) = as_seq A
    \<and> fmlookup (as_staging (event_run H lossy es A)) share =
        Some (s\<lparr>st_replica := r, st_journal_buf := st_journal_buf s @ batches_of (map snd es)\<rparr>)"
  using assms(2-)
proof (induction es arbitrary: A s)
  case Nil
  then show ?case by (simp add: event_run_def)
next
  case (Cons x es)
  obtain now wall ev where x: "x = ((now, wall), ev)" by (cases x) auto
  have run: "event_run H lossy (x # es) A = event_run H lossy es (on_event H lossy now wall ev A)"
    by (simp add: event_run_def x)
  show ?case
  proof (cases ev)
    case (EvJournal b)
    let ?s = "s\<lparr>st_journal_buf := st_journal_buf s @ [b]\<rparr>"
    have "on_event H lossy now wall ev A = A\<lparr>as_staging := fmupd share ?s (as_staging A)\<rparr>"
      using Cons.prems assms(1) by (simp add: EvJournal on_event_def on_journal_def x)
    then show ?thesis using Cons.IH [of "A\<lparr>as_staging := fmupd share ?s (as_staging A)\<rparr>" ?s] Cons.prems
      unfolding run by (simp add: x EvJournal)
  next
    case (EvSnapDir d)
    obtain r' where r': "apply_snap_dir H (st_replica s) d = Some r'"
      using Cons.prems(3) by (simp add: x EvSnapDir split: option.splits)
    let ?s = "s\<lparr>st_replica := r'\<rparr>"
    have "on_event H lossy now wall ev A = A\<lparr>as_staging := fmupd share ?s (as_staging A)\<rparr>"
      using Cons.prems r' by (simp add: EvSnapDir on_event_def x)
    then show ?thesis using Cons.IH [of "A\<lparr>as_staging := fmupd share ?s (as_staging A)\<rparr>" ?s] Cons.prems r'
      unfolding run by (simp add: x EvSnapDir)
  next
    case (EvSnapDone dn)
    then show ?thesis using Cons.prems by (simp add: x)
  qed
qed

lemma finish_seed_live:
  assumes "fmlookup (as_staging A) (done_share dn) = Some s" "st_snap_id s = done_snap_id dn" "done_share dn \<noteq> - 1"
    and "share_by_id (as_vm A) (done_share dn) = Some h"
  shows "live_at (finish_seed H dn A) (done_share dn) (replay_seq (st_journal_buf s) SEQ_ADOPT)
      (h\<lparr>sh_replica := set_state (replay_buf H (st_journal_buf s) (fst (finish_snapshot (st_replica s)))) Live\<rparr>)"
    and "as_sent (finish_seed H dn A) = as_sent A"
proof -
  let ?r = "set_state (replay_buf H (st_journal_buf s) (fst (finish_snapshot (st_replica s)))) Live"
  have j: "finish_seed H dn A = A\<lparr>as_staging := fmdrop (done_share dn) (as_staging A),
      as_vm := (as_vm A)\<lparr>vm_shares := swap_replica (done_share dn) ?r (vm_shares (as_vm A))\<rparr>,
      as_seq := fmupd (done_share dn) (replay_seq (st_journal_buf s) SEQ_ADOPT) (as_seq A)\<rparr>"
    using assms by (simp add: finish_seed_def Let_def case_prod_beta)
  show "live_at (finish_seed H dn A) (done_share dn) (replay_seq (st_journal_buf s) SEQ_ADOPT) (h\<lparr>sh_replica := ?r\<rparr>)"
    using assms share_by_id_swap [of "as_vm A" "done_share dn" h _ ?r] by (simp add: j live_at_def) (simp add: set_state_def)
  show "as_sent (finish_seed H dn A) = as_sent A" by (simp add: j)
qed

section \<open>The replicas of a session\<close>

definition batch_weight :: "journal_batch \<Rightarrow> nat" where
  "batch_weight b = sum_list (map rec_weight (jb_records b))"

definition buf_weight :: "journal_batch list \<Rightarrow> nat" where
  "buf_weight bs = sum_list (map batch_weight bs)"

fun event_weight :: "event_msg \<Rightarrow> nat" where
  "event_weight (EvSnapDir d) = length (sd_entries d)"
| "event_weight (EvJournal b) = batch_weight b"
| "event_weight (EvSnapDone _) = 0"

text \<open>Every replica has room for \<open>m\<close> more entries, the staged ones also for their buffers.\<close>

definition asm_room :: "nat \<Rightarrow> 't assembler \<Rightarrow> bool" where
  "asm_room m A \<longleftrightarrow> (\<forall>h \<in> set (vm_shares (as_vm A)). roomy m (sh_replica h))
     \<and> (\<forall>share s. fmlookup (as_staging A) share = Some s \<longrightarrow> roomy (buf_weight (st_journal_buf s) + m) (st_replica s))"

definition asm_wf ::
    "'t name_index \<Rightarrow> ('t \<Rightarrow> (u64 \<times> u32) multiset) \<Rightarrow> 't assembler \<Rightarrow> bool" where
  "asm_wf H slots A \<longleftrightarrow> (\<forall>h \<in> set (vm_shares (as_vm A)). base_ok H slots 0 (sh_replica h))
     \<and> (\<forall>share s. fmlookup (as_staging A) share = Some s \<longrightarrow> base_ok H slots 0 (st_replica s))"

inductive asm_reach ::
    "'t name_index \<Rightarrow> (bytes \<Rightarrow> bytes) \<Rightarrow> 't assembler \<Rightarrow> bool"
  for H :: "'t name_index" and lossy :: "bytes \<Rightarrow> bytes" where
  start: "\<forall>h \<in> set (vm_shares (as_vm A)). sh_replica h = replica_new (sh_info h) \<Longrightarrow> as_staging A = fmempty \<Longrightarrow>
    asm_reach H lossy A"
| stage: "asm_reach H lossy A \<Longrightarrow> asm_reach H lossy (asm_begin share sid A)"
| event: "asm_reach H lossy A \<Longrightarrow> validate_event_msg ev = Ok () \<Longrightarrow> asm_room (event_weight ev) A \<Longrightarrow>
    asm_reach H lossy (on_event H lossy now wall ev A)"

text \<open>The three outcomes of a batch: applied to the live replica, buffered, or a resync.\<close>

definition live_step :: "journal_batch \<Rightarrow> 't vm_handle \<Rightarrow> 't share_replica \<Rightarrow> bool \<Rightarrow> 't assembler \<Rightarrow> 't assembler" where
  "live_step b vm r need A =
     (let vm = vm\<lparr>vm_shares := swap_replica (jb_share b) r (vm_shares vm),
                  vm_journal_records := vm_journal_records vm + of_nat (length (jb_records b))\<rparr>
      in A\<lparr>as_seq := fmupd (jb_share b) (batch_end b) (as_seq A),
           as_vm := (if need then vm\<lparr>vm_overflows := vm_overflows vm + 1\<rparr> else vm)\<rparr>)"

lemma on_journal_applies:
  assumes "live_at A (jb_share b) e h" "e = SEQ_ADOPT \<or> jb_first_seq b = e"
    and "fold (live_rec H lossy now wall (jb_share b)) (jb_records b) (as_vm A, sh_replica h, False) = (vm, r, need)"
  shows "on_journal H lossy now wall b A =
    (if need then request_resync (jb_share b) (live_step b vm r need A) else live_step b vm r need A)"
proof -
  have "(e \<noteq> SEQ_ADOPT \<and> jb_first_seq b \<noteq> e) = False" using assms(2) by blast
  then show ?thesis using assms(1,3) by (simp add: on_journal_def live_at_def live_step_def Let_def) blast
qed

lemma on_journal_rest:
  assumes "\<not> (\<exists>e h. live_at A (jb_share b) e h \<and> (e = SEQ_ADOPT \<or> jb_first_seq b = e))"
  shows "on_journal H lossy now wall b A = A
    \<or> (\<exists>ids. on_journal H lossy now wall b A = fold request_resync ids A)
    \<or> (\<exists>s. fmlookup (as_staging A) (jb_share b) = Some s \<and> on_journal H lossy now wall b A =
         A\<lparr>as_staging := fmupd (jb_share b) (s\<lparr>st_journal_buf := st_journal_buf s @ [b]\<rparr>) (as_staging A)\<rparr>)"
proof (cases "jb_share b = - 1")
  case True
  then show ?thesis by (auto simp: on_journal_def)
next
  case F: False
  show ?thesis
  proof (cases "\<exists>e h. live_at A (jb_share b) e h")
    case True
    then obtain e h where "live_at A (jb_share b) e h" by blast
    then have "on_journal H lossy now wall b A = fold request_resync [jb_share b] A"
      using assms on_journal_gap by fastforce
    then show ?thesis by blast
  next
    case False
    then show ?thesis using F
      by (cases "fmlookup (as_staging A) (jb_share b)"; cases "share_by_id (as_vm A) (jb_share b)"; cases "fmlookup (as_seq A) (jb_share b)")
        (simp_all add: on_journal_def live_at_def)
  qed
qed

context hash_index
begin

lemma base_ok_mono_le: "base_ok H slots (m + n) r \<Longrightarrow> base_ok H slots n r"
  by (induction m) (auto dest: base_ok_mono)

lemma replay_base:
  "base_ok H slots (sum_list (map rec_weight cs) + n) r \<Longrightarrow>
    base_ok H slots n (fold (\<lambda>c r. fst (apply_rec H r c)) cs r)"
proof (induction cs arbitrary: r)
  case (Cons c cs)
  then have "base_ok H slots (sum_list (map rec_weight cs) + n) (fst (apply_rec H r c))"
    by (intro apply_rec_ok(1)) (simp add: add.assoc)
  then show ?case using Cons.IH by simp
qed simp

lemma replay_buf_base: "base_ok H slots (buf_weight bs + n) r \<Longrightarrow> base_ok H slots n (replay_buf H bs r)"
proof (induction bs arbitrary: r)
  case (Cons b bs)
  then have "base_ok H slots (buf_weight bs + n) (fold (\<lambda>c r. fst (apply_rec H r c)) (jb_records b) r)"
    by (intro replay_base) (simp add: buf_weight_def batch_weight_def add.assoc)
  then show ?case using Cons.IH by (simp add: replay_buf_def)
qed (simp add: replay_buf_def buf_weight_def)

lemma bump_base: "base_ok H slots n r \<Longrightarrow> base_ok H slots n (bump_dir_attr r k)"
proof -
  assume b: "base_ok H slots n r"
  have "rep_pending (bump_dir_attr r k) = rep_pending r"
    by (simp add: bump_dir_attr_def Let_def split: option.splits)
  then show ?thesis using base_ok_same_shape [OF b same_shape_bump_dir_attr, of k] b by (simp add: base_ok_def)
qed

lemma live_apply_base:
  assumes "base_ok H slots (rec_weight c + n) r"
  shows "base_ok H slots n (live_apply H now share dirty c r)"
proof -
  have "base_ok H slots n (fold (\<lambda>p r. bump_dir_attr r p) ps r')" if "base_ok H slots n r'" for ps r'
    using that by (induction ps arbitrary: r') (simp_all add: bump_base)
  then show ?thesis
    using apply_rec_ok(1) [OF assms] base_ok_mono_le [OF assms] by (simp add: live_apply_def Let_def)
qed

lemma live_applies_base:
  "base_ok H slots (sum_list (map rec_weight cs) + n) r \<Longrightarrow> base_ok H slots n (fold (live_apply H now share dirty) cs r)"
proof (induction cs arbitrary: r)
  case (Cons c cs)
  then have "base_ok H slots (sum_list (map rec_weight cs) + n) (live_apply H now share dirty c r)"
    by (intro live_apply_base) (simp add: add.assoc)
  then show ?case using Cons.IH by simp
qed simp

lemma asm_begin_wf: "asm_wf H slots A \<Longrightarrow> asm_wf H slots (asm_begin share sid A)"
  using base_ok_new by (auto simp: asm_wf_def asm_begin_def split: option.splits if_splits)

lemma request_resync_wf: "asm_wf H slots A \<Longrightarrow> asm_wf H slots (request_resync share A)"
proof -
  assume "asm_wf H slots A"
  then have "asm_wf H slots (A\<lparr>as_draws := as_draws A + 1\<rparr>)" by (simp add: asm_wf_def)
  from asm_begin_wf [OF this] show ?thesis by (simp add: request_resync_def asm_wf_def Let_def)
qed

lemma request_resyncs_wf: "asm_wf H slots A \<Longrightarrow> asm_wf H slots (fold request_resync ids A)"
  by (induction ids arbitrary: A) (simp_all add: request_resync_wf)

lemma swap_wf:
  assumes "asm_wf H slots A" "base_ok H slots 0 r" "as_staging A' = as_staging A"
    "vm_shares (as_vm A') = swap_replica share r (vm_shares (as_vm A))"
  shows "asm_wf H slots A'"
  using assms by (auto simp: asm_wf_def dest!: swap_replica_set)

lemma finish_seed_wf:
  assumes "asm_wf H slots A" "asm_room 0 A"
  shows "asm_wf H slots (finish_seed H dn A)"
proof (cases "fmlookup (as_staging A) (done_share dn)")
  case None
  then show ?thesis using assms(1) by (simp add: finish_seed_def)
next
  case (Some s)
  have b: "base_ok H slots (buf_weight (st_journal_buf s) + 0) (st_replica s)"
    using assms Some by (auto simp: asm_wf_def asm_room_def base_ok_def)
  then have "base_ok H slots (buf_weight (st_journal_buf s) + 0) (fst (finish_snapshot (st_replica s)))"
    using finish_snapshot_recount(1) [of H slots "st_replica s"] base_ok_set_state by (auto simp: base_ok_def)
  from base_ok_set_state [OF replay_buf_base [OF this]]
  have r: "base_ok H slots 0 (set_state (replay_buf H (st_journal_buf s) (fst (finish_snapshot (st_replica s)))) Live)" .
  let ?A = "A\<lparr>as_staging := fmdrop (done_share dn) (as_staging A)\<rparr>"
  have w: "asm_wf H slots ?A" using assms(1) by (auto simp: asm_wf_def split: if_splits)
  show ?thesis
  proof (cases "st_snap_id s \<noteq> done_snap_id dn")
    case True
    then show ?thesis using assms(1) Some by (simp add: finish_seed_def)
  next
    case False
    show ?thesis
    proof (cases "share_by_id (as_vm A) (done_share dn)")
      case None
      then show ?thesis using w Some False by (simp add: finish_seed_def asm_wf_def Let_def case_prod_beta)
    next
      case (Some h)
      then show ?thesis
        using \<open>fmlookup (as_staging A) (done_share dn) = Some s\<close> False
        by (intro swap_wf [OF w r]) (simp_all add: finish_seed_def Let_def case_prod_beta)
    qed
  qed
qed

lemma on_journal_wf:
  assumes "asm_wf H slots A" "asm_room (batch_weight b) A"
  shows "asm_wf H slots (on_journal H lossy now wall b A)"
proof (cases "\<exists>e h. live_at A (jb_share b) e h \<and> (e = SEQ_ADOPT \<or> jb_first_seq b = e)")
  case True
  then obtain e h where l: "live_at A (jb_share b) e h" "e = SEQ_ADOPT \<or> jb_first_seq b = e" by blast
  obtain vm r need where f: "fold (live_rec H lossy now wall (jb_share b)) (jb_records b) (as_vm A, sh_replica h, False) = (vm, r, need)"
    by (cases "fold (live_rec H lossy now wall (jb_share b)) (jb_records b) (as_vm A, sh_replica h, False)")
  note la = live_recs_apply [of H lossy now wall "jb_share b" "jb_records b" "(as_vm A, sh_replica h, False)", unfolded f]
  have "h \<in> set (vm_shares (as_vm A))" using l(1) by (auto simp: live_at_def intro: share_by_id_in)
  then have "base_ok H slots (sum_list (map rec_weight (jb_records b)) + 0) (sh_replica h)"
    using assms by (auto simp: asm_wf_def asm_room_def batch_weight_def base_ok_def)
  from live_applies_base [OF this, of now "jb_share b" "vm_mac_dirty (as_vm A)"]
  have r: "base_ok H slots 0 r" using la by simp
  have vm: "vm_shares vm = vm_shares (as_vm A)"
    using live_recs_keep(1) [of H lossy now wall "jb_share b" "jb_records b" "(as_vm A, sh_replica h, False)"] f by simp
  have w: "asm_wf H slots (live_step b vm r need A)" by (rule swap_wf [OF assms(1) r, where share = "jb_share b"]) (simp_all add: vm live_step_def Let_def)
  show ?thesis unfolding on_journal_applies [OF l f] using w request_resync_wf [OF w, of "jb_share b"] by presburger
next
  case False
  from on_journal_rest [OF this, of H lossy now wall] show ?thesis
  proof (elim disjE exE conjE)
    fix s
    assume "fmlookup (as_staging A) (jb_share b) = Some s"
      and j: "on_journal H lossy now wall b A = A\<lparr>as_staging := fmupd (jb_share b) (s\<lparr>st_journal_buf := st_journal_buf s @ [b]\<rparr>) (as_staging A)\<rparr>"
    then have "base_ok H slots 0 (st_replica s)" using assms(1) unfolding asm_wf_def by blast
    then show ?thesis using assms(1) unfolding j asm_wf_def by simp
  qed (simp_all add: assms(1) request_resyncs_wf)
qed

lemma on_event_wf:
  assumes "asm_wf H slots A" "validate_event_msg ev = Ok ()" "asm_room (event_weight ev) A"
  shows "asm_wf H slots (on_event H lossy now wall ev A)"
proof (cases ev)
  case (EvJournal b)
  then show ?thesis using on_journal_wf assms by (simp add: on_event_def)
next
  case (EvSnapDone dn)
  then show ?thesis using finish_seed_wf assms by (simp add: on_event_def)
next
  case (EvSnapDir d)
  show ?thesis
  proof (cases "\<exists>s. fmlookup (as_staging A) (sd_share d) = Some s \<and> st_snap_id s = sd_snap_id d")
    case True
    then obtain s where s: "fmlookup (as_staging A) (sd_share d) = Some s" "st_snap_id s = sd_snap_id d" by blast
    have "roomy (buf_weight (st_journal_buf s) + length (sd_entries d)) (st_replica s)"
      using assms(3) s(1) by (simp add: asm_room_def EvSnapDir)
    moreover have "base_ok H slots 0 (st_replica s)" using assms(1) s(1) by (auto simp: asm_wf_def)
    ultimately have "base_ok H slots (buf_weight (st_journal_buf s) + (length (sd_entries d) + 0)) (st_replica s)"
      by (simp add: base_ok_def)
    from apply_snap_dir_ok [OF base_ok_mono_le [OF this]] snap_dir_kind [of d] assms(2) EvSnapDir
    obtain r' where "apply_snap_dir H (st_replica s) d = Some r'" "base_ok H slots 0 r'" by auto
    then show ?thesis using assms(1) s by (auto simp: on_event_def EvSnapDir asm_wf_def)
  next
    case False
    then show ?thesis using assms(1) by (auto simp: on_event_def EvSnapDir split: option.splits)
  qed
qed

lemma asm_reach_wf:
  assumes "asm_reach H lossy A"
  shows "asm_wf H slots A"
  using assms
proof induction
  case (start A)
  have "base_ok H slots 0 (sh_replica h)" if "h \<in> set (vm_shares (as_vm A))" for h
    unfolding bspec [OF start(1) that] by (rule base_ok_new)
  then show ?case using start(2) by (simp add: asm_wf_def)
next
  case (stage A share sid)
  show ?case by (rule asm_begin_wf [OF stage.IH])
next
  case (event A ev now wall)
  show ?case by (rule on_event_wf [OF event.IH event.hyps(2,3)])
qed

end

section \<open>A sample session\<close>

definition sample_asm :: "(u64 \<times> u32) list share_replica \<Rightarrow> (u64 \<times> u32) list assembler" where
  "sample_asm r = \<lparr>as_vm = \<lparr>vm_shares = [\<lparr>sh_info = sample_info, sh_replica = r\<rparr>], vm_mac_dirty = fmempty,
       vm_conflicts = tracker_default, vm_journal_records = 0, vm_overflows = 0, vm_inval = []\<rparr>,
     as_staging = fmempty, as_infos = fmap_of_list [(0, sample_info)], as_seq = fmap_of_list [(0, 7)],
     as_sent = [], as_rng = (\<lambda>_. 1), as_draws = 0\<rparr>"

definition sample_live :: "(u64 \<times> u32) list assembler" where
  "sample_live = sample_asm (set_state sample_rep Live)"

definition sample_seeding :: "(u64 \<times> u32) list assembler" where
  "sample_seeding = asm_begin 0 1 (sample_asm (replica_new sample_info))"

definition sample_batch :: "u64 \<Rightarrow> journal_batch" where
  "sample_batch seq = \<lparr>jb_share = 0, jb_first_seq = seq, jb_guest_mono_ns = 0, jb_records = [Removed (nk 2) name_a, Overflow]\<rparr>"

definition sample_done :: snap_done where "sample_done = \<lparr>done_snap_id = 1, done_share = 0, done_dirs = 1, done_entries = 2, done_errors = 0\<rparr>"

definition sample_stream :: "((instant \<times> u64) \<times> journal_batch) list" where
  "sample_stream = map (Pair (5, 6)) (batcher 0 7 [Some (Removed (nk 2) name_a), None, Some (SelfRemoved (nk 11))])"

definition sample_buffered :: "(u64 \<times> u32) list assembler" where
  "sample_buffered = event_run list_index (\<lambda>x. x) [((1, 2), EvJournal (sample_batch 3))] sample_seeding"

lemma set_state_Live [simp]: "rep_state (set_state r Live) = Live"
  by (simp add: set_state_def)

lemma sample_live_at: "live_at sample_live 0 7 \<lparr>sh_info = sample_info, sh_replica = set_state sample_rep Live\<rparr>"
  by (simp add: live_at_def sample_live_def sample_asm_def share_by_id_def sample_info_def fmlookup_of_list)

lemma sample_seeding_simps:
  "as_vm sample_seeding = as_vm (sample_asm (replica_new sample_info))"
  "fmlookup (as_staging sample_seeding) 0 = Some \<lparr>st_snap_id = 1, st_replica = replica_new sample_info, st_journal_buf = []\<rparr>"
  "share_by_id (as_vm (sample_asm r)) 0 = Some \<lparr>sh_info = sample_info, sh_replica = r\<rparr>"
  by (simp_all add: sample_seeding_def asm_begin_def sample_asm_def fmlookup_of_list share_by_id_def sample_info_def)

definition sample_seeded :: "(u64 \<times> u32) list assembler" where
  "sample_seeded = on_event list_index (\<lambda>x. x) 3 4 (EvSnapDone sample_done)
     (on_event list_index (\<lambda>x. x) 1 2 (EvSnapDir sample_snap) sample_seeding)"

lemma sample_snap_share: "sd_share sample_snap = 0" "sd_snap_id sample_snap = 1"
  by (simp_all add: sample_snap_def)

lemma sample_filled:
  "on_event list_index lossy now wall (EvSnapDir sample_snap) sample_seeding =
    sample_seeding\<lparr>as_staging := fmupd 0 \<lparr>st_snap_id = 1, st_replica = sample_rep, st_journal_buf = []\<rparr> (as_staging sample_seeding)\<rparr>"
  by (simp add: on_event_def sample_seeding_simps sample_snap_applied sample_snap_share)

lemma sample_room: "m < 2 ^ 23 \<Longrightarrow> asm_room m sample_seeding"
  using base_ok_empty [of m sample_info]
  by (auto simp: asm_room_def sample_seeding_def asm_begin_def sample_asm_def fmlookup_of_list base_ok_def buf_weight_def
      split: if_splits)

lemma sample_seeded_reach: "asm_reach list_index (\<lambda>x. x) sample_seeded"
proof -
  have "asm_reach list_index (\<lambda>x. x) (sample_asm (replica_new sample_info))"
    by (rule asm_reach.start) (simp_all add: sample_asm_def)
  from asm_reach.stage [OF this, of 0 1]
  have "asm_reach list_index (\<lambda>x. x) sample_seeding" by (simp add: sample_seeding_def)
  from asm_reach.event [OF this, of "EvSnapDir sample_snap" 1 2]
  have "asm_reach list_index (\<lambda>x. x) (on_event list_index (\<lambda>x. x) 1 2 (EvSnapDir sample_snap) sample_seeding)"
    using sample_valid sample_room [of 2] by simp
  moreover have "asm_room 0 (on_event list_index (\<lambda>x. x) 1 2 (EvSnapDir sample_snap) sample_seeding)"
    using sample_room [of 0] sample_roomy [of 0] by (auto simp: asm_room_def sample_filled buf_weight_def)
  ultimately show ?thesis
    unfolding sample_seeded_def using asm_reach.event [of list_index "\<lambda>x. x" _ "EvSnapDone sample_done" 3 4] by simp
qed

lemma sample_seeded_vm: "vm_shares (as_vm sample_seeded) =
    [\<lparr>sh_info = sample_info, sh_replica = set_state (fst (finish_snapshot sample_rep)) Live\<rparr>]"
proof -
  have "sample_seeded = finish_seed list_index sample_done
      (sample_seeding\<lparr>as_staging := fmupd 0 \<lparr>st_snap_id = 1, st_replica = sample_rep, st_journal_buf = []\<rparr> (as_staging sample_seeding)\<rparr>)"
    unfolding sample_seeded_def sample_filled by (simp add: on_event_def)
  also have "vm_shares (as_vm \<dots>) = swap_replica 0 (set_state (fst (finish_snapshot sample_rep)) Live)
      (vm_shares (as_vm (sample_asm (replica_new sample_info))))"
    by (simp add: finish_seed_def sample_done_def sample_seeding_simps case_prod_beta Let_def replay_buf_def)
  finally show ?thesis by (simp add: sample_asm_def sample_info_def)
qed

lemma sample_seeded_size: "fmap_size (rep_shards (set_state (fst (finish_snapshot sample_rep)) Live)) = 3"
  by code_simp

section \<open>Properties of a session\<close>



text \<open>
  C36. A gap is noticed: a batch that does not start at the expected sequence number leaves the
  mounted replica as it is, takes the share out of live application and requests a snapshot
  into a fresh replica.
\<close>

theorem journal_gap_resyncs:
  assumes "live_at A (jb_share b) e h" "e \<noteq> SEQ_ADOPT" "jb_first_seq b \<noteq> e"
    and "fmlookup (as_infos A) (jb_share b) = Some info" "A' = on_journal H lossy now wall b A"
  shows "as_vm A' = as_vm A \<and> fmlookup (as_seq A') (jb_share b) = None
    \<and> (\<exists>s. fmlookup (as_staging A') (jb_share b) = Some s \<and> st_replica s = replica_new info
        \<and> st_journal_buf s = [] \<and> SnapshotStart (jb_share b) (st_snap_id s) \<in> set (as_sent A'))"
  using assms on_journal_gap [OF assms(1-3)] by (simp add: request_resync_def asm_begin_def Let_def)

theorem journal_gap_resyncs_witness:
  "\<exists>s. fmlookup (as_staging (on_journal list_index (\<lambda>x. x) 5 6 (sample_batch 9) sample_live)) 0 = Some s
    \<and> st_replica s = replica_new sample_info"
proof -
  have "live_at sample_live (jb_share (sample_batch 9)) 7 \<lparr>sh_info = sample_info, sh_replica = set_state sample_rep Live\<rparr>"
    using sample_live_at by (simp add: sample_batch_def)
  from journal_gap_resyncs [OF this _ _ _ refl, of sample_info list_index "\<lambda>x. x" 5 6]
  show ?thesis by (auto simp: sample_batch_def SEQ_ADOPT_def sample_live_def sample_asm_def fmlookup_of_list)
qed

text \<open>
  C6. Seeding is a consistent cut: while snapshot records and journal batches arrive in any
  interleaving, what is mounted does not change; when the snapshot is done, the share becomes
  live with the replica of all its snapshot records, and then of all the batches in order.
\<close>

theorem seed_consistent_cut:
  assumes "share \<noteq> - 1" "fmlookup (as_staging A) share = Some s" "st_journal_buf s = []"
    and "\<forall>e \<in> set (map snd es). seed_event share (st_snap_id s) e"
    and "snap_all H (snaps_of (map snd es)) (st_replica s) = Some r"
    and "done_share dn = share" "done_snap_id dn = st_snap_id s" "share_by_id (as_vm A) share = Some h"
  shows "as_vm (event_run H lossy es A) = as_vm A
    \<and> (\<exists>h' e'. live_at (finish_seed H dn (event_run H lossy es A)) share e' h'
        \<and> sh_replica h' = set_state (replay_buf H (batches_of (map snd es)) (fst (finish_snapshot r))) Live)"
proof -
  note se = seed_events [OF assms(1,2,4,5), of lossy]
  have "fmlookup (as_staging (event_run H lossy es A)) (done_share dn) =
      Some (s\<lparr>st_replica := r, st_journal_buf := batches_of (map snd es)\<rparr>)"
    "share_by_id (as_vm (event_run H lossy es A)) (done_share dn) = Some h"
    using se assms(3,6,8) by simp_all
  from finish_seed_live(1) [OF this(1) _ _ this(2), of H]
  have "live_at (finish_seed H dn (event_run H lossy es A)) share (replay_seq (batches_of (map snd es)) SEQ_ADOPT)
      (h\<lparr>sh_replica := set_state (replay_buf H (batches_of (map snd es)) (fst (finish_snapshot r))) Live\<rparr>)"
    using assms(1,6,7) by simp
  moreover have "sh_replica (h\<lparr>sh_replica := x\<rparr>) = x" for x by simp
  ultimately show ?thesis using conjunct1 [OF se] by blast
qed

theorem seed_consistent_cut_witness:
  "\<exists>h' e'. live_at (finish_seed list_index sample_done (event_run list_index (\<lambda>x. x)
        [((1, 2), EvJournal (sample_batch 3)), ((3, 4), EvSnapDir sample_snap)] sample_seeding)) 0 e' h'
     \<and> sh_replica h' = set_state (replay_buf list_index [sample_batch 3] (fst (finish_snapshot sample_rep))) Live"
proof -
  have "seed_event 0 1 (EvSnapDir sample_snap)" by (simp add: sample_snap_def)
  moreover have "seed_event 0 1 (EvJournal (sample_batch 3))" by (simp add: sample_batch_def)
  ultimately show ?thesis
    using seed_consistent_cut [OF _ sample_seeding_simps(2), of "[((1, 2), EvJournal (sample_batch 3)), ((3, 4), EvSnapDir sample_snap)]"
        list_index sample_rep sample_done]
    by (auto simp: sample_snap_applied sample_done_def sample_seeding_simps)
qed

text \<open>
  C37. The end of a seed never asks for a resync, not even when a batch buffered during the
  snapshot reported an overflow of the guest's event queue.
\<close>

theorem seed_ignores_overflow:
  assumes "fmlookup (as_staging A) (done_share dn) = Some s" "st_snap_id s = done_snap_id dn" "done_share dn \<noteq> - 1"
    and "share_by_id (as_vm A) (done_share dn) = Some h" "b \<in> set (st_journal_buf s)" "Overflow \<in> set (jb_records b)"
  shows "as_sent (finish_seed H dn A) = as_sent A \<and> (\<exists>e h'. live_at (finish_seed H dn A) (done_share dn) e h')"
  using finish_seed_live [OF assms(1-4), of H] by blast

theorem seed_ignores_overflow_witness:
  "as_sent (finish_seed list_index sample_done sample_buffered) = []"
proof -
  have sh: "jb_share (sample_batch 3) = 0" by (simp add: sample_batch_def)
  have A: "sample_buffered = sample_seeding\<lparr>as_staging := fmupd 0 \<lparr>st_snap_id = 1, st_replica = replica_new sample_info, st_journal_buf = [sample_batch 3]\<rparr>
      (as_staging sample_seeding)\<rparr>"
    by (simp add: sample_buffered_def event_run_def on_event_def on_journal_def sh sample_seeding_simps)
  have "as_sent sample_buffered = []" by (simp add: A sample_seeding_def asm_begin_def sample_asm_def fmlookup_of_list)
  moreover have "Overflow \<in> set (jb_records (sample_batch 3))" by (simp add: sample_batch_def)
  ultimately show ?thesis
    using seed_ignores_overflow [of sample_buffered sample_done _ _ "sample_batch 3" list_index]
    by (simp add: A sample_done_def sample_seeding_simps)
qed

text \<open>
  C35. In every reachable state of a session each mounted replica has exact counters and
  well-formed directory tables, through seeds, live batches, gaps and resyncs.
\<close>

theorem session_replicas_exact:
  assumes "hash_index H slots" "asm_reach H lossy A" "h \<in> set (vm_shares (as_vm A))" "r = sh_replica h"
  shows "rep_nodes r = of_nat (fmap_size (rep_shards r)) \<and> rep_dirs r = of_nat (total_dirs r)
    \<and> rep_entries r = of_nat (fmap_sum node_live_len (rep_shards r))
    \<and> (\<forall>k d. get_dir r k = Some d \<longrightarrow> dir_wf H slots d)"
proof -
  have "base_ok H slots 0 r" using hash_index.asm_reach_wf [OF assms(1,2)] assms(3,4) unfolding asm_wf_def by blast
  then have b: "dirs_wf H slots r" "counters_ok r" by (simp_all add: base_ok_def)
  then show ?thesis using finish_total [OF b(1)] by (simp add: counters_ok_def err_defs dirs_wf_def)
qed

theorem session_replicas_exact_witness:
  "rep_nodes (sh_replica (hd (vm_shares (as_vm sample_seeded)))) = 3"
proof -
  have "asm_reach list_index (\<lambda>x. x) sample_seeded" by (rule sample_seeded_reach)
  from session_replicas_exact [OF list_index.hash_index_axioms this, of "hd (vm_shares (as_vm sample_seeded))"]
  show ?thesis by (simp add: sample_seeded_vm sample_seeded_size)
qed

end
