(* ===== verification/Cas.thy ===== *)
theory Cas
  imports Proto_Types
begin

text \<open>
  The content-addressed store of the host (\<^verbatim>\<open>crates/mist-cas/src/lib.rs\<close>). The two database
  tables, the directory of blob files, the table of open handles and the in-process recency
  are finite maps of one record; the hash function is an argument, and a hash is opaque to
  the store. A transaction that commits without durability changes the tables in memory only:
  \<open>cas_disk\<close> is what a process that dies leaves behind. I/O errors are not modelled. Times are
  seconds since the epoch and are arguments.
\<close>

section \<open>State\<close>

record manifest_key =
  mk_share :: u16
  mk_ino :: u64
  mk_generation :: u32
  mk_version :: u64

record 'h chunk_ref =
  ck_off :: u64
  ck_len :: u32
  ck_hash :: 'h

type_synonym 'h manifest_table = "(manifest_key, 'h chunk_ref list) fmap"
type_synonym 'h chunk_table = "('h, u32 \<times> u64) fmap"

record cas_counters =
  cc_hits :: u64
  cc_misses :: u64
  cc_ingested_bytes :: u64
  cc_evictions :: u64
  cc_evicted_bytes :: u64
  cc_corrupt_dropped :: u64

definition counters_default :: cas_counters where
  "counters_default = \<lparr>cc_hits = 0, cc_misses = 0, cc_ingested_bytes = 0, cc_evictions = 0,
     cc_evicted_bytes = 0, cc_corrupt_dropped = 0\<rparr>"

text \<open>The target of an eviction is the product of \<^verbatim>\<open>max_bytes\<close> and the fraction \<^verbatim>\<open>evict_to\<close>.\<close>

record cas_config =
  cfg_max_bytes :: u64
  cfg_target :: u64

record 'h cas_store =
  cas_cfg :: cas_config
  cas_manifests :: "'h manifest_table"
  cas_chunks :: "'h chunk_table"
  cas_disk :: "'h manifest_table \<times> 'h chunk_table"
  cas_files :: "('h, bytes) fmap"
  cas_total :: u64
  cas_blobs :: u64
  cas_recency :: "('h, u64) fmap"
  cas_fds :: "('h \<times> bytes) list"
  cas_c :: cas_counters

definition ACCESS_WRITE_GRANULARITY :: u64 where "ACCESS_WRITE_GRANULARITY = 3600"
definition EVICTION_PROTECTION :: u64 where "EVICTION_PROTECTION = 600"

text \<open>A durable commit also persists the commits before it.\<close>

definition commit_durable :: "'h cas_store \<Rightarrow> 'h cas_store" where
  "commit_durable s = s\<lparr>cas_disk := (cas_manifests s, cas_chunks s)\<rparr>"

definition chunk_bytes :: "('h::linorder) chunk_table \<Rightarrow> u64" where
  "chunk_bytes t = sum_list (map (\<lambda>(_, len, _). ucast len) (sorted_list_of_fmap t))"

definition cas_open ::
    "cas_config \<Rightarrow> 'h manifest_table \<times> 'h chunk_table \<Rightarrow> ('h, bytes) fmap \<Rightarrow> ('h::linorder) cas_store" where
  "cas_open cfg db files =
     \<lparr>cas_cfg = cfg, cas_manifests = fst db, cas_chunks = snd db, cas_disk = db, cas_files = files,
      cas_total = chunk_bytes (snd db), cas_blobs = of_nat (length (sorted_list_of_fmap (snd db))),
      cas_recency = fmempty, cas_fds = [], cas_c = counters_default\<rparr>"

section \<open>Manifests\<close>

definition same_node :: "manifest_key \<Rightarrow> manifest_key \<Rightarrow> bool" where
  "same_node a b \<longleftrightarrow> mk_share a = mk_share b \<and> mk_ino a = mk_ino b \<and> mk_generation a = mk_generation b"

text \<open>The other versions of the node, found by a range scan.\<close>

definition drop_stale :: "manifest_key \<Rightarrow> 'h manifest_table \<Rightarrow> 'h manifest_table" where
  "drop_stale key t = fmfilter (\<lambda>k. \<not> (same_node k key \<and> mk_version k \<noteq> mk_version key)) t"

definition put_manifest :: "manifest_key \<Rightarrow> 'h chunk_ref list \<Rightarrow> 'h cas_store \<Rightarrow> 'h cas_store" where
  "put_manifest key chunks s =
     commit_durable (s\<lparr>cas_manifests := fmupd key chunks (drop_stale key (cas_manifests s))\<rparr>)"

text \<open>\<^verbatim>\<open>binary_search_by_key\<close> on a list in offset order, then replacement or insertion.\<close>

fun place_chunk :: "'h chunk_ref \<Rightarrow> 'h chunk_ref list \<Rightarrow> 'h chunk_ref list" where
  "place_chunk c [] = [c]"
| "place_chunk c (d # ds) =
     (if ck_off c = ck_off d then c # ds
      else if ck_off c < ck_off d then c # d # ds
      else d # place_chunk c ds)"

definition merged :: "manifest_key \<Rightarrow> 'h chunk_ref \<Rightarrow> 'h manifest_table \<Rightarrow> 'h manifest_table" where
  "merged key chunk t =
     (let t = drop_stale key t;
          chunks = (case fmlookup t key of Some cs \<Rightarrow> cs | None \<Rightarrow> [])
      in fmupd key (place_chunk chunk chunks) t)"

definition merge_chunk :: "manifest_key \<Rightarrow> 'h chunk_ref \<Rightarrow> 'h cas_store \<Rightarrow> 'h cas_store" where
  "merge_chunk key chunk s = commit_durable (s\<lparr>cas_manifests := merged key chunk (cas_manifests s)\<rparr>)"

definition get_manifest :: "manifest_key \<Rightarrow> 'h cas_store \<Rightarrow> 'h chunk_ref list option" where
  "get_manifest key s = fmlookup (cas_manifests s) key"

definition rebind_manifest :: "manifest_key \<Rightarrow> manifest_key \<Rightarrow> 'h cas_store \<Rightarrow> 'h cas_store" where
  "rebind_manifest from to s =
     (case fmlookup (cas_manifests s) from of
        None \<Rightarrow> s
      | Some enc \<Rightarrow> s\<lparr>cas_manifests := fmupd to enc (drop_stale to (fmdrop from (cas_manifests s)))\<rparr>)"

definition drop_node :: "u16 \<Rightarrow> u64 \<Rightarrow> u32 \<Rightarrow> 'h cas_store \<Rightarrow> 'h cas_store" where
  "drop_node share i g s =
     s\<lparr>cas_manifests := fmfilter (\<lambda>k. \<not> (mk_share k = share \<and> mk_ino k = i \<and> mk_generation k = g)) (cas_manifests s)\<rparr>"

definition drop_share :: "u16 \<Rightarrow> 'h cas_store \<Rightarrow> 'h cas_store" where
  "drop_share share s = s\<lparr>cas_manifests := fmfilter (\<lambda>k. mk_share k \<noteq> share) (cas_manifests s)\<rparr>"

section \<open>Recency, corruption, eviction\<close>

definition touch :: "u64 \<Rightarrow> 'h \<Rightarrow> 'h cas_store \<Rightarrow> 'h cas_store" where
  "touch now h s =
     (let prev = fmlookup (cas_recency s) h;
          s = s\<lparr>cas_recency := fmupd h now (cas_recency s)\<rparr>;
          stale = (case prev of Some p \<Rightarrow> sat_sub now p \<ge> ACCESS_WRITE_GRANULARITY | None \<Rightarrow> True)
      in if stale then
           (case fmlookup (cas_chunks s) h of
              Some (len, _) \<Rightarrow> s\<lparr>cas_chunks := fmupd h (len, now) (cas_chunks s)\<rparr>
            | None \<Rightarrow> s)
         else s)"

definition count_hit :: "'h cas_store \<Rightarrow> 'h cas_store" where
  "count_hit s = s\<lparr>cas_c := (cas_c s)\<lparr>cc_hits := cc_hits (cas_c s) + 1\<rparr>\<rparr>"

definition count_miss :: "'h cas_store \<Rightarrow> 'h cas_store" where
  "count_miss s = s\<lparr>cas_c := (cas_c s)\<lparr>cc_misses := cc_misses (cas_c s) + 1\<rparr>\<rparr>"

definition drop_corrupt :: "'h \<Rightarrow> 'h cas_store \<Rightarrow> 'h cas_store" where
  "drop_corrupt h s =
     (let removed = map_option fst (fmlookup (cas_chunks s) h);
          s = s\<lparr>cas_files := fmdrop h (cas_files s), cas_chunks := fmdrop h (cas_chunks s)\<rparr>;
          s = (case removed of
                 Some len \<Rightarrow> s\<lparr>cas_total := cas_total s - ucast len, cas_blobs := cas_blobs s - 1\<rparr>
               | None \<Rightarrow> s)
      in s\<lparr>cas_recency := fmdrop h (cas_recency s),
           cas_c := (cas_c s)\<lparr>cc_corrupt_dropped := cc_corrupt_dropped (cas_c s) + 1\<rparr>\<rparr>)"

text \<open>The two loops that choose victims: rows the first test admits are skipped.\<close>

fun evict_scan ::
    "u64 \<Rightarrow> u64 \<Rightarrow> ('h \<times> u32 \<times> u64 \<Rightarrow> bool) \<Rightarrow> ('h \<times> u32 \<times> u64) list \<Rightarrow> 'h list \<Rightarrow> u64 \<Rightarrow> 'h list \<times> u64" where
  "evict_scan tot target skip [] victims freed = (victims, freed)"
| "evict_scan tot target skip (row # rows) victims freed =
     (if sat_sub tot freed \<le> target then (victims, freed)
      else if skip row then evict_scan tot target skip rows victims freed
      else evict_scan tot target skip rows (victims @ [fst row]) (freed + ucast (fst (snd row))))"

definition evict_rows :: "'h cas_store \<Rightarrow> (('h::linorder) \<times> u32 \<times> u64) list" where
  "evict_rows s = sort_key (\<lambda>(_, _, last). last)
     (map (\<lambda>(h, len, stored). (h, len, max (case fmlookup (cas_recency s) h of Some t \<Rightarrow> t | None \<Rightarrow> 0) stored))
        (sorted_list_of_fmap (cas_chunks s)))"

definition evict_victims :: "u64 \<Rightarrow> ('h::linorder) cas_store \<Rightarrow> 'h list \<times> u64" where
  "evict_victims now s =
     (let tot = cas_total s;
          target = cfg_target (cas_cfg s);
          rows = evict_rows s;
          (victims, freed) = evict_scan tot target
            (\<lambda>(_, _, last). sat_sub now last < EVICTION_PROTECTION) rows [] 0
      in if sat_sub tot freed > cfg_max_bytes (cas_cfg s)
         then evict_scan tot target (\<lambda>(h, _, _). h \<in> set victims) rows victims freed
         else (victims, freed))"

definition evict :: "u64 \<Rightarrow> ('h::linorder) cas_store \<Rightarrow> 'h cas_store" where
  "evict now s =
     (if cas_total s \<le> cfg_target (cas_cfg s) then s
      else
        let (victims, freed) = evict_victims now s in
        if victims = [] then s
        else s\<lparr>cas_chunks := fold fmdrop victims (cas_chunks s),
               cas_files := fold fmdrop victims (cas_files s),
               cas_recency := fold fmdrop victims (cas_recency s),
               cas_total := cas_total s - freed,
               cas_blobs := cas_blobs s - of_nat (length victims),
               cas_c := (cas_c s)\<lparr>cc_evictions := cc_evictions (cas_c s) + of_nat (length victims),
                                 cc_evicted_bytes := cc_evicted_bytes (cas_c s) + freed\<rparr>\<rparr>)"

section \<open>Ingest\<close>

definition write_blob_file :: "'h \<Rightarrow> bytes \<Rightarrow> 'h cas_store \<Rightarrow> 'h cas_store" where
  "write_blob_file h data s =
     (if fmlookup (cas_files s) h = None then s\<lparr>cas_files := fmupd h data (cas_files s)\<rparr> else s)"

definition account_ingest :: "'h \<Rightarrow> nat \<Rightarrow> bool \<Rightarrow> u64 \<Rightarrow> ('h::linorder) cas_store \<Rightarrow> 'h cas_store" where
  "account_ingest h len fresh now s =
     (let s = (if fresh then s\<lparr>cas_total := cas_total s + of_nat len, cas_blobs := cas_blobs s + 1\<rparr> else s);
          s = s\<lparr>cas_c := (cas_c s)\<lparr>cc_ingested_bytes := cc_ingested_bytes (cas_c s) + of_nat len\<rparr>,
                cas_recency := fmupd h now (cas_recency s)\<rparr>
      in if cas_total s > cfg_max_bytes (cas_cfg s) then evict now s else s)"

definition ingest_chunk ::
    "(bytes \<Rightarrow> 'h) \<Rightarrow> u64 \<Rightarrow> manifest_key \<Rightarrow> u64 \<Rightarrow> bytes \<Rightarrow> ('h::linorder) cas_store \<Rightarrow> 'h cas_store" where
  "ingest_chunk hash now key off data s =
     (let h = hash data;
          s = write_blob_file h data s;
          fresh = (fmlookup (cas_chunks s) h = None);
          s = s\<lparr>cas_chunks := fmupd h (of_nat (length data), now) (cas_chunks s),
                cas_manifests := merged key \<lparr>ck_off = off, ck_len = of_nat (length data), ck_hash = h\<rparr> (cas_manifests s)\<rparr>
      in account_ingest h (length data) fresh now (commit_durable s))"

definition put_blob :: "(bytes \<Rightarrow> 'h) \<Rightarrow> u64 \<Rightarrow> bytes \<Rightarrow> ('h::linorder) cas_store \<Rightarrow> 'h \<times> 'h cas_store" where
  "put_blob hash now data s =
     (let h = hash data;
          s = write_blob_file h data s;
          fresh = (fmlookup (cas_chunks s) h = None);
          s = commit_durable (s\<lparr>cas_chunks := fmupd h (of_nat (length data), now) (cas_chunks s)\<rparr>)
      in (h, account_ingest h (length data) fresh now s))"

text \<open>One step of the loop over the hashed chunks: the row, the counters and what is fresh.\<close>

definition ingest_row ::
    "u64 \<Rightarrow> 'h \<times> u64 \<times> bytes \<Rightarrow> 'h cas_store \<times> u64 \<times> u64 \<Rightarrow> 'h cas_store \<times> u64 \<times> u64" where
  "ingest_row now = (\<lambda>(h, _, data) (s, fresh_total, fresh_blobs).
     let fresh = (fmlookup (cas_chunks s) h = None);
         s = s\<lparr>cas_chunks := fmupd h (of_nat (length data), now) (cas_chunks s),
               cas_c := (cas_c s)\<lparr>cc_ingested_bytes := cc_ingested_bytes (cas_c s) + of_nat (length data)\<rparr>\<rparr>
     in if fresh then (s, fresh_total + of_nat (length data), fresh_blobs + 1) else (s, fresh_total, fresh_blobs))"

definition ingest_chunks_inner ::
    "(bytes \<Rightarrow> 'h) \<Rightarrow> u64 \<Rightarrow> manifest_key \<Rightarrow> (u64 \<times> bytes) list \<Rightarrow> bool \<Rightarrow> ('h::linorder) cas_store \<Rightarrow> 'h cas_store" where
  "ingest_chunks_inner hash now key chunks durable s =
     (let hashed = map (\<lambda>(off, data). (hash data, off, data)) chunks;
          s = fold (\<lambda>(h, _, data). write_blob_file h data) hashed s;
          (s, fresh_total, fresh_blobs) = fold (ingest_row now) hashed (s, 0, 0);
          refs = sort_key ck_off (map (\<lambda>(h, off, data). \<lparr>ck_off = off, ck_len = of_nat (length data), ck_hash = h\<rparr>) hashed);
          s = s\<lparr>cas_manifests := fmupd key refs (drop_stale key (cas_manifests s))\<rparr>;
          s = (if durable then commit_durable s else s);
          s = s\<lparr>cas_total := cas_total s + fresh_total, cas_blobs := cas_blobs s + fresh_blobs,
                cas_recency := fold (\<lambda>(h, _, _). fmupd h now) hashed (cas_recency s)\<rparr>
      in if cas_total s > cfg_max_bytes (cas_cfg s) then evict now s else s)"

section \<open>Reads\<close>

definition get_blob_range ::
    "(bytes \<Rightarrow> 'h) \<Rightarrow> u64 \<Rightarrow> 'h \<Rightarrow> u32 \<Rightarrow> u32 \<Rightarrow> bool \<Rightarrow> 'h cas_store \<Rightarrow> bytes option \<times> 'h cas_store" where
  "get_blob_range hash now h off len verify s =
     (case fmlookup (cas_files s) h of
        None \<Rightarrow> (None, count_miss s)
      | Some whole \<Rightarrow>
          if verify then
            (if hash whole \<noteq> h \<or> unat off + unat len > length whole
             then (None, count_miss (drop_corrupt h s))
             else (Some (take (unat len) (drop (unat off) whole)), count_hit (touch now h s)))
          else
            let buf = take (unat len) (drop (unat off) whole) in
            if length buf \<noteq> unat len then (None, count_miss (drop_corrupt h s))
            else (Some buf, count_hit (touch now h s)))"

text \<open>An open handle keeps reading the blob it was opened on; at most 32 are kept.\<close>

definition blob_file_range ::
    "u64 \<Rightarrow> 'h \<Rightarrow> u32 \<Rightarrow> u32 \<Rightarrow> 'h cas_store \<Rightarrow> (bytes \<times> u64) option \<times> 'h cas_store" where
  "blob_file_range now h off len s =
     (case (case find (\<lambda>(x, _). x = h) (cas_fds s) of
              Some (_, f) \<Rightarrow> Some (f, s)
            | None \<Rightarrow>
                (case fmlookup (cas_files s) h of
                   None \<Rightarrow> None
                 | Some f \<Rightarrow>
                     let cache = (if length (cas_fds s) \<ge> 32 then tl (cas_fds s) else cas_fds s)
                     in Some (f, s\<lparr>cas_fds := cache @ [(h, f)]\<rparr>))) of
        None \<Rightarrow> (None, s)
      | Some (f, s) \<Rightarrow> (Some (f, ucast off), count_hit (touch now h s)))"

definition get_blob :: "(bytes \<Rightarrow> 'h) \<Rightarrow> u64 \<Rightarrow> 'h \<Rightarrow> 'h cas_store \<Rightarrow> bytes option \<times> 'h cas_store" where
  "get_blob hash now h s =
     (case fmlookup (cas_chunks s) h of
        Some (len, _) \<Rightarrow> get_blob_range hash now h 0 len False s
      | None \<Rightarrow> (None, count_miss s))"

record scrub_report =
  sc_checked :: u64
  sc_corrupt :: u64
  sc_missing :: u64

definition scrub_one ::
    "(bytes \<Rightarrow> 'h) \<Rightarrow> 'h \<Rightarrow> scrub_report \<times> 'h cas_store \<Rightarrow> scrub_report \<times> 'h cas_store" where
  "scrub_one hash h = (\<lambda>(rep, s).
     let rep = rep\<lparr>sc_checked := sc_checked rep + 1\<rparr> in
     case fmlookup (cas_files s) h of
       Some data \<Rightarrow>
         if hash data = h then (rep, s)
         else (rep\<lparr>sc_corrupt := sc_corrupt rep + 1\<rparr>, drop_corrupt h s)
     | None \<Rightarrow> (rep\<lparr>sc_missing := sc_missing rep + 1\<rparr>, drop_corrupt h s))"

definition scrub :: "(bytes \<Rightarrow> 'h) \<Rightarrow> nat \<Rightarrow> ('h::linorder) cas_store \<Rightarrow> scrub_report \<times> 'h cas_store" where
  "scrub hash sample s =
     (let hashes = map fst (sorted_list_of_fmap (cas_chunks s));
          hashes = (if sample = 0 then hashes else take sample hashes)
      in fold (scrub_one hash) hashes (\<lparr>sc_checked = 0, sc_corrupt = 0, sc_missing = 0\<rparr>, s))"

definition clear :: "'h cas_store \<Rightarrow> 'h cas_store" where
  "clear s = s\<lparr>cas_manifests := fmempty, cas_chunks := fmempty, cas_files := fmempty,
     cas_total := 0, cas_blobs := 0, cas_recency := fmempty\<rparr>"

text \<open>What the process leaves behind when it dies, opened again.\<close>

definition cas_restart :: "('h::linorder) cas_store \<Rightarrow> 'h cas_store" where
  "cas_restart s = cas_open (cas_cfg s) (cas_disk s) (cas_files s)"

end
