(* ===== verification/Cas_Evict.thy ===== *)
theory Cas_Evict
  imports Cas
begin

text \<open>
  The bytes of the chunk table, and which rows an eviction of the content-addressed store
  drops: distinct rows of the table, enough of them, and rows inside the protection window
  only when the others do not suffice.
\<close>

section \<open>Rows and their bytes\<close>

definition row_bytes :: "'h chunk_table \<Rightarrow> nat" where
  "row_bytes t = fmap_sum (\<lambda>(len, _). unat len) t"

lemma sum_sorted_list_of_fmap:
  fixes f :: "'v \<Rightarrow> 'n::comm_monoid_add" and m :: "('k::linorder, 'v) fmap"
  shows "sum_list (map (\<lambda>(_, v). f v) (sorted_list_of_fmap m)) = fmap_sum f m"
proof -
  have "sum_list (map (\<lambda>(_, v). f v) (sorted_list_of_fmap m)) =
      sum_list (map (\<lambda>k. f (the (fmlookup m k))) (sorted_list_of_set (fset (fmdom m))))"
    by (simp add: sorted_list_of_fmap_def comp_def sorted_list_of_fset.rep_eq)
  also have "\<dots> = (\<Sum>k \<in> fset (fmdom m). f (the (fmlookup m k)))"
    by (simp add: sum_list_distinct_conv_sum_set)
  also have "\<dots> = fmap_sum f m"
    unfolding fmap_sum_def by (intro sum.cong refl) (auto split: option.split)
  finally show ?thesis .
qed

lemma of_nat_sum_list: "of_nat (sum_list xs) = sum_list (map of_nat xs)"
  by (induction xs) simp_all

lemma chunk_bytes_sum: "chunk_bytes t = of_nat (row_bytes t)"
proof -
  have "row_bytes t = sum_list (map (\<lambda>(_, len, _). unat len) (sorted_list_of_fmap t))"
    unfolding row_bytes_def sum_sorted_list_of_fmap [symmetric] by (rule arg_cong [of _ _ sum_list]) auto
  then have "(of_nat (row_bytes t) :: u64) = sum_list (map (of_nat \<circ> (\<lambda>(_, len, _). unat len)) (sorted_list_of_fmap t))"
    by (simp add: of_nat_sum_list)
  also have "(of_nat \<circ> (\<lambda>(_, len, _). unat len)) = (\<lambda>(_ :: 'a, len :: u32, _ :: u64). ucast len :: u64)"
    by (simp add: fun_eq_iff split_def)
  finally show ?thesis by (simp add: chunk_bytes_def)
qed

lemma length_sorted_list_of_fmap: "length (sorted_list_of_fmap t) = fmap_size t"
  by (simp add: sorted_list_of_fmap_def sorted_list_of_fset.rep_eq fmap_size_def)


lemma fmlookup_fold_fmdrop: "fmlookup (fold fmdrop vs t) k = (if k \<in> set vs then None else fmlookup t k)"
  by (induction vs arbitrary: t) auto

lemma row_bytes_upd:
  assumes "\<forall>len' now'. fmlookup t h = Some (len', now') \<longrightarrow> len' = len"
  shows "row_bytes (fmupd h (len, now) t) = (if fmlookup t h = None then unat len + row_bytes t else row_bytes t)"
proof (cases "fmlookup t h")
  case None
  then show ?thesis by (simp add: row_bytes_def fmap_sum_upd_new)
next
  case (Some x)
  then have "fst x = len" using assms by (cases x) auto
  then show ?thesis
    using fmap_sum_upd_old [OF Some, of "\<lambda>(len, _). unat len" "(len, now)"] Some by (simp add: row_bytes_def split_def)
qed

lemma row_bytes_drop: "fmlookup t h = Some (len, now) \<Longrightarrow> row_bytes t = unat len + row_bytes (fmdrop h t)"
  using fmap_sum_drop [of t h "(len, now)" "\<lambda>(len, _). unat len"] by (simp add: row_bytes_def)

definition row_len :: "'h chunk_table \<Rightarrow> 'h \<Rightarrow> nat" where
  "row_len t h = (case fmlookup t h of Some (len, _) \<Rightarrow> unat len | None \<Rightarrow> 0)"

lemma row_bytes_drops:
  "distinct vs \<Longrightarrow> row_bytes t = sum_list (map (row_len t) vs) + row_bytes (fold fmdrop vs t)"
proof (induction vs arbitrary: t)
  case (Cons v vs)
  have "row_bytes t = row_len t v + row_bytes (fmdrop v t)"
    by (cases "fmlookup t v") (auto simp: row_len_def row_bytes_drop fmdrop_idle fmdom_notI)
  moreover have "sum_list (map (row_len (fmdrop v t)) vs) = sum_list (map (row_len t) vs)"
    using Cons.prems by (intro arg_cong [of _ _ sum_list] map_cong) (auto simp: row_len_def)
  ultimately show ?case using Cons.IH [of "fmdrop v t"] Cons.prems by simp
qed simp

lemma fmap_size_drops:
  "distinct vs \<Longrightarrow> \<forall>v \<in> set vs. fmlookup t v \<noteq> None \<Longrightarrow> fmap_size t = length vs + fmap_size (fold fmdrop vs t)"
proof (induction vs arbitrary: t)
  case (Cons v vs)
  then obtain x where x: "fmlookup t v = Some x" by auto
  have "fmap_size (fmdrop v t) = length vs + fmap_size (fold fmdrop vs (fmdrop v t))"
    using Cons.prems by (intro Cons.IH) auto
  then show ?case using fmap_size_drop [OF x] by simp
qed simp

section \<open>Which rows are evicted\<close>

lemma evict_scan_spec:
  assumes "evict_scan tot target skip rows victims freed = (victims', freed')"
  obtains n where "victims' = victims @ map fst (filter (\<lambda>r. \<not> skip r) (take n rows))"
    "freed' = freed + sum_list (map (\<lambda>(_, len, _). ucast len) (filter (\<lambda>r. \<not> skip r) (take n rows)))"
    "sat_sub tot freed' \<le> target \<or> filter (\<lambda>r. \<not> skip r) (take n rows) = filter (\<lambda>r. \<not> skip r) rows"
proof -
  have "\<exists>n. victims' = victims @ map fst (filter (\<lambda>r. \<not> skip r) (take n rows)) \<and>
    freed' = freed + sum_list (map (\<lambda>(_, len, _). ucast len) (filter (\<lambda>r. \<not> skip r) (take n rows))) \<and>
    (sat_sub tot freed' \<le> target \<or> filter (\<lambda>r. \<not> skip r) (take n rows) = filter (\<lambda>r. \<not> skip r) rows)"
    using assms
  proof (induction rows arbitrary: victims freed)
    case (Cons r rows)
    show ?case
    proof (cases "sat_sub tot freed \<le> target")
      case True
      then show ?thesis using Cons.prems by (intro exI [of _ 0]) simp
    next
      case False
      let ?v = "if skip r then victims else victims @ [fst r]"
      let ?f = "if skip r then freed else freed + ucast (fst (snd r))"
      have "evict_scan tot target skip rows ?v ?f = (victims', freed')"
        using Cons.prems False by (simp split: if_splits)
      from Cons.IH [OF this] obtain n where
        "victims' = ?v @ map fst (filter (\<lambda>r. \<not> skip r) (take n rows))"
        "freed' = ?f + sum_list (map (\<lambda>(_, len, _). ucast len) (filter (\<lambda>r. \<not> skip r) (take n rows)))"
        "sat_sub tot freed' \<le> target \<or> filter (\<lambda>r. \<not> skip r) (take n rows) = filter (\<lambda>r. \<not> skip r) rows"
        by blast
      then show ?thesis by (intro exI [of _ "Suc n"]) (auto simp: split_def add.assoc)
    qed
  qed simp
  then show ?thesis using that by blast
qed


lemma evict_rows_mset: "mset (map fst (evict_rows s)) = mset (sorted_list_of_set (fset (fmdom (cas_chunks s))))"
  by (simp add: evict_rows_def sorted_list_of_fmap_def sorted_list_of_fset.rep_eq multiset.map_comp comp_def split_def)

lemma evict_rows_distinct: "distinct (map fst (evict_rows s))"
  using evict_rows_mset by (metis distinct_sorted_list_of_set mset_eq_imp_distinct_iff)

lemma evict_rows_dom: "set (map fst (evict_rows s)) = fset (fmdom (cas_chunks s))"
  using arg_cong [OF evict_rows_mset, of set_mset s] by simp

lemma evict_rows_in:
  "(h, len, lst) \<in> set (evict_rows s) \<Longrightarrow> \<exists>t. fmlookup (cas_chunks s) h = Some (len, t)"
  "fmlookup (cas_chunks s) h = Some (len, t) \<Longrightarrow>
    (h, len, max (case fmlookup (cas_recency s) h of Some t \<Rightarrow> t | None \<Rightarrow> 0) t) \<in> set (evict_rows s)"
  by (force simp: evict_rows_def sorted_list_of_fmap_def sorted_list_of_fset.rep_eq fmdom_in_iff)+

lemma evict_rows_bytes:
  assumes "set rows \<subseteq> set (evict_rows s)"
  shows "sum_list (map (\<lambda>(_, len, _). ucast len) rows) = (of_nat (sum_list (map (row_len (cas_chunks s)) (map fst rows))) :: u64)"
  using assms
proof (induction rows)
  case (Cons r rows)
  obtain h len lst where r: "r = (h, len, lst)" by (cases r)
  have "row_len (cas_chunks s) h = unat len"
    using evict_rows_in(1) [of h len lst s] Cons.prems by (auto simp: r row_len_def)
  then show ?case using Cons by (simp add: r)
qed simp

text \<open>The rows inside the protection window, and the others.\<close>

definition hot_row :: "u64 \<Rightarrow> 'h \<times> u32 \<times> u64 \<Rightarrow> bool" where
  "hot_row now = (\<lambda>(_, _, lst). sat_sub now lst < EVICTION_PROTECTION)"

definition cold_hashes :: "u64 \<Rightarrow> ('h::linorder) cas_store \<Rightarrow> 'h list" where
  "cold_hashes now s = map fst (filter (\<lambda>r. \<not> hot_row now r) (evict_rows s))"

abbreviation bytes_of :: "'h cas_store \<Rightarrow> 'h list \<Rightarrow> u64" where
  "bytes_of s vs \<equiv> of_nat (sum_list (map (row_len (cas_chunks s)) vs))"

lemma evict_scan_stop: "sat_sub tot f \<le> tgt \<Longrightarrow> evict_scan tot tgt skip rows v f = (v, f)"
  by (cases rows) simp_all

lemma evict_scan_rows:
  assumes "evict_scan tot tgt skip (evict_rows s) v f = (v', f')" "f = bytes_of s v"
    and "distinct v" "\<forall>h \<in> set v. fmlookup (cas_chunks s) h \<noteq> None"
    and "\<And>r. r \<in> set (evict_rows s) \<Longrightarrow> fst r \<in> set v \<Longrightarrow> skip r"
  shows "distinct v'" "\<forall>h \<in> set v'. fmlookup (cas_chunks s) h \<noteq> None" "f' = bytes_of s v'"
    and "sat_sub tot f' \<le> tgt \<or> v' = v @ map fst (filter (\<lambda>r. \<not> skip r) (evict_rows s))"
    and "\<forall>h \<in> set v'. h \<in> set v \<or> (\<exists>r \<in> set (evict_rows s). fst r = h \<and> \<not> skip r)"
proof -
  obtain n where n: "v' = v @ map fst (filter (\<lambda>r. \<not> skip r) (take n (evict_rows s)))"
      "f' = f + sum_list (map (\<lambda>(_, len, _). ucast len) (filter (\<lambda>r. \<not> skip r) (take n (evict_rows s))))"
      "sat_sub tot f' \<le> tgt \<or> filter (\<lambda>r. \<not> skip r) (take n (evict_rows s)) = filter (\<lambda>r. \<not> skip r) (evict_rows s)"
    by (rule evict_scan_spec [OF assms(1)])
  have sub: "set (filter (\<lambda>r. \<not> skip r) (take n (evict_rows s))) \<subseteq> set (evict_rows s)"
    by (auto dest: in_set_takeD)
  show "f' = bytes_of s v'" unfolding n(2) evict_rows_bytes [OF sub] assms(2) n(1) by simp
  have "distinct (map fst (filter (\<lambda>r. \<not> skip r) (take n (evict_rows s))))"
    using evict_rows_distinct [of s] by (metis distinct_map_filter distinct_take take_map)
  moreover have "set v \<inter> set (map fst (filter (\<lambda>r. \<not> skip r) (take n (evict_rows s)))) = {}"
    using assms(5) sub by fastforce
  ultimately show "distinct v'" unfolding n(1) distinct_append using assms(3) by blast
  show "\<forall>h \<in> set v'. fmlookup (cas_chunks s) h \<noteq> None"
  proof
    fix h assume "h \<in> set v'"
    then consider "h \<in> set v" | r where "r \<in> set (evict_rows s)" "fst r = h" unfolding n(1) using sub by auto
    then show "fmlookup (cas_chunks s) h \<noteq> None"
      by cases (use assms(4) evict_rows_in(1) in \<open>auto, force\<close>)
  qed
  show "\<forall>h \<in> set v'. h \<in> set v \<or> (\<exists>r \<in> set (evict_rows s). fst r = h \<and> \<not> skip r)"
    unfolding n(1) by (auto dest: in_set_takeD)
  show "sat_sub tot f' \<le> tgt \<or> v' = v @ map fst (filter (\<lambda>r. \<not> skip r) (evict_rows s))"
    using n(1,3) by auto
qed

lemma evict_victims_cases:
  assumes "evict_victims now s = (vs, freed)"
  obtains v1 f1 where "evict_scan (cas_total s) (cfg_target (cas_cfg s)) (hot_row now) (evict_rows s) [] 0 = (v1, f1)"
    "\<not> sat_sub (cas_total s) f1 > cfg_max_bytes (cas_cfg s)" "vs = v1" "freed = f1"
  | v1 f1 where "evict_scan (cas_total s) (cfg_target (cas_cfg s)) (hot_row now) (evict_rows s) [] 0 = (v1, f1)"
    "sat_sub (cas_total s) f1 > cfg_max_bytes (cas_cfg s)"
    "evict_scan (cas_total s) (cfg_target (cas_cfg s)) (\<lambda>r. fst r \<in> set v1) (evict_rows s) v1 f1 = (vs, freed)"
proof (cases "evict_scan (cas_total s) (cfg_target (cas_cfg s)) (hot_row now) (evict_rows s) [] 0")
  case (Pair v1 f1)
  then have "evict_victims now s = (if sat_sub (cas_total s) f1 > cfg_max_bytes (cas_cfg s)
      then evict_scan (cas_total s) (cfg_target (cas_cfg s)) (\<lambda>r. fst r \<in> set v1) (evict_rows s) v1 f1 else (v1, f1))"
    by (simp add: evict_victims_def hot_row_def Let_def split_def)
  then show ?thesis using assms that Pair by (metis (no_types, lifting) prod.inject)
qed

lemma evict_first:
  assumes "evict_scan tot tgt (hot_row now) (evict_rows s) [] 0 = (v1, f1)"
  shows "distinct v1" "\<forall>h \<in> set v1. fmlookup (cas_chunks s) h \<noteq> None" "f1 = bytes_of s v1"
    "sat_sub tot f1 \<le> tgt \<or> v1 = cold_hashes now s" "set v1 \<subseteq> set (cold_hashes now s)"
proof -
  have *: "(0 :: u64) = bytes_of s []" "distinct []" "\<forall>h \<in> set []. fmlookup (cas_chunks s) h \<noteq> None"
    "\<And>r. r \<in> set (evict_rows s) \<Longrightarrow> fst r \<in> set [] \<Longrightarrow> hot_row now r" by simp_all
  note b = evict_scan_rows [OF assms *]
  show "distinct v1" "\<forall>h \<in> set v1. fmlookup (cas_chunks s) h \<noteq> None" "f1 = bytes_of s v1" using b(1-3) by simp_all
  show "sat_sub tot f1 \<le> tgt \<or> v1 = cold_hashes now s" using b(4) by (simp add: cold_hashes_def)
  show "set v1 \<subseteq> set (cold_hashes now s)" using b(5) by (fastforce simp: cold_hashes_def)
qed

lemma evict_victims_sound:
  assumes "evict_victims now s = (vs, freed)"
  shows "distinct vs \<and> (\<forall>v \<in> set vs. fmlookup (cas_chunks s) v \<noteq> None) \<and> freed = bytes_of s vs"
  using assms
proof (cases rule: evict_victims_cases)
  case (1 v1 f1)
  then show ?thesis using evict_first [OF 1(1)] by simp
next
  case (2 v1 f1)
  note a = evict_first [OF 2(1)]
  show ?thesis using evict_scan_rows(1-3) [OF 2(3) a(3,1,2)] by simp
qed

lemma evict_victims_enough:
  assumes "evict_victims now s = (vs, freed)"
  shows "sat_sub (cas_total s) freed \<le> max (cfg_target (cas_cfg s)) (cfg_max_bytes (cas_cfg s))
    \<or> set vs = fset (fmdom (cas_chunks s))"
  using assms
proof (cases rule: evict_victims_cases)
  case (1 v1 f1)
  then show ?thesis by (simp add: le_max_iff_disj not_less)
next
  case (2 v1 f1)
  note a = evict_first [OF 2(1)]
  have "set v1 \<subseteq> set (map fst (evict_rows s))" unfolding evict_rows_dom using a(2) fmdom_in_iff by fast
  then have "set (v1 @ map fst (filter (\<lambda>r. fst r \<notin> set v1) (evict_rows s))) = set (map fst (evict_rows s))" by auto
  then show ?thesis using evict_scan_rows(4) [OF 2(3) a(3,1,2)] unfolding evict_rows_dom le_max_iff_disj by metis
qed

lemma evict_victims_hot:
  assumes "evict_victims now s = (vs, freed)" "\<not> set vs \<subseteq> set (cold_hashes now s)"
  shows "sat_sub (cas_total s) (bytes_of s (cold_hashes now s)) > cfg_max_bytes (cas_cfg s)"
  using assms(1)
proof (cases rule: evict_victims_cases)
  case (1 v1 f1)
  then show ?thesis using evict_first(5) [OF 1(1)] assms(2) by simp
next
  case (2 v1 f1)
  have "vs \<noteq> v1" using evict_first(5) [OF 2(1)] assms(2) by blast
  then have "\<not> sat_sub (cas_total s) f1 \<le> cfg_target (cas_cfg s)"
    using evict_scan_stop [of "cas_total s" f1 "cfg_target (cas_cfg s)" "\<lambda>r. fst r \<in> set v1" "evict_rows s" v1] 2(3) by auto
  then show ?thesis using evict_first(3,4) [OF 2(1)] 2(2) by simp
qed

end
