(* ===== verification/Cas_Props.thy ===== *)
theory Cas_Props
  imports Cas_Evict "HOL-Library.List_Lexorder"
begin

text \<open>
  The content-addressed store over all runs of its operations, restarts after a crash included:
  its accounts are exact, and what it serves for a version of a file at an offset is what was
  ingested for them.
\<close>

section \<open>Invariants\<close>

text \<open>
  \<open>C\<close> is the set of contents claimed so far: that the bytes of a version at an offset are
  the given ones. A manifest only names chunks that were claimed, a file or an open handle
  only holds bytes that hash to its name.
\<close>

type_synonym claims = "(manifest_key \<times> u64 \<times> bytes) set"

definition manifests_ok :: "(bytes \<Rightarrow> 'h) \<Rightarrow> claims \<Rightarrow> 'h manifest_table \<Rightarrow> bool" where
  "manifests_ok hash C t \<longleftrightarrow> (\<forall>k cs c. fmlookup t k = Some cs \<longrightarrow> c \<in> set cs \<longrightarrow>
     (\<exists>d. (k, ck_off c, d) \<in> C \<and> ck_hash c = hash d))"

definition honest :: "(bytes \<Rightarrow> 'h) \<Rightarrow> claims \<Rightarrow> 'h cas_store \<Rightarrow> bool" where
  "honest hash C s \<longleftrightarrow> (\<forall>h d. fmlookup (cas_files s) h = Some d \<longrightarrow> hash d = h)
     \<and> (\<forall>(h, d) \<in> set (cas_fds s). hash d = h)
     \<and> manifests_ok hash C (cas_manifests s) \<and> manifests_ok hash C (fst (cas_disk s))"

definition rows_ok :: "(bytes \<Rightarrow> 'h) \<Rightarrow> 'h chunk_table \<Rightarrow> bool" where
  "rows_ok hash t \<longleftrightarrow> (\<forall>h len now. fmlookup t h = Some (len, now) \<longrightarrow> (\<exists>d. hash d = h \<and> len = of_nat (length d)))"

definition counted :: "'h cas_store \<Rightarrow> bool" where
  "counted s \<longleftrightarrow> cas_total s = of_nat (row_bytes (cas_chunks s)) \<and> cas_blobs s = of_nat (fmap_size (cas_chunks s))"

definition accounted :: "(bytes \<Rightarrow> 'h) \<Rightarrow> 'h cas_store \<Rightarrow> bool" where
  "accounted hash s \<longleftrightarrow> counted s \<and> rows_ok hash (cas_chunks s) \<and> rows_ok hash (snd (cas_disk s))"

lemma evict_drops:
  obtains vs c where "distinct vs" "\<forall>v \<in> set vs. fmlookup (cas_chunks s) v \<noteq> None"
    "evict now s = s\<lparr>cas_chunks := fold fmdrop vs (cas_chunks s), cas_files := fold fmdrop vs (cas_files s),
       cas_recency := fold fmdrop vs (cas_recency s), cas_total := cas_total s - bytes_of s vs,
       cas_blobs := cas_blobs s - of_nat (length vs), cas_c := c\<rparr>"
proof (cases "evict now s = s")
  case True
  then show ?thesis by (intro that [of "[]" "cas_c s"]) simp_all
next
  case False
  obtain vs freed where v: "evict_victims now s = (vs, freed)" by fastforce
  then show ?thesis
    using evict_victims_sound [OF v] False
    by (intro that [of vs]) (auto simp: evict_def split: if_splits)
qed

lemma counted_drops:
  assumes "counted s" "distinct vs" "\<forall>v \<in> set vs. fmlookup (cas_chunks s) v \<noteq> None"
    and "cas_chunks s' = fold fmdrop vs (cas_chunks s)" "cas_total s' = cas_total s - bytes_of s vs"
    and "cas_blobs s' = cas_blobs s - of_nat (length vs)"
  shows "counted s'"
proof -
  have "row_bytes (cas_chunks s) = sum_list (map (row_len (cas_chunks s)) vs) + row_bytes (cas_chunks s')"
    "fmap_size (cas_chunks s) = length vs + fmap_size (cas_chunks s')"
    using row_bytes_drops [OF assms(2), of "cas_chunks s"] fmap_size_drops [OF assms(2,3)] assms(4) by simp_all
  then show ?thesis using assms(1,5,6) by (simp add: counted_def)
qed

lemma rows_ok_drops: "rows_ok hash t \<Longrightarrow> rows_ok hash (fold fmdrop vs t)"
  by (auto simp: rows_ok_def fmlookup_fold_fmdrop)

lemma evict_accounted: "accounted hash s \<Longrightarrow> accounted hash (evict now s)"
proof -
  assume a: "accounted hash s"
  obtain vs c where v: "distinct vs" "\<forall>v \<in> set vs. fmlookup (cas_chunks s) v \<noteq> None"
    "evict now s = s\<lparr>cas_chunks := fold fmdrop vs (cas_chunks s), cas_files := fold fmdrop vs (cas_files s),
       cas_recency := fold fmdrop vs (cas_recency s), cas_total := cas_total s - bytes_of s vs,
       cas_blobs := cas_blobs s - of_nat (length vs), cas_c := c\<rparr>" by (rule evict_drops)
  have "counted (evict now s)" by (rule counted_drops [OF _ v(1,2)]) (use a v(3) in \<open>simp_all add: accounted_def\<close>)
  then show ?thesis using a v(3) by (simp add: accounted_def rows_ok_drops)
qed

lemma evict_honest: "honest hash C s \<Longrightarrow> honest hash C (evict now s)"
  by (rule evict_drops [of s now]) (auto simp: honest_def fmlookup_fold_fmdrop)


section \<open>Every operation keeps them\<close>

lemma rows_ok_upd: "rows_ok hash t \<Longrightarrow> rows_ok hash (fmupd (hash d) (of_nat (length d), now) t)"
  by (auto simp: rows_ok_def)

text \<open>A row inserted for a content: with a collision-free hash an old row has the same length.\<close>

lemma counted_insert:
  assumes "inj hash" "rows_ok hash t" "length d < 2 ^ 32"
  shows "(of_nat (row_bytes (fmupd (hash d) (of_nat (length d), now) t)) :: u64) =
      of_nat (row_bytes t) + (if fmlookup t (hash d) = None then of_nat (length d) else 0)"
    and "fmap_size (fmupd (hash d) (of_nat (length d), now) t) = fmap_size t + (if fmlookup t (hash d) = None then 1 else 0)"
proof -
  have "\<forall>len' now'. fmlookup t (hash d) = Some (len', now') \<longrightarrow> len' = of_nat (length d)"
    using assms(1,2) unfolding rows_ok_def by (metis injD)
  moreover have "unat (of_nat (length d) :: u32) = length d" using assms(3) by (simp add: unat_of_nat_small)
  ultimately show "(of_nat (row_bytes (fmupd (hash d) (of_nat (length d), now) t)) :: u64) =
      of_nat (row_bytes t) + (if fmlookup t (hash d) = None then of_nat (length d) else 0)"
    by (simp add: row_bytes_upd)
  show "fmap_size (fmupd (hash d) (of_nat (length d), now) t) = fmap_size t + (if fmlookup t (hash d) = None then 1 else 0)"
    by (simp add: fmap_size_upd)
qed

lemma touch_accounted: "accounted hash s \<Longrightarrow> accounted hash (touch now h s)"
proof -
  assume a: "accounted hash s"
  have "counted (touch now h s) \<and> rows_ok hash (cas_chunks (touch now h s))" 
  proof (cases "fmlookup (cas_chunks s) h")
    case (Some x)
    obtain len t where x: "x = (len, t)" by (cases x)
    have "row_bytes (fmupd h (len, now) (cas_chunks s)) = row_bytes (cas_chunks s)"
      using Some x by (subst row_bytes_upd) auto
    then show ?thesis using a Some x
      by (auto simp: touch_def accounted_def counted_def Let_def fmap_size_upd rows_ok_def)
  qed (use a in \<open>auto simp: touch_def accounted_def counted_def Let_def\<close>)
  moreover have "cas_disk (touch now h s) = cas_disk s" by (simp add: touch_def Let_def split: option.splits)
  ultimately show ?thesis using a by (simp add: accounted_def)
qed

lemma drop_corrupt_accounted: "accounted hash s \<Longrightarrow> accounted hash (drop_corrupt h s)"
proof -
  assume a: "accounted hash s"
  have r: "rows_ok hash (fmdrop h (cas_chunks s))" using a by (auto simp: accounted_def rows_ok_def)
  show ?thesis
  proof (cases "fmlookup (cas_chunks s) h")
    case None
    then have "fmdrop h (cas_chunks s) = cas_chunks s" by (simp add: fmdrop_idle fmdom_notI)
    then show ?thesis using a None by (simp add: drop_corrupt_def accounted_def counted_def Let_def)
  next
    case (Some x)
    obtain len t where x: "x = (len, t)" by (cases x)
    have "row_bytes (cas_chunks s) = unat len + row_bytes (fmdrop h (cas_chunks s))"
      "Suc (fmap_size (fmdrop h (cas_chunks s))) = fmap_size (cas_chunks s)"
      using Some x row_bytes_drop fmap_size_drop by fastforce+
    then show ?thesis using a Some x r
      by (simp add: drop_corrupt_def accounted_def counted_def Let_def)
        (metis add_diff_cancel_left' of_nat_Suc)
  qed
qed

lemma counters_accounted [simp]:
  "accounted hash (count_hit s) \<longleftrightarrow> accounted hash s" "accounted hash (count_miss s) \<longleftrightarrow> accounted hash s"
  by (simp_all add: count_hit_def count_miss_def accounted_def counted_def)


lemma write_blob_fields [simp]:
  "cas_chunks (write_blob_file h d s) = cas_chunks s" "cas_total (write_blob_file h d s) = cas_total s"
  "cas_blobs (write_blob_file h d s) = cas_blobs s" "cas_disk (write_blob_file h d s) = cas_disk s"
  "cas_manifests (write_blob_file h d s) = cas_manifests s" "cas_fds (write_blob_file h d s) = cas_fds s"
  "cas_cfg (write_blob_file h d s) = cas_cfg s" "cas_recency (write_blob_file h d s) = cas_recency s"
  by (simp_all add: write_blob_file_def)

text \<open>A row for a content, its bytes added when the row is fresh: what every ingest does.\<close>

lemma account_ingest_accounted:
  assumes "inj hash" "accounted hash s" "length d < 2 ^ 32" "fresh \<longleftrightarrow> fmlookup (cas_chunks s) (hash d) = None"
    and "cas_chunks s' = fmupd (hash d) (of_nat (length d), now) (cas_chunks s)"
    and "cas_total s' = cas_total s" "cas_blobs s' = cas_blobs s" "rows_ok hash (snd (cas_disk s'))"
  shows "accounted hash (account_ingest (hash d) (length d) fresh now s')"
proof -
  have r: "rows_ok hash (cas_chunks s)" and t: "cas_total s = of_nat (row_bytes (cas_chunks s))"
      "cas_blobs s = of_nat (fmap_size (cas_chunks s))"
    using assms(2) by (simp_all add: accounted_def counted_def)
  define s1 where "s1 = (if fresh then s'\<lparr>cas_total := cas_total s' + of_nat (length d), cas_blobs := cas_blobs s' + 1\<rparr> else s')"
  define s2 where "s2 = s1\<lparr>cas_c := (cas_c s1)\<lparr>cc_ingested_bytes := cc_ingested_bytes (cas_c s1) + of_nat (length d)\<rparr>,
      cas_recency := fmupd (hash d) now (cas_recency s1)\<rparr>"
  have "cas_total s2 = of_nat (row_bytes (cas_chunks s2))" "cas_blobs s2 = of_nat (fmap_size (cas_chunks s2))"
    using counted_insert [OF assms(1) r assms(3)] assms(4-7) t by (auto simp: s2_def s1_def)
  moreover have "cas_chunks s2 = cas_chunks s'" "cas_disk s2 = cas_disk s'" by (simp_all add: s2_def s1_def)
  ultimately have "accounted hash s2"
    using assms(5,8) rows_ok_upd [OF r] by (simp add: accounted_def counted_def)
  moreover have "account_ingest (hash d) (length d) fresh now s' = (if cas_total s2 > cfg_max_bytes (cas_cfg s2) then evict now s2 else s2)"
    by (simp add: account_ingest_def s2_def s1_def Let_def)
  ultimately show ?thesis by (simp add: evict_accounted)
qed

lemma ingest_chunk_accounted:
  "inj hash \<Longrightarrow> accounted hash s \<Longrightarrow> length d < 2 ^ 32 \<Longrightarrow> accounted hash (ingest_chunk hash now key off d s)"
  unfolding ingest_chunk_def Let_def
  by (rule account_ingest_accounted [of hash s])
    (auto simp: commit_durable_def accounted_def intro: rows_ok_upd)

lemma put_blob_accounted:
  "inj hash \<Longrightarrow> accounted hash s \<Longrightarrow> length d < 2 ^ 32 \<Longrightarrow> accounted hash (snd (put_blob hash now d s))"
  unfolding put_blob_def Let_def snd_conv
  by (rule account_ingest_accounted [of hash s])
    (auto simp: commit_durable_def accounted_def intro: rows_ok_upd)

lemma write_blobs_fields:
  "cas_chunks (fold (\<lambda>(h, _, d). write_blob_file h d) xs s) = cas_chunks s
   \<and> cas_total (fold (\<lambda>(h, _, d). write_blob_file h d) xs s) = cas_total s
   \<and> cas_blobs (fold (\<lambda>(h, _, d). write_blob_file h d) xs s) = cas_blobs s
   \<and> cas_disk (fold (\<lambda>(h, _, d). write_blob_file h d) xs s) = cas_disk s
   \<and> cas_manifests (fold (\<lambda>(h, _, d). write_blob_file h d) xs s) = cas_manifests s
   \<and> cas_fds (fold (\<lambda>(h, _, d). write_blob_file h d) xs s) = cas_fds s"
  by (induction xs arbitrary: s) (simp_all add: split_def)

lemma ingest_rows_accounted:
  assumes "inj hash" "rows_ok hash (cas_chunks s)" "\<forall>(_, d) \<in> set xs. length d < 2 ^ 32"
    and "fold (ingest_row now) (map (\<lambda>(off, d). (hash d, off, d)) xs) (s, ft, fb) = (s', ft', fb')"
  shows "rows_ok hash (cas_chunks s') \<and> of_nat (row_bytes (cas_chunks s')) + ft = of_nat (row_bytes (cas_chunks s)) + ft'
    \<and> of_nat (fmap_size (cas_chunks s')) + fb = of_nat (fmap_size (cas_chunks s)) + fb'
    \<and> cas_total s' = cas_total s \<and> cas_blobs s' = cas_blobs s \<and> cas_disk s' = cas_disk s
    \<and> cas_manifests s' = cas_manifests s \<and> cas_fds s' = cas_fds s \<and> cas_files s' = cas_files s"
  using assms(2-)
proof (induction xs arbitrary: s ft fb)
  case (Cons x xs)
  obtain off d where x: "x = (off, d)" by (cases x)
  define s1 where "s1 = s\<lparr>cas_chunks := fmupd (hash d) (of_nat (length d), now) (cas_chunks s),
      cas_c := (cas_c s)\<lparr>cc_ingested_bytes := cc_ingested_bytes (cas_c s) + of_nat (length d)\<rparr>\<rparr>"
  define fresh where "fresh = (fmlookup (cas_chunks s) (hash d) = None)"
  have step: "ingest_row now (hash d, off, d) (s, ft, fb) =
      (s1, if fresh then ft + of_nat (length d) else ft, if fresh then fb + 1 else fb)"
    by (simp add: ingest_row_def s1_def fresh_def Let_def)
  have "fold (ingest_row now) (map (\<lambda>(off, d). (hash d, off, d)) xs)
      (s1, if fresh then ft + of_nat (length d) else ft, if fresh then fb + 1 else fb) = (s', ft', fb')"
    using Cons.prems(3) step by (simp add: x)
  from Cons.IH [OF _ _ this] have "rows_ok hash (cas_chunks s')
    \<and> of_nat (row_bytes (cas_chunks s')) + (if fresh then ft + of_nat (length d) else ft) = of_nat (row_bytes (cas_chunks s1)) + ft'
    \<and> of_nat (fmap_size (cas_chunks s')) + (if fresh then fb + 1 else fb) = of_nat (fmap_size (cas_chunks s1)) + fb'
    \<and> cas_total s' = cas_total s1 \<and> cas_blobs s' = cas_blobs s1 \<and> cas_disk s' = cas_disk s1
    \<and> cas_manifests s' = cas_manifests s1 \<and> cas_fds s' = cas_fds s1 \<and> cas_files s' = cas_files s1"
    using Cons.prems(1,2) by (simp add: s1_def rows_ok_upd)
  then show ?case
    using counted_insert [OF assms(1) Cons.prems(1), of d now] Cons.prems(2) by (simp add: x s1_def fresh_def algebra_simps split: if_splits)
qed simp

text \<open>The batch ingest up to its eviction.\<close>

lemma ingest_chunks_steps:
  fixes hash :: "bytes \<Rightarrow> 'h::linorder"
  defines "hs \<equiv> \<lambda>xs. map (\<lambda>(off, d). (hash d, off, d)) xs"
  obtains s1 ft fb s4 where "fold (ingest_row now) (hs xs) (fold (\<lambda>(h, _, d). write_blob_file h d) (hs xs) s, 0, 0) = (s1, ft, fb)"
    "cas_chunks s4 = cas_chunks s1" "cas_total s4 = cas_total s1 + ft" "cas_blobs s4 = cas_blobs s1 + fb"
    "cas_files s4 = cas_files s1" "cas_fds s4 = cas_fds s1"
    "cas_manifests s4 = fmupd key (sort_key ck_off (map (\<lambda>(h, off, data).
        \<lparr>ck_off = off, ck_len = of_nat (length data), ck_hash = h\<rparr>) (hs xs))) (drop_stale key (cas_manifests s1))"
    "cas_disk s4 = (if durable then (cas_manifests s4, cas_chunks s4) else cas_disk s1)"
    "ingest_chunks_inner hash now key xs durable s = (if cas_total s4 > cfg_max_bytes (cas_cfg s4) then evict now s4 else s4)"
proof -
  obtain s1 ft fb where f: "fold (ingest_row now) (hs xs) (fold (\<lambda>(h, _, d). write_blob_file h d) (hs xs) s, 0, 0) = (s1, ft, fb)"
    by (cases "fold (ingest_row now) (hs xs) (fold (\<lambda>(h, _, d). write_blob_file h d) (hs xs) s, 0, 0)")
  define refs where "refs = sort_key ck_off (map (\<lambda>(h, off, data). \<lparr>ck_off = off, ck_len = of_nat (length data), ck_hash = h\<rparr>) (hs xs))"
  define s2 where "s2 = s1\<lparr>cas_manifests := fmupd key refs (drop_stale key (cas_manifests s1))\<rparr>"
  define s3 where "s3 = (if durable then commit_durable s2 else s2)"
  define s4 where "s4 = s3\<lparr>cas_total := cas_total s3 + ft, cas_blobs := cas_blobs s3 + fb,
      cas_recency := fold (\<lambda>(h, _, _). fmupd h now) (hs xs) (cas_recency s3)\<rparr>"
  have "ingest_chunks_inner hash now key xs durable s = (if cas_total s4 > cfg_max_bytes (cas_cfg s4) then evict now s4 else s4)"
    unfolding ingest_chunks_inner_def Let_def f [unfolded hs_def]
    by (cases durable) (simp_all only: s4_def s3_def s2_def refs_def hs_def prod.case if_True if_False)
  then show ?thesis
    by (intro that [OF f, of s4]) (simp_all add: s4_def s3_def s2_def refs_def commit_durable_def)
qed

lemma ingest_chunks_accounted:
  assumes "inj hash" "accounted hash s" "\<forall>(_, d) \<in> set xs. length d < 2 ^ 32"
  shows "accounted hash (ingest_chunks_inner hash now key xs durable s)"
proof (rule ingest_chunks_steps [of now hash xs s key durable])
  fix s1 ft fb s4
  let ?hs = "map (\<lambda>(off, d). (hash d, off, d)) xs"
  let ?s0 = "fold (\<lambda>(h, _, d). write_blob_file h d) ?hs s"
  assume f: "fold (ingest_row now) ?hs (?s0, 0, 0) = (s1, ft, fb)"
    and s4: "cas_chunks s4 = cas_chunks s1" "cas_total s4 = cas_total s1 + ft" "cas_blobs s4 = cas_blobs s1 + fb"
      "cas_disk s4 = (if durable then (cas_manifests s4, cas_chunks s4) else cas_disk s1)"
    and e: "ingest_chunks_inner hash now key xs durable s = (if cas_total s4 > cfg_max_bytes (cas_cfg s4) then evict now s4 else s4)"
  have s0: "cas_chunks ?s0 = cas_chunks s" "cas_total ?s0 = cas_total s" "cas_blobs ?s0 = cas_blobs s" "cas_disk ?s0 = cas_disk s"
    using write_blobs_fields [of ?hs s] by simp_all
  have "rows_ok hash (cas_chunks ?s0)" using assms(2) s0(1) by (simp add: accounted_def)
  note b = ingest_rows_accounted [OF assms(1) this assms(3) f]
  have "accounted hash s4" using b assms(2) s0 s4 unfolding accounted_def counted_def by simp
  then show ?thesis unfolding e by (simp add: evict_accounted)
qed

lemma get_blob_range_accounted:
  "accounted hash s \<Longrightarrow> accounted hash (snd (get_blob_range hash now h off len v s))"
  by (auto simp: get_blob_range_def Let_def touch_accounted drop_corrupt_accounted split: option.splits)

lemma blob_file_range_accounted:
  "accounted hash s \<Longrightarrow> accounted hash (snd (blob_file_range now h off len s))"
proof -
  assume a: "accounted hash s"
  then have "accounted hash (s\<lparr>cas_fds := x\<rparr>)" for x by (simp add: accounted_def counted_def)
  then show ?thesis using a by (auto simp: blob_file_range_def Let_def touch_accounted split: option.splits prod.splits)
qed

lemma scrub_accounted: "accounted hash s \<Longrightarrow> accounted hash (snd (scrub hash n s))"
proof -
  have "accounted hash (snd (fold (scrub_one hash) hs x))" if "accounted hash (snd x)" for hs x
    using that
    by (induction hs arbitrary: x) (auto simp: scrub_one_def Let_def drop_corrupt_accounted split: option.splits prod.splits)
  then show "accounted hash s \<Longrightarrow> ?thesis" by (simp add: scrub_def Let_def)
qed

lemma restart_accounted: "accounted hash s \<Longrightarrow> accounted hash (cas_restart s)"
  by (simp add: accounted_def counted_def cas_restart_def cas_open_def chunk_bytes_sum length_sorted_list_of_fmap)

section \<open>Honesty\<close>

lemma manifests_ok_mono: "manifests_ok hash C t \<Longrightarrow> C \<subseteq> C' \<Longrightarrow> manifests_ok hash C' t"
  unfolding manifests_ok_def by blast

lemma honest_mono: "honest hash C s \<Longrightarrow> C \<subseteq> C' \<Longrightarrow> honest hash C' s"
  unfolding honest_def using manifests_ok_mono by blast

lemma place_chunk_set: "x \<in> set (place_chunk c cs) \<Longrightarrow> x = c \<or> x \<in> set cs"
  by (induction cs) (auto split: if_splits)

lemma manifests_ok_merged:
  assumes "manifests_ok hash C t" "(key, off, d) \<in> C" "ck_off c = off" "ck_hash c = hash d"
  shows "manifests_ok hash C (merged key c t)"
proof -
  have o: "(\<exists>d. (k, ck_off x, d) \<in> C \<and> ck_hash x = hash d)" if "fmlookup t k = Some cs" "x \<in> set cs" for k cs x
    using assms(1) that unfolding manifests_ok_def by blast
  have s: "fmlookup (drop_stale key t) k = Some cs \<Longrightarrow> fmlookup t k = Some cs" for k cs
    by (auto simp: drop_stale_def split: if_splits)
  show ?thesis
    unfolding manifests_ok_def merged_def Let_def
    using o s assms(2-4) by (auto split: if_splits option.splits dest!: place_chunk_set)
qed

lemma drop_stale_ok: "manifests_ok hash C t \<Longrightarrow> manifests_ok hash C (drop_stale key t)"
  by (auto simp: manifests_ok_def drop_stale_def split: if_splits)


text \<open>The parts that honesty looks at.\<close>

lemma honest_cong:
  assumes "honest hash C s" "\<And>h d. fmlookup (cas_files s') h = Some d \<Longrightarrow> fmlookup (cas_files s) h = Some d"
    "cas_fds s' = cas_fds s" "cas_manifests s' = cas_manifests s" "cas_disk s' = cas_disk s"
  shows "honest hash C s'"
  using assms unfolding honest_def by auto

lemma touch_honest: "honest hash C s \<Longrightarrow> honest hash C (touch now h s)"
  by (erule honest_cong) (auto simp: touch_def Let_def split: option.splits if_splits)

lemma drop_corrupt_honest: "honest hash C s \<Longrightarrow> honest hash C (drop_corrupt h s)"
  by (erule honest_cong) (auto simp: drop_corrupt_def Let_def split: option.splits if_splits)

lemma counters_honest [simp]:
  "honest hash C (count_hit s) \<longleftrightarrow> honest hash C s" "honest hash C (count_miss s) \<longleftrightarrow> honest hash C s"
  by (simp_all add: count_hit_def count_miss_def honest_def)

lemma write_blob_honest: "honest hash C s \<Longrightarrow> honest hash C (write_blob_file (hash d) d s)"
  by (auto simp: write_blob_file_def honest_def)

lemma account_ingest_honest: "honest hash C s \<Longrightarrow> honest hash C (account_ingest h n fresh now s)"
proof -
  assume a: "honest hash C s"
  define s1 where "s1 = (if fresh then s\<lparr>cas_total := cas_total s + of_nat n, cas_blobs := cas_blobs s + 1\<rparr> else s)"
  define s2 where "s2 = s1\<lparr>cas_c := (cas_c s1)\<lparr>cc_ingested_bytes := cc_ingested_bytes (cas_c s1) + of_nat n\<rparr>,
      cas_recency := fmupd h now (cas_recency s1)\<rparr>"
  have "honest hash C s2" using a by (simp add: s2_def s1_def honest_def)
  moreover have "account_ingest h n fresh now s = (if cas_total s2 > cfg_max_bytes (cas_cfg s2) then evict now s2 else s2)"
    by (simp add: account_ingest_def s2_def s1_def Let_def)
  ultimately show ?thesis by (simp add: evict_honest)
qed

lemma ingest_chunk_honest:
  assumes "honest hash C s" "(key, off, d) \<in> C"
  shows "honest hash C (ingest_chunk hash now key off d s)"
proof -
  define s0 where "s0 = write_blob_file (hash d) d s"
  have "honest hash C s0" unfolding s0_def by (rule write_blob_honest [OF assms(1)])
  then have "honest hash C (commit_durable (s0\<lparr>cas_chunks := x,
      cas_manifests := merged key \<lparr>ck_off = off, ck_len = y, ck_hash = hash d\<rparr> (cas_manifests s0)\<rparr>))" for x y
    using manifests_ok_merged [OF _ assms(2), of hash] by (simp add: honest_def commit_durable_def)
  then show ?thesis unfolding ingest_chunk_def Let_def s0_def [symmetric] by (rule account_ingest_honest)
qed

lemma put_blob_honest: "honest hash C s \<Longrightarrow> honest hash C (snd (put_blob hash now d s))"
proof -
  assume "honest hash C s"
  then have "honest hash C (write_blob_file (hash d) d s)" by (rule write_blob_honest)
  then have "honest hash C (commit_durable ((write_blob_file (hash d) d s)\<lparr>cas_chunks := x\<rparr>))" for x
    by (simp add: honest_def commit_durable_def)
  then show ?thesis unfolding put_blob_def Let_def snd_conv by (rule account_ingest_honest)
qed

lemma ingest_row_fields:
  "cas_files (fst (ingest_row now x y)) = cas_files (fst y)" "cas_fds (fst (ingest_row now x y)) = cas_fds (fst y)"
  "cas_manifests (fst (ingest_row now x y)) = cas_manifests (fst y)" "cas_disk (fst (ingest_row now x y)) = cas_disk (fst y)"
  by (simp_all add: ingest_row_def Let_def split: prod.splits)

lemma ingest_rows_fields:
  "cas_files (fst (fold (ingest_row now) xs y)) = cas_files (fst y) \<and> cas_fds (fst (fold (ingest_row now) xs y)) = cas_fds (fst y)
   \<and> cas_manifests (fst (fold (ingest_row now) xs y)) = cas_manifests (fst y)
   \<and> cas_disk (fst (fold (ingest_row now) xs y)) = cas_disk (fst y)"
  by (induction xs arbitrary: y) (simp_all add: ingest_row_fields)

lemma write_blobs_honest:
  "honest hash C s \<Longrightarrow> honest hash C (fold (\<lambda>(h, _, d). write_blob_file h d) (map (\<lambda>(off, d). (hash d, off, d)) xs) s)"
  by (induction xs arbitrary: s) (auto simp: write_blob_honest)

lemma manifests_ok_put:
  assumes "manifests_ok hash C t" "\<And>c. c \<in> set refs \<Longrightarrow> \<exists>d. (key, ck_off c, d) \<in> C \<and> ck_hash c = hash d"
  shows "manifests_ok hash C (fmupd key refs (drop_stale key t))"
  using drop_stale_ok [OF assms(1), of key] assms(2) by (auto simp: manifests_ok_def)

lemma ingest_chunks_honest:
  assumes "honest hash C s" "\<forall>(off, d) \<in> set xs. (key, off, d) \<in> C"
  shows "honest hash C (ingest_chunks_inner hash now key xs durable s)"
proof (rule ingest_chunks_steps [of now hash xs s key durable])
  fix s1 ft fb s4
  let ?hs = "map (\<lambda>(off, d). (hash d, off, d)) xs"
  let ?s0 = "fold (\<lambda>(h, _, d). write_blob_file h d) ?hs s"
  let ?refs = "sort_key ck_off (map (\<lambda>(h, off, data). \<lparr>ck_off = off, ck_len = of_nat (length data), ck_hash = h\<rparr>) ?hs)"
  assume f: "fold (ingest_row now) ?hs (?s0, 0, 0) = (s1, ft, fb)"
    and s4: "cas_files s4 = cas_files s1" "cas_fds s4 = cas_fds s1"
      "cas_manifests s4 = fmupd key ?refs (drop_stale key (cas_manifests s1))"
      "cas_disk s4 = (if durable then (cas_manifests s4, cas_chunks s4) else cas_disk s1)"
    and e: "ingest_chunks_inner hash now key xs durable s = (if cas_total s4 > cfg_max_bytes (cas_cfg s4) then evict now s4 else s4)"
  have h1: "honest hash C s1"
    by (rule honest_cong [OF write_blobs_honest [OF assms(1), of xs]])
      (use ingest_rows_fields [of now ?hs "(?s0, 0, 0)"] f in simp_all)
  have "manifests_ok hash C (fmupd key ?refs (drop_stale key (cas_manifests s1)))"
  proof (rule manifests_ok_put)
    show "manifests_ok hash C (cas_manifests s1)" using h1 by (simp add: honest_def)
    fix c assume "c \<in> set ?refs"
    then obtain off d where "(off, d) \<in> set xs" "ck_off c = off" "ck_hash c = hash d" by auto
    then show "\<exists>d. (key, ck_off c, d) \<in> C \<and> ck_hash c = hash d" using assms(2) by auto
  qed
  then have "honest hash C s4" using h1 s4 by (simp add: honest_def)
  then show ?thesis unfolding e by (simp add: evict_honest)
qed


lemma manifests_ok_filter: "manifests_ok hash C t \<Longrightarrow> manifests_ok hash C (fmfilter P t)"
  by (auto simp: manifests_ok_def split: if_splits)

lemma drops_honest: "honest hash C s \<Longrightarrow> honest hash C (drop_node sh i g s)" "honest hash C s \<Longrightarrow> honest hash C (drop_share sh s)"
  by (simp_all add: honest_def drop_node_def drop_share_def manifests_ok_filter)

lemma rebind_honest:
  assumes "honest hash C s" "\<And>off d. (from, off, d) \<in> C \<Longrightarrow> (to, off, d) \<in> C"
  shows "honest hash C (rebind_manifest from to s)"
proof (cases "fmlookup (cas_manifests s) from")
  case (Some enc)
  have m: "manifests_ok hash C (cas_manifests s)" using assms(1) by (simp add: honest_def)
  then have "manifests_ok hash C (fmdrop from (cas_manifests s))" by (auto simp: manifests_ok_def split: if_splits)
  then have "manifests_ok hash C (fmupd to enc (drop_stale to (fmdrop from (cas_manifests s))))"
    by (rule manifests_ok_put) (use m Some assms(2) in \<open>unfold manifests_ok_def, blast\<close>)
  then show ?thesis using assms(1) Some by (simp add: rebind_manifest_def honest_def)
qed (use assms(1) in \<open>simp add: rebind_manifest_def\<close>)

lemma get_blob_range_honest: "honest hash C s \<Longrightarrow> honest hash C (snd (get_blob_range hash now h off len v s))"
  by (auto simp: get_blob_range_def Let_def touch_honest drop_corrupt_honest split: option.splits)

lemma blob_file_range_honest: "honest hash C s \<Longrightarrow> honest hash C (snd (blob_file_range now h off len s))"
proof -
  assume a: "honest hash C s"
  have "honest hash C (s\<lparr>cas_fds := tl (cas_fds s) @ [(h, f)]\<rparr>)" "honest hash C (s\<lparr>cas_fds := cas_fds s @ [(h, f)]\<rparr>)"
    if "fmlookup (cas_files s) h = Some f" for f
    using a that by (cases "cas_fds s"; auto simp: honest_def)+
  note * = touch_honest [OF this(1)] touch_honest [OF this(2)] touch_honest [OF a]
  show ?thesis using a
    by (auto simp: blob_file_range_def Let_def intro: * split: option.splits prod.splits)
qed

lemma scrub_honest: "honest hash C s \<Longrightarrow> honest hash C (snd (scrub hash n s))"
proof -
  have "honest hash C (snd (fold (scrub_one hash) hs x))" if "honest hash C (snd x)" for hs x
    using that
    by (induction hs arbitrary: x) (auto simp: scrub_one_def Let_def drop_corrupt_honest split: option.splits prod.splits)
  then show "honest hash C s \<Longrightarrow> ?thesis" by (simp add: scrub_def Let_def)
qed

section \<open>Runs of the store\<close>

datatype 'h cas_op =
    OpIngest manifest_key u64 bytes
  | OpIngestMany manifest_key "(u64 \<times> bytes) list" bool
  | OpPutBlob bytes
  | OpRebind manifest_key manifest_key
  | OpDropNode u16 u64 u32
  | OpDropShare u16
  | OpRange 'h u32 u32 bool
  | OpHandle 'h u32 u32
  | OpEvict
  | OpScrub nat
  | OpPersist
  | OpClear
  | OpRestart

primrec cas_exec :: "(bytes \<Rightarrow> 'h) \<Rightarrow> u64 \<Rightarrow> 'h cas_op \<Rightarrow> ('h::linorder) cas_store \<Rightarrow> 'h cas_store" where
  "cas_exec hash now (OpIngest key off d) s = ingest_chunk hash now key off d s"
| "cas_exec hash now (OpIngestMany key xs durable) s = ingest_chunks_inner hash now key xs durable s"
| "cas_exec hash now (OpPutBlob d) s = snd (put_blob hash now d s)"
| "cas_exec hash now (OpRebind from to) s = rebind_manifest from to s"
| "cas_exec hash now (OpDropNode sh i g) s = drop_node sh i g s"
| "cas_exec hash now (OpDropShare sh) s = drop_share sh s"
| "cas_exec hash now (OpRange h off len v) s = snd (get_blob_range hash now h off len v s)"
| "cas_exec hash now (OpHandle h off len) s = snd (blob_file_range now h off len s)"
| "cas_exec hash now OpEvict s = evict now s"
| "cas_exec hash now (OpScrub n) s = snd (scrub hash n s)"
| "cas_exec hash now OpPersist s = commit_durable s"
| "cas_exec hash now OpClear s = clear s"
| "cas_exec hash now OpRestart s = cas_restart s"

primrec op_claims :: "'h cas_op \<Rightarrow> claims \<Rightarrow> claims" where
  "op_claims (OpIngest key off d) C = insert (key, off, d) C"
| "op_claims (OpIngestMany key xs durable) C = C \<union> Pair key ` set xs"
| "op_claims (OpPutBlob d) C = C"
| "op_claims (OpRebind from to) C = C \<union> {(to, off, d) |off d. (from, off, d) \<in> C}"
| "op_claims (OpDropNode sh i g) C = C"
| "op_claims (OpDropShare sh) C = C"
| "op_claims (OpRange h off len v) C = C"
| "op_claims (OpHandle h off len) C = C"
| "op_claims OpEvict C = C"
| "op_claims (OpScrub n) C = C"
| "op_claims OpPersist C = C"
| "op_claims OpClear C = C"
| "op_claims OpRestart C = C"

text \<open>Contents are shorter than 4 GiB, as the lengths of the rows are 32 bits wide.\<close>

fun op_ok :: "'h cas_op \<Rightarrow> bool" where
  "op_ok (OpIngest key off d) = (length d < 2 ^ 32)"
| "op_ok (OpIngestMany key xs durable) = (\<forall>(_, d) \<in> set xs. length d < 2 ^ 32)"
| "op_ok (OpPutBlob d) = (length d < 2 ^ 32)"
| "op_ok _ = True"

inductive cas_reach :: "(bytes \<Rightarrow> 'h) \<Rightarrow> cas_config \<Rightarrow> claims \<Rightarrow> ('h::linorder) cas_store \<Rightarrow> bool"
  for hash :: "bytes \<Rightarrow> 'h" and cfg :: cas_config where
  opened: "cas_reach hash cfg {} (cas_open cfg (fmempty, fmempty) fmempty)"
| step: "cas_reach hash cfg C s \<Longrightarrow> op_ok op \<Longrightarrow> cas_reach hash cfg (op_claims op C) (cas_exec hash now op s)"

lemma exec_accounted: "inj hash \<Longrightarrow> accounted hash s \<Longrightarrow> op_ok op \<Longrightarrow> accounted hash (cas_exec hash now op s)"
  by (cases op)
    (simp_all add: ingest_chunk_accounted ingest_chunks_accounted put_blob_accounted get_blob_range_accounted
      blob_file_range_accounted evict_accounted scrub_accounted restart_accounted,
     auto simp: accounted_def counted_def rebind_manifest_def drop_node_def drop_share_def commit_durable_def clear_def
      row_bytes_def rows_ok_def split: option.splits)

lemma exec_honest: "honest hash C s \<Longrightarrow> honest hash (op_claims op C) (cas_exec hash now op s)"
proof (cases op)
  case (OpIngest key off d)
  assume "honest hash C s"
  then show ?thesis using honest_mono [of hash C s "insert (key, off, d) C"]
    by (auto simp: OpIngest intro!: ingest_chunk_honest)
next
  case (OpIngestMany key xs durable)
  assume "honest hash C s"
  then show ?thesis using honest_mono [of hash C s "C \<union> Pair key ` set xs"]
    by (auto simp: OpIngestMany intro!: ingest_chunks_honest)
next
  case (OpRebind k1 k2)
  let ?C = "C \<union> {(k2, off, d) |off d. (k1, off, d) \<in> C}"
  assume "honest hash C s"
  then have "honest hash ?C s" by (rule honest_mono) blast
  then show ?thesis unfolding OpRebind op_claims.simps cas_exec.simps by (rule rebind_honest) auto
qed (auto simp: put_blob_honest drops_honest get_blob_range_honest blob_file_range_honest evict_honest scrub_honest,
    auto simp: honest_def commit_durable_def clear_def cas_restart_def cas_open_def manifests_ok_def)

lemma reach_honest: "cas_reach hash cfg C s \<Longrightarrow> honest hash C s"
  by (induction rule: cas_reach.induct) (simp_all add: exec_honest, simp add: honest_def cas_open_def manifests_ok_def)

lemma reach_accounted: "cas_reach hash cfg C s \<Longrightarrow> inj hash \<Longrightarrow> accounted hash s"
  by (induction rule: cas_reach.induct)
    (simp_all add: exec_accounted, simp add: accounted_def counted_def cas_open_def chunk_bytes_sum length_sorted_list_of_fmap rows_ok_def)

section \<open>What an eviction frees\<close>

lemma place_chunk_find: "find (\<lambda>x. ck_off x = ck_off c) (place_chunk c cs) = Some c"
  by (induction cs) auto

lemma bytes_of_rows:
  assumes "set rows \<subseteq> set (evict_rows s)"
  shows "sum_list (map (row_len (cas_chunks s)) (map fst rows)) = sum_list (map (\<lambda>(_, len, _). unat len) rows)"
  using assms
proof (induction rows)
  case (Cons r rows)
  obtain h len lst where r: "r = (h, len, lst)" by (cases r)
  have "row_len (cas_chunks s) h = unat len"
    using evict_rows_in(1) [of h len lst s] Cons.prems by (auto simp: r row_len_def)
  then show ?case using Cons by (simp add: r)
qed simp

lemma row_bytes_rows: "row_bytes (cas_chunks s) = sum_list (map (\<lambda>(_, len, _). unat len) (evict_rows s))"
proof -
  have "fmap_size (cas_chunks s) = length (evict_rows s)"
    using length_sorted_list_of_fmap [of "cas_chunks s"] by (simp add: evict_rows_def)
  moreover have "fmap_size (cas_chunks s) = length (map fst (evict_rows s)) + fmap_size (fold fmdrop (map fst (evict_rows s)) (cas_chunks s))"
    using evict_rows_in(1) by (intro fmap_size_drops evict_rows_distinct) fastforce
  ultimately have "fmap_size (fold fmdrop (map fst (evict_rows s)) (cas_chunks s)) = 0" by simp
  then have "fold fmdrop (map fst (evict_rows s)) (cas_chunks s) = fmempty"
    by (simp add: fmap_size_def) (metis fmrestrict_fset_dom fmrestrict_fset_null bot_fset.rep_eq fset_inject)
  then show ?thesis
    using row_bytes_drops [OF evict_rows_distinct, of "cas_chunks s" s] bytes_of_rows [of "evict_rows s" s]
    by (simp add: row_bytes_def)
qed

lemma hot_cold_bytes:
  "row_bytes (cas_chunks s) = sum_list (map (\<lambda>(_, len, _). unat len) (filter (hot_row now) (evict_rows s)))
     + sum_list (map (row_len (cas_chunks s)) (cold_hashes now s))"
proof -
  have "sum_list (map f xs) = sum_list (map f (filter P xs)) + sum_list (map f (filter (\<lambda>x. \<not> P x) xs))"
    for f :: "'a \<times> u32 \<times> u64 \<Rightarrow> nat" and P xs
    by (induction xs) simp_all
  moreover have "sum_list (map (row_len (cas_chunks s)) (cold_hashes now s)) =
      sum_list (map (\<lambda>(_, len, _). unat len) (filter (\<lambda>r. \<not> hot_row now r) (evict_rows s)))"
    unfolding cold_hashes_def by (rule bytes_of_rows) auto
  ultimately show ?thesis unfolding row_bytes_rows by metis
qed


lemma unat_ucast_32_64: "unat (ucast (x :: u32) :: u64) = unat x"
proof -
  have "unat x < 2 ^ 64" using unsigned_less [of x, where 'a = nat] by simp
  then show ?thesis by (simp add: unsigned_ucast_eq take_bit_nat_eq_self)
qed

lemma evict_total:
  assumes "accounted hash s" "row_bytes (cas_chunks s) < 2 ^ 64" "evict_victims now s = (vs, freed)"
  shows "cas_total s - freed = sat_sub (cas_total s) freed"
    and "set vs = fset (fmdom (cas_chunks s)) \<Longrightarrow> cas_total s - freed = 0"
proof -
  note s = evict_victims_sound [OF assms(3)]
  have rb: "row_bytes (cas_chunks s) = sum_list (map (row_len (cas_chunks s)) vs) + row_bytes (fold fmdrop vs (cas_chunks s))"
    using s by (intro row_bytes_drops) simp
  have t: "cas_total s = of_nat (row_bytes (cas_chunks s))" using assms(1) by (simp add: accounted_def counted_def)
  then have "unat (cas_total s) = row_bytes (cas_chunks s)" using assms(2) by (simp add: unat_of_nat_small)
  moreover have "unat freed = sum_list (map (row_len (cas_chunks s)) vs)"
    using s rb assms(2) by (simp add: unat_of_nat_small)
  ultimately have "freed \<le> cas_total s" unfolding word_le_nat_alt using rb by linarith
  then show "cas_total s - freed = sat_sub (cas_total s) freed" by (simp add: word_unat_eq_iff unat_sub)
  assume "set vs = fset (fmdom (cas_chunks s))"
  then have "fmlookup (fold fmdrop vs (cas_chunks s)) k = None" for k
    using fmdom_in_iff [of k "cas_chunks s"] by (cases "fmlookup (cas_chunks s) k") (auto simp: fmlookup_fold_fmdrop)
  then have "fold fmdrop vs (cas_chunks s) = fmempty" by (intro fmap_ext) simp
  then show "cas_total s - freed = 0" using rb s t by (simp add: row_bytes_def)
qed

section \<open>A sample store\<close>

definition sample_key :: manifest_key where
  "sample_key = \<lparr>mk_share = 0, mk_ino = 10, mk_generation = 1, mk_version = 77\<rparr>"

definition sample_cas :: "bytes cas_store" where
  "sample_cas = cas_exec id 5 (OpIngest sample_key 0 [1, 2, 3])
     (cas_open \<lparr>cfg_max_bytes = 100, cfg_target = 90\<rparr> (fmempty, fmempty) fmempty)"

lemma sample_cas_reach:
  "cas_reach id \<lparr>cfg_max_bytes = 100, cfg_target = 90\<rparr> {(sample_key, 0, [1, 2, 3])} sample_cas"
  using cas_reach.step [OF cas_reach.opened, of "OpIngest sample_key 0 [1, 2, 3]" id "\<lparr>cfg_max_bytes = 100, cfg_target = 90\<rparr>" 5]
  by (simp add: sample_cas_def)

lemma sample_cas_eval:
  "get_manifest sample_key sample_cas = Some [\<lparr>ck_off = 0, ck_len = 3, ck_hash = [1, 2, 3]\<rparr>]"
  "fst (get_blob_range id 7 [1, 2, 3] 1 2 False sample_cas) = Some [2, 3]"
  "cas_total sample_cas = 3" "cas_cfg sample_cas = \<lparr>cfg_max_bytes = 100, cfg_target = 90\<rparr>"
  "row_bytes (cas_chunks sample_cas) = 3"
  by (code_simp)+

section \<open>Properties\<close>

text \<open>
  C7. The cache may forget but never lies: in every state the store can reach, also after a
  crash and a restart, the bytes it returns for a chunk of a manifest, by a copy or through an
  open handle, are those that were ingested for this version of the file at this offset.
\<close>

theorem cas_serves_ingested:
  assumes "inj hash" "cas_reach hash cfg C s" "get_manifest key s = Some cs" "c \<in> set cs"
  shows "(\<forall>b s'. get_blob_range hash now (ck_hash c) off len v s = (Some b, s') \<longrightarrow>
      length b = unat len \<and> (\<exists>d. (key, ck_off c, d) \<in> C \<and> b = take (unat len) (drop (unat off) d)))
    \<and> (\<forall>f p s'. blob_file_range now (ck_hash c) off len s = (Some (f, p), s') \<longrightarrow>
      (key, ck_off c, f) \<in> C \<and> unat p = unat off)"
proof -
  note h = reach_honest [OF assms(2)]
  obtain d where d: "(key, ck_off c, d) \<in> C" "ck_hash c = hash d"
    using h assms(3,4) unfolding honest_def manifests_ok_def get_manifest_def by blast
  have f: "fmlookup (cas_files s) (ck_hash c) = Some f \<Longrightarrow> f = d" for f
    using h d(2) assms(1) unfolding honest_def by (metis injD)
  have g: "find (\<lambda>(x, _). x = ck_hash c) (cas_fds s) = Some (x, f) \<Longrightarrow> f = d" for x f
    using h d(2) assms(1) unfolding honest_def by (fastforce simp: find_Some_iff dest: injD nth_mem)
  show ?thesis
    using d(1) f g
    by (auto simp: get_blob_range_def blob_file_range_def Let_def unat_ucast_32_64 split: option.splits if_splits prod.splits)
qed

theorem cas_serves_ingested_witness:
  "\<exists>b. fst (get_blob_range id 7 [1, 2, 3] 1 2 False sample_cas) = Some b \<and> length b = 2 \<and> b = take 2 (drop 1 [1, 2, 3])"
proof -
  obtain b s' where g: "get_blob_range id 7 [1, 2, 3] 1 2 False sample_cas = (Some b, s')"
    using sample_cas_eval(2) by (cases "get_blob_range id 7 [1, 2, 3] 1 2 False sample_cas") auto
  have "length b = unat (2 :: u32) \<and> (\<exists>d. (sample_key, 0, d) \<in> {(sample_key, 0, [1, 2, 3])} \<and> b = take (unat (2 :: u32)) (drop (unat (1 :: u32)) d))"
    using cas_serves_ingested [OF _ sample_cas_reach sample_cas_eval(1), of "\<lparr>ck_off = 0, ck_len = 3, ck_hash = [1, 2, 3]\<rparr>" 7 1 2 False] g
    by simp
  then show ?thesis using g by simp
qed

text \<open>
  C28. The accounts are exact in every reachable state: the byte total is the sum of the lengths
  of the chunk rows and the blob count is their number, across duplicate contents, corruption,
  eviction and restart.
\<close>

theorem cas_accounts_exact:
  assumes "inj hash" "cas_reach hash cfg C s"
  shows "cas_total s = chunk_bytes (cas_chunks s) \<and> cas_blobs s = of_nat (fmap_size (cas_chunks s))"
  using reach_accounted [OF assms(2,1)] by (simp add: accounted_def counted_def chunk_bytes_sum)

theorem cas_accounts_exact_witness: "chunk_bytes (cas_chunks sample_cas) = 3 \<and> cas_blobs sample_cas = 1"
proof -
  have "fmap_size (cas_chunks sample_cas) = 1" by code_simp
  then show ?thesis using cas_accounts_exact [OF _ sample_cas_reach] sample_cas_eval(3) by simp
qed

text \<open>
  C29. Eviction is effective and fair: after it the total is within the hard cap, and a chunk
  touched within the last ten minutes is dropped only if the chunks touched in that time
  exceed the cap by themselves.
\<close>

theorem cas_evict_bound:
  assumes "inj hash" "cas_reach hash cfg C s" "row_bytes (cas_chunks s) < 2 ^ 64"
    and "cfg_target (cas_cfg s) \<le> cfg_max_bytes (cas_cfg s)"
  shows "cas_total (evict now s) \<le> cfg_max_bytes (cas_cfg s)
    \<and> (\<forall>h len lst. (h, len, lst) \<in> set (evict_rows s) \<longrightarrow> sat_sub now lst < EVICTION_PROTECTION \<longrightarrow>
        fmlookup (cas_chunks (evict now s)) h = None \<longrightarrow>
        unat (cfg_max_bytes (cas_cfg s)) < sum_list (map (\<lambda>(_, len, _). unat len) (filter (hot_row now) (evict_rows s))))"
proof -
  have a: "accounted hash s" by (rule reach_accounted [OF assms(2,1)])
  then have t: "cas_total s = of_nat (row_bytes (cas_chunks s))" by (simp add: accounted_def counted_def)
  obtain vs freed where v: "evict_victims now s = (vs, freed)" by fastforce
  have le: "cas_total s - freed \<le> cfg_max_bytes (cas_cfg s)"
    using evict_victims_enough [OF v] evict_total [OF a assms(3) v] assms(4) by (auto simp: max_def)
  have e: "cas_total (evict now s) \<in> {cas_total s - freed} \<union> {x. x = cas_total s \<and> (x \<le> cfg_target (cas_cfg s) \<or> vs = [])}"
    "cas_chunks (evict now s) \<in> {cas_chunks s, fold fmdrop vs (cas_chunks s)}"
    using v by (auto simp: evict_def)
  have "vs = [] \<Longrightarrow> freed = 0" using evict_victims_sound [OF v] by simp
  then have "cas_total (evict now s) \<le> cfg_max_bytes (cas_cfg s)" using e(1) le assms(4) by auto
  moreover have "unat (cfg_max_bytes (cas_cfg s)) < sum_list (map (\<lambda>(_, len, _). unat len) (filter (hot_row now) (evict_rows s)))"
    if r: "(h, len, lst) \<in> set (evict_rows s)" "sat_sub now lst < EVICTION_PROTECTION" "fmlookup (cas_chunks (evict now s)) h = None"
    for h len lst
  proof -
    have "fmlookup (cas_chunks s) h \<noteq> None" using evict_rows_in(1) [OF r(1)] by auto
    then have "h \<in> set vs" using e(2) r(3) by (auto simp: fmlookup_fold_fmdrop split: if_splits)
    moreover have "h \<notin> set (cold_hashes now s)"
      using r(1,2) evict_rows_distinct [of s] by (force simp: cold_hashes_def hot_row_def dest: eq_key_imp_eq_value)
    ultimately have m: "sat_sub (cas_total s) (bytes_of s (cold_hashes now s)) > cfg_max_bytes (cas_cfg s)"
      using evict_victims_hot [OF v] by blast
    have "unat (cas_total s) = row_bytes (cas_chunks s)" using t assms(3) by (simp add: unat_of_nat_small)
    moreover have "unat (bytes_of s (cold_hashes now s)) = sum_list (map (row_len (cas_chunks s)) (cold_hashes now s))"
      using hot_cold_bytes [of s now] assms(3) by (simp add: unat_of_nat_small)
    ultimately show ?thesis using m hot_cold_bytes [of s now] by (simp add: word_less_nat_alt)
  qed
  ultimately show ?thesis by blast
qed

theorem cas_evict_bound_witness: "cas_total (evict 9 sample_cas) \<le> 100"
  using cas_evict_bound [OF _ sample_cas_reach, of 9] sample_cas_eval by simp

text \<open>
  C30. An ingested chunk is served: when it fits under the cap, a read of the chunk from the
  manifest of its version returns exactly its bytes, also when its blob was already stored.
\<close>

theorem cas_ingest_hit:
  assumes "inj hash" "cas_reach hash cfg C s" "length d < 2 ^ 32"
    and "unat (cas_total s) + length d \<le> unat (cfg_max_bytes (cas_cfg s))"
    and "s' = ingest_chunk hash now key off d s"
  shows "\<exists>cs c. get_manifest key s' = Some cs \<and> find (\<lambda>c. ck_off c = off) cs = Some c
    \<and> fst (get_blob_range hash now' (ck_hash c) 0 (ck_len c) v s') = Some d"
proof -
  have "length d \<le> unat (cfg_max_bytes (cas_cfg s))" using assms(4) by simp
  then have "length d < 2 ^ 64" using unsigned_less [of "cfg_max_bytes (cas_cfg s)", where 'a = nat] by simp
  then have small: "cas_total s + of_nat (length d) \<le> cfg_max_bytes (cas_cfg s)" "cas_total s \<le> cfg_max_bytes (cas_cfg s)"
    using assms(4) unsigned_less [of "cfg_max_bytes (cas_cfg s)", where 'a = nat] by (simp_all add: word_le_nat_alt unat_plus_simple unat_of_nat_small unat_word_ariths)
  then have fits: "(cfg_max_bytes (cas_cfg s) < cas_total s + of_nat (length d)) = False"
    "(cfg_max_bytes (cas_cfg s) < cas_total s) = False" by (simp_all add: leD)
  let ?c = "\<lparr>ck_off = off, ck_len = of_nat (length d), ck_hash = hash d\<rparr>"
  have m: "cas_manifests s' = merged key ?c (cas_manifests s)" "cas_files s' = cas_files (write_blob_file (hash d) d s)"
    by (simp_all add: assms(5) ingest_chunk_def account_ingest_def commit_durable_def Let_def fits)
  have "fmlookup (cas_files s) (hash d) = Some f \<Longrightarrow> f = d" for f
    using reach_honest [OF assms(2)] assms(1) unfolding honest_def by (metis injD)
  then have "fmlookup (cas_files s') (hash d) = Some d" unfolding m(2) by (cases "fmlookup (cas_files s) (hash d)") (auto simp: write_blob_file_def)
  then have "fst (get_blob_range hash now' (hash d) 0 (of_nat (length d)) v s') = Some d"
    using assms(3) by (simp add: get_blob_range_def Let_def unat_of_nat_small)
  moreover obtain cs where "get_manifest key s' = Some (place_chunk ?c cs)"
    by (simp add: get_manifest_def m(1) merged_def Let_def)
  ultimately show ?thesis using place_chunk_find [of ?c cs] by (intro exI [of _ "place_chunk ?c cs"] exI [of _ ?c]) simp
qed

theorem cas_ingest_hit_witness:
  "\<exists>cs c. get_manifest sample_key (ingest_chunk id 8 sample_key 4 [9] sample_cas) = Some cs \<and> find (\<lambda>c. ck_off c = 4) cs = Some c
    \<and> fst (get_blob_range id 9 (ck_hash c) 0 (ck_len c) True (ingest_chunk id 8 sample_key 4 [9] sample_cas)) = Some [9]"
  by (rule cas_ingest_hit [OF _ sample_cas_reach _ _ refl]) (simp_all add: sample_cas_eval)

end
