(* ===== verification/Xdr.thy ===== *)
theory Xdr
  imports Proto_Types
begin

text \<open>
  The XDR codec of the NFS front end (\<^verbatim>\<open>crates/mist-nfs/src/xdr.rs\<close>). A writer is its buffer; a
  reader is the buffer with a position, and every read returns the value, or \<open>None\<close> for
  \<^verbatim>\<open>XdrError\<close>, together with the reader after it, since callers go on reading after a failed
  read (\<^verbatim>\<open>unwrap_or\<close>). The locale \<open>wire_codec\<close> is the contract of an encoding and its reader;
  the primitives are its instances.
\<close>

section \<open>Writer\<close>

type_synonym xdr_writer = bytes

definition w_u32 :: "u32 \<Rightarrow> xdr_writer \<Rightarrow> xdr_writer" where
  "w_u32 v w = w @ be_bytes 4 v"

definition w_u64 :: "u64 \<Rightarrow> xdr_writer \<Rightarrow> xdr_writer" where
  "w_u64 v w = w @ be_bytes 8 v"

definition w_bool :: "bool \<Rightarrow> xdr_writer \<Rightarrow> xdr_writer" where
  "w_bool v = w_u32 (if v then 1 else 0)"

definition w_pad :: "nat \<Rightarrow> xdr_writer \<Rightarrow> xdr_writer" where
  "w_pad len w = (let r = len mod 4 in if r \<noteq> 0 then w @ replicate (4 - r) 0 else w)"

definition w_opaque :: "bytes \<Rightarrow> xdr_writer \<Rightarrow> xdr_writer" where
  "w_opaque data w = w_pad (length data) (w_u32 (of_nat (length data)) w @ data)"

definition w_fixed :: "bytes \<Rightarrow> xdr_writer \<Rightarrow> xdr_writer" where
  "w_fixed data w = w_pad (length data) (w @ data)"

text \<open>\<^verbatim>\<open>pad_to_4\<close>: the loop pushes a zero until the length is a multiple of 4.\<close>

fun pad_loop :: "nat \<Rightarrow> xdr_writer \<Rightarrow> xdr_writer" where
  "pad_loop 0 w = w"
| "pad_loop (Suc n) w = (if length w mod 4 = 0 then w else pad_loop n (w @ [0]))"

definition pad_to_4 :: "xdr_writer \<Rightarrow> xdr_writer" where
  "pad_to_4 w = pad_loop 4 w"

text \<open>\<^verbatim>\<open>patch_u32\<close> panics out of range: \<open>None\<close>.\<close>

definition patch_u32 :: "nat \<Rightarrow> u32 \<Rightarrow> xdr_writer \<Rightarrow> xdr_writer option" where
  "patch_u32 pos v w =
     (if pos + 4 \<le> length w then Some (take pos w @ be_bytes 4 v @ drop (pos + 4) w) else None)"

definition w_truncate :: "nat \<Rightarrow> xdr_writer \<Rightarrow> xdr_writer" where
  "w_truncate pos w = take pos w"

definition w_since :: "nat \<Rightarrow> xdr_writer \<Rightarrow> bytes" where
  "w_since pos w = drop pos w"

text \<open>A sequence of writes, in the order of the statements.\<close>

primrec emit :: "(xdr_writer \<Rightarrow> xdr_writer) list \<Rightarrow> xdr_writer \<Rightarrow> xdr_writer" where
  "emit [] w = w"
| "emit (f # fs) w = emit fs (f w)"

section \<open>Reader\<close>

record xdr_reader =
  xr_buf :: bytes
  xr_pos :: nat

type_synonym 'a rd = "xdr_reader \<Rightarrow> 'a option \<times> xdr_reader"

definition xdr_new :: "bytes \<Rightarrow> xdr_reader" where
  "xdr_new buf = \<lparr>xr_buf = buf, xr_pos = 0\<rparr>"

definition xr_remaining :: "xdr_reader \<Rightarrow> nat" where
  "xr_remaining r = length (xr_buf r) - xr_pos r"

definition rd_return :: "'a \<Rightarrow> 'a rd" where
  "rd_return x r = (Some x, r)"

definition rd_fail :: "'a rd" where
  "rd_fail r = (None, r)"

text \<open>The operator \<^verbatim>\<open>?\<close>.\<close>

definition rd_bind :: "'a rd \<Rightarrow> ('a \<Rightarrow> 'b rd) \<Rightarrow> 'b rd" where
  "rd_bind p f r = (case p r of (None, r') \<Rightarrow> (None, r') | (Some x, r') \<Rightarrow> f x r')"

definition xr_take :: "nat \<Rightarrow> bytes rd" where
  "xr_take n r =
     (if xr_pos r + n > length (xr_buf r) then (None, r)
      else (Some (slice (xr_pos r) (xr_pos r + n) (xr_buf r)), r\<lparr>xr_pos := xr_pos r + n\<rparr>))"

definition xr_u32 :: "u32 rd" where
  "xr_u32 = rd_bind (xr_take 4) (\<lambda>b. rd_return (of_be_bytes b))"

definition xr_u64 :: "u64 rd" where
  "xr_u64 = rd_bind (xr_take 8) (\<lambda>b. rd_return (of_be_bytes b))"

definition xr_bool :: "bool rd" where
  "xr_bool = rd_bind xr_u32 (\<lambda>v. rd_return (v \<noteq> 0))"

definition skip_pad :: "nat \<Rightarrow> bytes \<Rightarrow> bytes rd" where
  "skip_pad len data =
     (let r = len mod 4 in
      if r \<noteq> 0 then rd_bind (xr_take (4 - r)) (\<lambda>_. rd_return data) else rd_return data)"

definition xr_opaque :: "nat \<Rightarrow> bytes rd" where
  "xr_opaque mx = rd_bind xr_u32 (\<lambda>len.
     if unat len > mx then rd_fail
     else rd_bind (xr_take (unat len)) (skip_pad (unat len)))"

definition xr_fixed :: "nat \<Rightarrow> bytes rd" where
  "xr_fixed n = rd_bind (xr_take n) (skip_pad n)"

definition skip_opaque :: "nat \<Rightarrow> unit rd" where
  "skip_opaque mx = rd_bind (xr_opaque mx) (\<lambda>_. rd_return ())"

text \<open>\<^verbatim>\<open>read.unwrap_or(d)\<close>: the value or the default, with the reader after the attempt.\<close>

definition rd_or :: "'a \<Rightarrow> 'a rd \<Rightarrow> xdr_reader \<Rightarrow> 'a \<times> xdr_reader" where
  "rd_or d p r = (case p r of (None, r') \<Rightarrow> (d, r') | (Some x, r') \<Rightarrow> (x, r'))"

section \<open>What is left to read\<close>

definition xr_rest :: "xdr_reader \<Rightarrow> bytes" where
  "xr_rest r = drop (xr_pos r) (xr_buf r)"

definition xr_adv :: "nat \<Rightarrow> xdr_reader \<Rightarrow> xdr_reader" where
  "xr_adv n r = r\<lparr>xr_pos := xr_pos r + n\<rparr>"

lemma xr_rest_new [simp]: "xr_rest (xdr_new b) = b"
  by (simp add: xr_rest_def xdr_new_def)

lemma xr_rest_adv [simp]: "xr_rest (xr_adv n r) = drop n (xr_rest r)"
  by (simp add: xr_rest_def xr_adv_def add.commute)

lemma xr_adv_adv [simp]: "xr_adv m (xr_adv n r) = xr_adv (n + m) r"
  by (simp add: xr_adv_def add.assoc)

lemma xr_adv_0 [simp]: "xr_adv 0 r = r"
  by (simp add: xr_adv_def)

definition xr_ok :: "xdr_reader \<Rightarrow> bool" where
  "xr_ok r \<longleftrightarrow> xr_pos r \<le> length (xr_buf r)"

lemma xr_ok_new [simp]: "xr_ok (xdr_new b)"
  by (simp add: xr_ok_def xdr_new_def)

lemma xr_ok_adv: "xr_ok r \<Longrightarrow> n \<le> length (xr_rest r) \<Longrightarrow> xr_ok (xr_adv n r)"
  by (auto simp: xr_ok_def xr_adv_def xr_rest_def)

lemma xr_take_eq:
  "xr_ok r \<Longrightarrow> xr_take n r =
     (if n \<le> length (xr_rest r) then (Some (take n (xr_rest r)), xr_adv n r) else (None, r))"
  by (auto simp: xr_take_def xr_adv_def xr_rest_def slice_def xr_ok_def)

lemma xr_remaining_rest: "xr_remaining r = length (xr_rest r)"
  by (simp add: xr_remaining_def xr_rest_def)

text \<open>
  A reader never leaves its buffer and never moves back, whatever the bytes are:
  the invariant of every parser built from the primitives.
\<close>

definition rd_safe :: "'a rd \<Rightarrow> bool" where
  "rd_safe p \<longleftrightarrow> (\<forall>r. xr_ok r \<longrightarrow>
     (\<exists>n \<le> length (xr_rest r). snd (p r) = xr_adv n r))"

lemma rd_safeD:
  assumes "rd_safe p" "xr_ok r"
  shows "xr_ok (snd (p r))" "xr_buf (snd (p r)) = xr_buf r" "xr_pos r \<le> xr_pos (snd (p r))"
proof -
  obtain n where n: "n \<le> length (xr_rest r)" "snd (p r) = xr_adv n r"
    using assms by (auto simp: rd_safe_def)
  show "xr_ok (snd (p r))" using xr_ok_adv [OF assms(2) n(1)] n(2) by simp
  show "xr_buf (snd (p r)) = xr_buf r" "xr_pos r \<le> xr_pos (snd (p r))"
    by (simp_all add: n(2) xr_adv_def)
qed

lemma rd_safe_return [intro, simp]: "rd_safe (rd_return x)"
  by (auto simp: rd_safe_def rd_return_def intro: exI [of _ 0])

lemma rd_safe_fail [intro, simp]: "rd_safe rd_fail"
  by (auto simp: rd_safe_def rd_fail_def intro: exI [of _ 0])

lemma rd_safe_take [intro, simp]: "rd_safe (xr_take n)"
  by (auto simp: rd_safe_def xr_take_eq intro: exI [of _ 0])

lemma rd_safe_bind [intro]:
  assumes p: "rd_safe p" and f: "\<And>x. rd_safe (f x)"
  shows "rd_safe (rd_bind p f)"
  unfolding rd_safe_def
proof (intro allI impI)
  fix r assume ok: "xr_ok r"
  obtain n where n: "n \<le> length (xr_rest r)" "snd (p r) = xr_adv n r"
    using p ok by (auto simp: rd_safe_def)
  show "\<exists>n\<le>length (xr_rest r). snd (rd_bind p f r) = xr_adv n r"
  proof (cases "fst (p r)")
    case None
    then show ?thesis using n by (auto simp: rd_bind_def split: prod.splits)
  next
    case (Some x)
    then obtain m where "m \<le> length (xr_rest (xr_adv n r))" "snd (f x (xr_adv n r)) = xr_adv m (xr_adv n r)"
      using f [of x] xr_ok_adv [OF ok n(1)] by (auto simp: rd_safe_def)
    then have "n + m \<le> length (xr_rest r) \<and> snd (rd_bind p f r) = xr_adv (n + m) r"
      using n Some by (cases "p r") (auto simp: rd_bind_def)
    then show ?thesis by blast
  qed
qed

lemma rd_safe_if [intro]: "rd_safe p \<Longrightarrow> rd_safe q \<Longrightarrow> rd_safe (if c then p else q)"
  by simp

lemma rd_safe_skip_pad [intro, simp]: "rd_safe (skip_pad n d)"
  unfolding skip_pad_def Let_def by auto

lemma rd_safe_words [intro, simp]: "rd_safe xr_u32" "rd_safe xr_u64"
  unfolding xr_u32_def xr_u64_def by auto

lemma rd_safe_prims [intro, simp]:
  "rd_safe xr_bool" "rd_safe (xr_opaque mx)" "rd_safe (xr_fixed n)" "rd_safe (skip_opaque mx)"
  unfolding xr_bool_def skip_opaque_def xr_opaque_def xr_fixed_def
  by (intro rd_safe_bind rd_safe_if rd_safe_words rd_safe_take rd_safe_skip_pad rd_safe_fail rd_safe_return)+

section \<open>The contract of a codec\<close>

text \<open>\<open>reads p bs x\<close>: where \<open>bs\<close> comes next, \<open>p\<close> returns \<open>x\<close> and moves just past \<open>bs\<close>.\<close>

definition reads :: "'a rd \<Rightarrow> bytes \<Rightarrow> 'a \<Rightarrow> bool" where
  "reads p bs x \<longleftrightarrow> (\<forall>r t. xr_ok r \<longrightarrow> xr_rest r = bs @ t \<longrightarrow> p r = (Some x, xr_adv (length bs) r))"

lemma readsD: "reads p bs x \<Longrightarrow> xr_ok r \<Longrightarrow> xr_rest r = bs @ t \<Longrightarrow> p r = (Some x, xr_adv (length bs) r)"
  by (simp add: reads_def)

lemma reads_return [intro]: "reads (rd_return x) [] x"
  by (simp add: reads_def rd_return_def)

lemma reads_take: "length bs = n \<Longrightarrow> reads (xr_take n) bs bs"
  by (auto simp: reads_def xr_take_eq)

lemma reads_bind:
  assumes "reads p bs x" "reads (f x) bs' y"
  shows "reads (rd_bind p f) (bs @ bs') y"
  unfolding reads_def
proof (intro allI impI)
  fix r t assume ok: "xr_ok r" and r: "xr_rest r = (bs @ bs') @ t"
  have "p r = (Some x, xr_adv (length bs) r)" using readsD [OF assms(1) ok, of "bs' @ t"] r by simp
  moreover have "f x (xr_adv (length bs) r) = (Some y, xr_adv (length bs') (xr_adv (length bs) r))"
    using readsD [OF assms(2), of "xr_adv (length bs) r" t] xr_ok_adv [OF ok, of "length bs"] r by simp
  ultimately show "rd_bind p f r = (Some y, xr_adv (length (bs @ bs')) r)"
    by (simp add: rd_bind_def)
qed

lemma reads_map: "reads p bs x \<Longrightarrow> reads (rd_bind p (\<lambda>x. rd_return (g x))) bs (g x)"
  using reads_bind [of p bs x "\<lambda>x. rd_return (g x)" "[]" "g x"] by auto

lemma reads_skip_pad: "reads (skip_pad n d) (if n mod 4 = 0 then [] else replicate (4 - n mod 4) 0) d"
  using reads_map [OF reads_take [of "replicate (4 - n mod 4) 0" "4 - n mod 4"], of "\<lambda>_. d"]
  by (auto simp: skip_pad_def Let_def)

locale wire_codec =
  fixes ok :: "'a \<Rightarrow> bool" and enc :: "'a \<Rightarrow> bytes" and dec :: "'a rd"
  assumes dec_enc: "ok x \<Longrightarrow> reads dec (enc x) x"
    and enc_aligned: "ok x \<Longrightarrow> length (enc x) mod 4 = 0"
    and dec_safe: "rd_safe dec"
begin

lemma dec_next:
  "ok x \<Longrightarrow> xr_ok r \<Longrightarrow> xr_rest r = enc x @ t \<Longrightarrow> dec r = (Some x, xr_adv (length (enc x)) r)"
  using dec_enc [of x] by (auto simp: reads_def)

lemma round_trip: "ok x \<Longrightarrow> dec (xdr_new (enc x @ t)) = (Some x, xr_adv (length (enc x)) (xdr_new (enc x @ t)))"
  by (rule dec_next) simp_all

lemma prefix_free:
  assumes "ok x" "ok y" "enc x @ s = enc y @ t"
  shows "x = y \<and> s = t"
proof -
  have "Some x = Some y" using round_trip [OF assms(1), of s] round_trip [OF assms(2), of t] assms(3) by simp
  then show ?thesis using assms(3) by simp
qed

end

section \<open>The primitives satisfy it\<close>

definition opaque_bytes :: "bytes \<Rightarrow> bytes" where
  "opaque_bytes d = w_opaque d []"

lemma w_opaque_append: "w_opaque d w = w @ opaque_bytes d"
  by (simp add: opaque_bytes_def w_opaque_def w_pad_def w_u32_def Let_def)

lemma pad_len: "(n + (if n mod 4 = 0 then 0 else 4 - n mod 4)) mod 4 = (0 :: nat)"
  by presburger

lemma length_opaque_bytes: "length (opaque_bytes d) = 4 + length d + (if length d mod 4 = 0 then 0 else 4 - length d mod 4)"
  by (simp add: opaque_bytes_def w_opaque_def w_pad_def w_u32_def Let_def)

lemma reads_u32: "reads xr_u32 (be_bytes 4 v) v"
  using reads_map [OF reads_take [of "be_bytes 4 v" 4], of "of_be_bytes :: bytes \<Rightarrow> u32"]
  by (simp add: xr_u32_def wire_simps)

lemma reads_u64: "reads xr_u64 (be_bytes 8 v) v"
  using reads_map [OF reads_take [of "be_bytes 8 v" 8], of "of_be_bytes :: bytes \<Rightarrow> u64"]
  by (simp add: xr_u64_def wire_simps)

lemma reads_bool: "reads xr_bool (be_bytes 4 (if b then 1 else 0 :: u32)) b"
  using reads_map [OF reads_u32 [of "if b then 1 else 0"], of "\<lambda>v. v \<noteq> 0"]
  by (auto simp: xr_bool_def split: if_splits)

lemma reads_opaque:
  assumes "length d \<le> mx" "length d < 2 ^ 32"
  shows "reads (xr_opaque mx) (opaque_bytes d) d"
proof -
  let ?pad = "if length d mod 4 = 0 then [] else replicate (4 - length d mod 4) (0 :: u8)"
  have n: "unat (of_nat (length d) :: u32) = length d" using assms(2) by (simp add: unat_of_nat_small)
  have "reads (rd_bind (xr_take (length d)) (skip_pad (length d))) (d @ ?pad) d"
    by (intro reads_bind [OF reads_take] reads_skip_pad) simp
  then have "reads (xr_opaque mx) (be_bytes 4 (of_nat (length d) :: u32) @ d @ ?pad) d"
    unfolding xr_opaque_def using assms(1) by (intro reads_bind [OF reads_u32]) (simp add: n)
  moreover have "opaque_bytes d = be_bytes 4 (of_nat (length d) :: u32) @ d @ ?pad"
    by (simp add: opaque_bytes_def w_opaque_def w_pad_def w_u32_def Let_def)
  ultimately show ?thesis by simp
qed

interpretation u32_codec: wire_codec "\<lambda>_. True" "be_bytes 4" xr_u32
  by unfold_locales (simp_all add: reads_u32)

interpretation u64_codec: wire_codec "\<lambda>_. True" "be_bytes 8" xr_u64
  by unfold_locales (simp_all add: reads_u64)

interpretation bool_codec: wire_codec "\<lambda>_. True" "\<lambda>b. be_bytes 4 (if b then 1 else 0 :: u32)" xr_bool
  by unfold_locales (simp_all add: reads_bool)

interpretation opaque_codec: wire_codec "\<lambda>d. length d \<le> mx \<and> length d < 2 ^ 32" opaque_bytes "xr_opaque mx"
  by unfold_locales (simp_all add: reads_opaque length_opaque_bytes pad_len add.assoc)

end
