(* ===== verification/Rpc.thy ===== *)
theory Rpc
  imports Xdr "HOL-Library.Sublist"
begin

text \<open>
  The ONC-RPC layer of the NFS front end: call headers and reply headers
  (\<^verbatim>\<open>crates/mist-nfs/src/rpc.rs\<close>), record marking on a byte stream and the writing of replies
  through partial socket writes (\<^verbatim>\<open>server.rs\<close>), and the authenticated file handles
  (\<^verbatim>\<open>handle.rs\<close>). The keyed hash is a parameter of the handle codec; the socket is a
  sequence of accepted byte counts.
\<close>

unbundle bit_operations_syntax

section \<open>Call and reply headers\<close>

definition RPC_VERSION :: u32 where "RPC_VERSION = 2"
definition MSG_TYPE_CALL :: u32 where "MSG_TYPE_CALL = 0"
definition MSG_TYPE_REPLY :: u32 where "MSG_TYPE_REPLY = 1"
definition REPLY_ACCEPTED :: u32 where "REPLY_ACCEPTED = 0"
definition ACCEPT_SUCCESS :: u32 where "ACCEPT_SUCCESS = 0"
definition ACCEPT_PROG_UNAVAIL :: u32 where "ACCEPT_PROG_UNAVAIL = 1"
definition ACCEPT_PROG_MISMATCH :: u32 where "ACCEPT_PROG_MISMATCH = 2"
definition AUTH_NONE :: u32 where "AUTH_NONE = 0"
definition AUTH_SYS :: u32 where "AUTH_SYS = 1"

lemmas rpc_consts = RPC_VERSION_def MSG_TYPE_CALL_def MSG_TYPE_REPLY_def REPLY_ACCEPTED_def
  ACCEPT_SUCCESS_def ACCEPT_PROG_UNAVAIL_def ACCEPT_PROG_MISMATCH_def AUTH_NONE_def AUTH_SYS_def

record rpc_call =
  rc_xid :: u32
  rc_program :: u32
  rc_version :: u32
  rc_procedure :: u32
  rc_uid :: u32
  rc_gid :: u32

datatype rpc_decode_error = RdXdr | RdNotCall | RdBadVersion u32

definition read_auth :: "(u32 \<times> u32) rd" where
  "read_auth = rd_bind xr_u32 (\<lambda>flavor. rd_bind (xr_opaque 1024) (\<lambda>body.
     if flavor = AUTH_SYS then
       (\<lambda>r. (fst (rd_bind xr_u32 (\<lambda>_. rd_bind (xr_opaque 255) (\<lambda>_.
               rd_bind xr_u32 (\<lambda>uid. rd_bind xr_u32 (\<lambda>gid. rd_return (uid, gid)))))
               (xdr_new body)), r))
     else rd_return (0, 0)))"

text \<open>\<^verbatim>\<open>read?\<close> where the error becomes \<^verbatim>\<open>RpcDecodeError::Xdr\<close>.\<close>

definition rpc_try ::
    "'a option \<times> xdr_reader \<Rightarrow> ('a \<Rightarrow> xdr_reader \<Rightarrow> rpc_decode_error + 'b) \<Rightarrow> rpc_decode_error + 'b" where
  "rpc_try x k = (case x of (None, _) \<Rightarrow> Err RdXdr | (Some v, r) \<Rightarrow> k v r)"

definition parse_call_from :: "xdr_reader \<Rightarrow> rpc_decode_error + rpc_call \<times> xdr_reader" where
  "parse_call_from = (\<lambda>r.
     rpc_try (xr_u32 r) (\<lambda>xid r.
     rpc_try (xr_u32 r) (\<lambda>msg_type r.
     if msg_type \<noteq> MSG_TYPE_CALL then Err RdNotCall
     else rpc_try (xr_u32 r) (\<lambda>rpcvers r.
     if rpcvers \<noteq> RPC_VERSION then Err (RdBadVersion rpcvers)
     else rpc_try (xr_u32 r) (\<lambda>program r.
     rpc_try (xr_u32 r) (\<lambda>version r.
     rpc_try (xr_u32 r) (\<lambda>procedure r.
     rpc_try (read_auth r) (\<lambda>(uid, gid) r.
     rpc_try (xr_u32 r) (\<lambda>_ r.
     rpc_try (skip_opaque 1024 r) (\<lambda>_ r.
     Ok (\<lparr>rc_xid = xid, rc_program = program, rc_version = version, rc_procedure = procedure,
          rc_uid = uid, rc_gid = gid\<rparr>, r)))))))))))"

definition parse_call :: "bytes \<Rightarrow> rpc_decode_error + rpc_call \<times> xdr_reader" where
  "parse_call buf = parse_call_from (xdr_new buf)"

definition reply_accepted :: "u32 \<Rightarrow> u32 \<Rightarrow> xdr_writer" where
  "reply_accepted xid accept_status =
     emit [w_u32 xid, w_u32 MSG_TYPE_REPLY, w_u32 REPLY_ACCEPTED,
           w_u32 AUTH_NONE, w_opaque [], w_u32 accept_status] []"

definition reply_prog_mismatch :: "u32 \<Rightarrow> u32 \<Rightarrow> u32 \<Rightarrow> xdr_writer" where
  "reply_prog_mismatch xid low high =
     emit [w_u32 low, w_u32 high] (reply_accepted xid ACCEPT_PROG_MISMATCH)"

section \<open>Record marking\<close>

definition MAX_RECORD :: nat where "MAX_RECORD = 2 * 1024 * 1024"

datatype io_error = IoUnexpectedEof | IoInvalidData string | IoWriteZero | IoOther

text \<open>
  One record from the bytes a connection delivers until it ends: the error, or \<open>None\<close> at the
  end, or the record and the bytes after it.
\<close>

function read_record_loop :: "bytes \<Rightarrow> bytes \<Rightarrow> io_error + (bytes \<times> bytes) option" where
  "read_record_loop record s =
     (if length s < 4 then (if record = [] then Ok None else Err IoUnexpectedEof)
      else
        let marker = of_be_bytes (take 4 s) :: u32;
            last = marker AND 0x80000000 \<noteq> 0;
            len = unat (marker AND 0x7FFFFFFF);
            s = drop 4 s
        in if length record + len > MAX_RECORD then Err (IoInvalidData ''rpc record exceeds cap'')
           else if length s < len then Err IoUnexpectedEof
           else
             let record = record @ take len s;
                 s = drop len s
             in if last then Ok (Some (record, s)) else read_record_loop record s)"
  by pat_completeness auto

termination read_record_loop
  by (relation "measure (length \<circ> snd)") auto

declare read_record_loop.simps [simp del]

definition read_record :: "bytes \<Rightarrow> io_error + (bytes \<times> bytes) option" where
  "read_record s = read_record_loop [] s"

section \<open>Writing replies\<close>

definition record_marker :: "nat \<Rightarrow> bytes" where
  "record_marker n = be_bytes 4 (0x80000000 OR (of_nat n AND 0x7FFFFFFF) :: u32)"

text \<open>
  \<^verbatim>\<open>write_marked\<close> against a socket that accepts, write by write, at most the counts of the list
  (\<open>None\<close>: the list is used up and the task still waits). The result carries the bytes on the wire.
\<close>

primrec write_marked ::
    "bytes \<Rightarrow> bytes \<Rightarrow> nat \<Rightarrow> nat list \<Rightarrow> bytes \<Rightarrow> (io_error + unit) option \<times> bytes \<times> nat list" where
  "write_marked marker payload done [] out =
     (if done < 4 + length payload then (None, out, []) else (Some (Ok ()), out, []))"
| "write_marked marker payload done (k # ks) out =
     (if done < 4 + length payload then
        let offered = (if done < 4 then drop done marker @ payload else drop (done - 4) payload);
            n = min k (length offered)
        in if n = 0 then (Some (Err IoWriteZero), out, ks)
           else write_marked marker payload (done + n) ks (out @ take n offered)
      else (Some (Ok ()), out, k # ks))"

text \<open>
  The steps of \<^verbatim>\<open>sendfile(2)\<close>: bytes sent with success, bytes sent with \<^verbatim>\<open>EAGAIN\<close> or \<^verbatim>\<open>EINTR\<close>,
  or another error. The kernel sends at most what is asked for and what the file still has.
\<close>

datatype sf_step = SfOk nat | SfAgain nat | SfFail

primrec sendfile_all ::
    "bytes \<Rightarrow> nat \<Rightarrow> nat \<Rightarrow> sf_step list \<Rightarrow> bytes \<Rightarrow> (io_error + unit) option \<times> bytes \<times> sf_step list" where
  "sendfile_all file off remaining [] out =
     (if remaining > 0 then (None, out, []) else (Some (Ok ()), out, []))"
| "sendfile_all file off remaining (st # sts) out =
     (if remaining > 0 then
        (case st of
           SfFail \<Rightarrow> (Some (Err IoOther), out, sts)
         | SfAgain k \<Rightarrow>
             let sent = min k (min remaining (length file - off))
             in sendfile_all file (off + sent) (remaining - sent) sts (out @ slice off (off + sent) file)
         | SfOk k \<Rightarrow>
             let sent = min k (min remaining (length file - off));
                 remaining' = remaining - sent;
                 out' = out @ slice off (off + sent) file
             in if sent = 0 \<and> remaining' > 0 then (Some (Err IoUnexpectedEof), out', sts)
                else sendfile_all file (off + sent) remaining' sts out')
      else (Some (Ok ()), out, st # sts))"

record sendable_read =
  sr_file :: bytes
  sr_off :: u64
  sr_len :: u32
  sr_eof :: bool

datatype reply = Whole bytes | HeadAndFile bytes sendable_read nat

text \<open>
  \<^verbatim>\<open>write_reply\<close>: the shared write half is locked for the whole reply, so the bytes of one reply
  are contiguous. The padding of at most three bytes is one \<^verbatim>\<open>write_all\<close>.
\<close>

definition io_then ::
    "(io_error + unit) option \<times> bytes \<times> 'k \<Rightarrow> (bytes \<Rightarrow> (io_error + unit) option \<times> bytes) \<Rightarrow>
      (io_error + unit) option \<times> bytes" where
  "io_then x k = (let (res, out, _) = x in if res = Some (Ok ()) then k out else (res, out))"

fun write_reply :: "reply \<Rightarrow> nat list \<Rightarrow> sf_step list \<Rightarrow> bytes \<Rightarrow> (io_error + unit) option \<times> bytes" where
  "write_reply (Whole payload) ks sts out =
     (if payload = [] then (Some (Ok ()), out)
      else io_then (write_marked (record_marker (length payload)) payload 0 ks out) (\<lambda>out.
        (Some (Ok ()), out)))"
| "write_reply (HeadAndFile head body pad) ks sts out =
     io_then (write_marked (record_marker (length head + unat (sr_len body) + pad)) head 0 ks out) (\<lambda>out.
     io_then (sendfile_all (sr_file body) (unat (sr_off body)) (unat (sr_len body)) sts out) (\<lambda>out.
       (Some (Ok ()), if pad > 0 then out @ replicate pad 0 else out)))"

section \<open>File handles\<close>

definition MAGIC :: bytes where "MAGIC = [77, 83, 84, 49]"
definition HANDLE_LEN :: nat where "HANDLE_LEN = 4 + 2 + 2 + 8 + 4 + 8"

text \<open>\<open>km\<close> is the keyed hash of the codec's key, truncated to its first eight bytes.\<close>

type_synonym handle_codec = "bytes \<Rightarrow> u64"

definition handle_body :: "u16 \<Rightarrow> u16 \<Rightarrow> node_key \<Rightarrow> bytes" where
  "handle_body share flags node =
     MAGIC @ be_bytes 2 share @ be_bytes 2 flags @ be_bytes 8 (ino node) @ be_bytes 4 (generation node)"

definition handle_mac :: "handle_codec \<Rightarrow> u16 \<Rightarrow> u16 \<Rightarrow> node_key \<Rightarrow> u64" where
  "handle_mac km share flags node = km (handle_body share flags node)"

definition handle_encode :: "handle_codec \<Rightarrow> u16 \<Rightarrow> node_key \<Rightarrow> bytes" where
  "handle_encode km share node =
     (let flags = 0 in handle_body share flags node @ be_bytes 8 (handle_mac km share flags node))"

definition handle_decode :: "handle_codec \<Rightarrow> bytes \<Rightarrow> (u16 \<times> node_key) option" where
  "handle_decode km fh =
     (if length fh \<noteq> HANDLE_LEN \<or> slice 0 4 fh \<noteq> MAGIC then None
      else
        let share = of_be_bytes (slice 4 6 fh);
            flags = of_be_bytes (slice 6 8 fh);
            node = \<lparr>ino = of_be_bytes (slice 8 16 fh), generation = of_be_bytes (slice 16 20 fh)\<rparr>;
            mac = of_be_bytes (slice 20 28 fh)
        in if mac \<noteq> handle_mac km share flags node then None else Some (share, node))"

section \<open>Record marking, both ways\<close>

lemma marker_bits:
  fixes w :: u32
  assumes "unat w < 2 ^ 31"
  shows "w AND 0x7FFFFFFF = w"
    and "w AND 0x80000000 = 0"
    and "(0x80000000 OR (w AND 0x7FFFFFFF)) AND 0x80000000 \<noteq> 0"
    and "(0x80000000 OR (w AND 0x7FFFFFFF)) AND 0x7FFFFFFF = w"
proof -
  have mask: "(0x7FFFFFFF :: u32) = mask 31" by (simp add: mask_eq_exp_minus_1)
  have "take_bit 31 w = w"
    using assms by (simp add: word_unat_eq_iff unsigned_take_bit_eq take_bit_nat_eq_self)
  then show w: "w AND 0x7FFFFFFF = w" by (simp only: mask take_bit_eq_mask)
  have "w AND 0x80000000 = (w AND 0x7FFFFFFF) AND 0x80000000" by (simp only: w)
  then show "w AND 0x80000000 = 0" by (simp only: and.assoc) simp
  show "(0x80000000 OR (w AND 0x7FFFFFFF)) AND 0x80000000 \<noteq> 0"
    by (simp only: bit.conj_disj_distrib2 and.assoc) simp
  show "(0x80000000 OR (w AND 0x7FFFFFFF)) AND 0x7FFFFFFF = w"
    by (simp only: bit.conj_disj_distrib2 and.assoc) (simp add: w)
qed

text \<open>A fragment that is not the last one, and a record sent as several fragments.\<close>

definition fragment_marker :: "nat \<Rightarrow> bytes" where
  "fragment_marker n = be_bytes 4 (of_nat n :: u32)"

primrec fragments :: "bytes list \<Rightarrow> bytes \<Rightarrow> bytes" where
  "fragments [] lst = record_marker (length lst) @ lst"
| "fragments (f # fs) lst = fragment_marker (length f) @ f @ fragments fs lst"

lemma read_last_fragment:
  assumes "length record + length f \<le> MAX_RECORD"
  shows "read_record_loop record (record_marker (length f) @ f @ t) = Ok (Some (record @ f, t))"
proof -
  have "length f < 2 ^ 31" using assms by (simp add: MAX_RECORD_def)
  then have n: "unat (of_nat (length f) :: u32) = length f" by (simp add: unat_of_nat_small)
  note b = marker_bits(3,4) [of "of_nat (length f)"]
  show ?thesis
    using assms \<open>length f < 2 ^ 31\<close>
    by (subst read_record_loop.simps) (simp add: record_marker_def Let_def wire_simps b n)
qed

lemma read_fragment:
  assumes "length record + length f \<le> MAX_RECORD"
  shows "read_record_loop record (fragment_marker (length f) @ f @ t) = read_record_loop (record @ f) t"
proof -
  have "length f < 2 ^ 31" using assms by (simp add: MAX_RECORD_def)
  then have n: "unat (of_nat (length f) :: u32) = length f" by (simp add: unat_of_nat_small)
  note b = marker_bits(1,2) [of "of_nat (length f)"]
  show ?thesis
    using assms \<open>length f < 2 ^ 31\<close>
    by (subst read_record_loop.simps) (simp add: fragment_marker_def Let_def wire_simps b n)
qed

lemma read_fragments:
  assumes "length record + length (concat fs) + length lst \<le> MAX_RECORD"
  shows "read_record_loop record (fragments fs lst @ t) = Ok (Some (record @ concat fs @ lst, t))"
  using assms
proof (induction fs arbitrary: "record")
  case Nil
  then show ?case by (simp add: read_last_fragment)
next
  case (Cons f fs)
  then show ?case by (simp add: read_fragment)
qed

lemma read_record_loop_bound:
  "length record \<le> MAX_RECORD \<Longrightarrow> read_record_loop record s = Ok (Some (b, t)) \<Longrightarrow>
    length b \<le> MAX_RECORD \<and> length t < length s"
proof (induction "record" s arbitrary: b t rule: read_record_loop.induct)
  case (1 "record" s)
  let ?m = "of_be_bytes (take 4 s) :: u32"
  let ?len = "unat (?m AND 0x7FFFFFFF)"
  have s: "4 \<le> length s" "length record + ?len \<le> MAX_RECORD" "?len \<le> length (drop 4 s)"
    using "1.prems"(2) by (subst (asm) read_record_loop.simps; simp add: Let_def split: if_splits)+
  show ?case
  proof (cases "?m AND 0x80000000 \<noteq> 0")
    case True
    then show ?thesis using "1.prems"(2) s
      by (subst (asm) read_record_loop.simps) (auto simp: Let_def)
  next
    case False
    then have "read_record_loop (record @ take ?len (drop 4 s)) (drop ?len (drop 4 s)) = Ok (Some (b, t))"
      using "1.prems"(2) s by (subst (asm) read_record_loop.simps) (simp add: Let_def)
    from "1.IH" [OF _ refl refl refl refl _ _ refl refl _ _ this] False s show ?thesis by auto
  qed
qed

section \<open>Partial writes\<close>

lemma write_marked_offered:
  "length marker = 4 \<Longrightarrow>
    (if done < 4 then drop done marker @ payload else drop (done - 4) payload) = drop done (marker @ payload)"
  by simp

lemma write_marked_step:
  assumes "length marker = 4" "done < 4 + length payload" "0 < k" "n = min k (4 + length payload - done)"
  shows "write_marked marker payload done (k # ks) out =
    write_marked marker payload (done + n) ks (out @ take n (drop done (marker @ payload)))"
proof -
  have "length (drop done (marker @ payload)) = 4 + length payload - done" using assms(1) by simp
  moreover have "n \<noteq> 0" using assms(2-4) by simp
  ultimately show ?thesis
    using assms(2) unfolding write_marked.simps write_marked_offered [OF assms(1)] Let_def
    by (simp only: assms(4) [symmetric] if_True if_False)
qed

lemma write_marked_zero:
  "done < 4 + length payload \<Longrightarrow> write_marked marker payload done (0 # ks) out = (Some (Err IoWriteZero), out, ks)"
  by (simp add: Let_def)

lemma write_marked_prefix:
  assumes "length marker = 4" "done \<le> 4 + length payload"
    and "write_marked marker payload done ks (base @ take done (marker @ payload)) = (res, out, ks')"
  shows "prefix out (base @ marker @ payload)"
    and "res = Some (Ok ()) \<Longrightarrow> out = base @ marker @ payload"
proof -
  have "prefix out (base @ marker @ payload) \<and> (res = Some (Ok ()) \<longrightarrow> out = base @ marker @ payload)"
    using assms(2,3)
  proof (induction ks arbitrary: "done")
    case Nil
    then show ?case using assms(1) by (auto simp: take_is_prefix simp del: take_append split: if_splits)
  next
    case (Cons k ks)
    show ?case
    proof (cases "done < 4 + length payload \<and> 0 < k")
      case True
      define n where "n = min k (4 + length payload - done)"
      have "(base @ take done (marker @ payload)) @ take n (drop done (marker @ payload)) =
          base @ take (done + n) (marker @ payload)"
        by (simp add: take_add del: take_append drop_append)
      moreover have "done + n \<le> 4 + length payload" using True unfolding n_def by arith
      ultimately show ?thesis
        using Cons.IH [of "done + n"] Cons.prems(2) write_marked_step [OF assms(1) _ _ n_def] True by simp
    next
      case False
      then show ?thesis
        using Cons.prems assms(1) by (auto simp: take_is_prefix simp del: take_append split: if_splits)
    qed
  qed
  then show "prefix out (base @ marker @ payload)" "res = Some (Ok ()) \<Longrightarrow> out = base @ marker @ payload" by auto
qed

lemma write_marked_completes:
  assumes "length marker = 4" "done \<le> 4 + length payload"
    "\<forall>k \<in> set ks. 0 < k" "4 + length payload - done \<le> length ks"
  shows "fst (write_marked marker payload done ks out) = Some (Ok ())"
  using assms(2-)
proof (induction ks arbitrary: "done" out)
  case Nil
  then show ?case by simp
next
  case (Cons k ks)
  show ?case
  proof (cases "done < 4 + length payload")
    case True
    define n where "n = min k (4 + length payload - done)"
    have "0 < k" "0 < n" "done + n \<le> 4 + length payload" using Cons.prems(2) True unfolding n_def by auto
    moreover have "4 + length payload - (done + n) \<le> length ks" using Cons.prems(3) \<open>0 < n\<close> by simp
    ultimately show ?thesis
      using Cons.IH [of "done + n"] Cons.prems(2) write_marked_step [OF assms(1) True \<open>0 < k\<close> n_def] by simp
  next
    case False
    then show ?thesis by simp
  qed
qed

lemma sendfile_all_prefix:
  assumes "sendfile_all file off n sts (base @ x) = (res, out, sts')" "off + n \<le> length file"
  shows "prefix out (base @ x @ slice off (off + n) file)"
    and "res = Some (Ok ()) \<Longrightarrow> out = base @ x @ slice off (off + n) file"
proof -
  have step: "slice off (off + m) file @ slice (off + m) (off + n) file = slice off (off + n) file" if "m \<le> n" for m off n
    using that by (simp add: slice_def) (metis add.commute drop_drop le_add_diff_inverse take_add)
  have "prefix out (base @ x @ slice off (off + n) file)
      \<and> (res = Some (Ok ()) \<longrightarrow> out = base @ x @ slice off (off + n) file)"
    using assms
  proof (induction sts arbitrary: off n x)
    case Nil
    then show ?case by (auto simp: slice_def split: if_splits)
  next
    case (Cons st sts)
    show ?case
    proof (cases "0 < n")
      case False
      then show ?thesis using Cons.prems by (auto simp: slice_def)
    next
      case n: True
      have go: ?thesis if "sendfile_all file (off + m) (n - m) sts (base @ x @ slice off (off + m) file) = (res, out, sts')" "m \<le> n" for m
      proof -
        have "off + m + (n - m) = off + n" using that(2) by simp
        then show ?thesis using Cons.IH [OF that(1)] Cons.prems(2) step [OF that(2), of off] by simp
      qed
      show ?thesis
      proof (cases st)
        case SfFail
        then show ?thesis using Cons.prems n by auto
      next
        case (SfAgain k)
        then show ?thesis using Cons.prems n go [of "min k n"] by (simp add: Let_def)
      next
        case (SfOk k)
        then show ?thesis using Cons.prems n go [of "min k n"]
          by (auto simp: Let_def slice_def split: if_splits)
      qed
    qed
  qed
  then show "prefix out (base @ x @ slice off (off + n) file)"
    "res = Some (Ok ()) \<Longrightarrow> out = base @ x @ slice off (off + n) file" by auto
qed

section \<open>Handles and call headers\<close>

lemma length_handle_body [simp]: "length (handle_body share flags node) = 20"
  by (simp add: handle_body_def MAGIC_def)

lemma handle_decode_iff:
  "handle_decode km fh = Some (share, node) \<longleftrightarrow>
    (\<exists>flags. fh = handle_body share flags node @ be_bytes 8 (handle_mac km share flags node))"
proof
  assume d: "handle_decode km fh = Some (share, node)"
  define flags where "flags = (of_be_bytes (slice 6 8 fh) :: u16)"
  have l: "length fh = 28" "slice 0 4 fh = MAGIC"
    and v: "share = of_be_bytes (slice 4 6 fh)" "ino node = of_be_bytes (slice 8 16 fh)"
      "generation node = of_be_bytes (slice 16 20 fh)"
      "handle_mac km share flags node = of_be_bytes (slice 20 28 fh)"
    using d by (auto simp: handle_decode_def HANDLE_LEN_def flags_def Let_def split: if_splits)
  have "be_bytes 2 share = slice 4 6 fh" "be_bytes 2 flags = slice 6 8 fh" "be_bytes 8 (ino node) = slice 8 16 fh"
    "be_bytes 4 (generation node) = slice 16 20 fh"
    unfolding v(1-3) flags_def using l(1) by (simp_all add: of_be_bytes_cong_width)
  moreover have "be_bytes 8 (handle_mac km share flags node) = slice 20 28 fh"
    unfolding v(4) using l(1) by (simp add: of_be_bytes_cong_width)
  ultimately have "handle_body share flags node @ be_bytes 8 (handle_mac km share flags node) =
      slice 0 4 fh @ slice 4 6 fh @ slice 6 8 fh @ slice 8 16 fh @ slice 16 20 fh @ slice 20 28 fh"
    by (simp add: handle_body_def l(2))
  also have "\<dots> = fh"
    using l(1) by (intro nth_equalityI) (auto simp: slice_def nth_append)
  finally show "\<exists>flags. fh = handle_body share flags node @ be_bytes 8 (handle_mac km share flags node)" by metis
next
  assume "\<exists>flags. fh = handle_body share flags node @ be_bytes 8 (handle_mac km share flags node)"
  then show "handle_decode km fh = Some (share, node)"
    by (cases node) (auto simp: handle_decode_def handle_body_def HANDLE_LEN_def MAGIC_def Let_def slice_def wire_simps)
qed

text \<open>The calls to \<open>rpc_try\<close> compose: \<open>parses m bs y\<close> says that \<open>m\<close> turns \<open>bs\<close> into \<open>y\<close>.\<close>

definition parses :: "(xdr_reader \<Rightarrow> 'e + 'a \<times> xdr_reader) \<Rightarrow> bytes \<Rightarrow> 'a \<Rightarrow> bool" where
  "parses m bs y \<longleftrightarrow> (\<forall>r t. xr_ok r \<longrightarrow> xr_rest r = bs @ t \<longrightarrow>
     (\<exists>r'. m r = Ok (y, r') \<and> xr_ok r' \<and> xr_rest r' = t))"

lemma parses_try:
  assumes "reads p bs x" "parses (k x) bs' y"
  shows "parses (\<lambda>r. rpc_try (p r) k) (bs @ bs') y"
  unfolding parses_def
proof (intro allI impI)
  fix r t assume r: "xr_ok r" "xr_rest r = (bs @ bs') @ t"
  have "p r = (Some x, xr_adv (length bs) r)" using readsD [OF assms(1) r(1), of "bs' @ t"] r(2) by simp
  then show "\<exists>r'. rpc_try (p r) k = Ok (y, r') \<and> xr_ok r' \<and> xr_rest r' = t"
    using assms(2) xr_ok_adv [OF r(1), of "length bs"] r(2) by (simp add: rpc_try_def parses_def)
qed

lemma parses_return: "parses (\<lambda>r. Ok (y, r)) [] y"
  by (simp add: parses_def)

lemma parses_guard: "\<not> c \<Longrightarrow> parses m bs y \<Longrightarrow> parses (\<lambda>r. if c then e else m r) bs y"
  by simp

definition cred_bytes :: "u32 \<Rightarrow> bytes \<Rightarrow> u32 \<Rightarrow> u32 \<Rightarrow> bytes \<Rightarrow> bytes" where
  "cred_bytes stamp machine uid gid gids =
     be_bytes 4 stamp @ opaque_bytes machine @ be_bytes 4 uid @ be_bytes 4 gid @ gids"

lemma reads_auth_sys:
  assumes "length (cred_bytes stamp machine uid gid gids) \<le> 1024" "length machine \<le> 255"
  shows "reads read_auth (be_bytes 4 AUTH_SYS @ opaque_bytes (cred_bytes stamp machine uid gid gids)) (uid, gid)"
proof -
  let ?c = "cred_bytes stamp machine uid gid gids"
  let ?p = "rd_bind xr_u32 (\<lambda>_. rd_bind (xr_opaque 255) (\<lambda>_.
               rd_bind xr_u32 (\<lambda>uid. rd_bind xr_u32 (\<lambda>gid. rd_return (uid, gid)))))"
  have "reads ?p (be_bytes 4 stamp @ opaque_bytes machine @ be_bytes 4 uid @ be_bytes 4 gid @ []) (uid, gid)"
    using assms(2) by (intro reads_bind [OF reads_u32] reads_bind [OF reads_opaque] reads_return) simp_all
  then have "fst (?p (xdr_new ?c)) = Some (uid, gid)"
    using readsD [of ?p _ "(uid, gid)" "xdr_new ?c" gids] by (simp add: cred_bytes_def)
  then have "reads (\<lambda>r. (fst (?p (xdr_new ?c)), r)) [] (uid, gid)" by (simp add: reads_def)
  then have "reads read_auth (be_bytes 4 AUTH_SYS @ opaque_bytes ?c @ []) (uid, gid)"
    unfolding read_auth_def
    by (intro reads_bind [OF reads_u32] reads_bind [OF reads_opaque]) (use assms(1) in simp_all)
  then show ?thesis by simp
qed

lemma reads_skip_opaque: "length d \<le> mx \<Longrightarrow> length d < 2 ^ 32 \<Longrightarrow> reads (skip_opaque mx) (opaque_bytes d) ()"
  unfolding skip_opaque_def by (rule reads_map [OF reads_opaque, where g = "\<lambda>_. ()"])

definition call_bytes :: "rpc_call \<Rightarrow> bytes \<Rightarrow> u32 \<Rightarrow> bytes \<Rightarrow> bytes" where
  "call_bytes c cred vflavor verf =
     be_bytes 4 (rc_xid c) @ be_bytes 4 MSG_TYPE_CALL @ be_bytes 4 RPC_VERSION @ be_bytes 4 (rc_program c) @
     be_bytes 4 (rc_version c) @ be_bytes 4 (rc_procedure c) @ be_bytes 4 AUTH_SYS @ opaque_bytes cred @
     be_bytes 4 vflavor @ opaque_bytes verf"

lemma parse_call_ok:
  assumes "cred = cred_bytes stamp machine (rc_uid c) (rc_gid c) gids" "length cred \<le> 1024" "length machine \<le> 255"
    "length verf \<le> 1024"
  shows "\<exists>r. parse_call (call_bytes c cred vflavor verf @ args) = Ok (c, r) \<and> xr_rest r = args \<and> xr_ok r"
proof -
  note auth = reads_auth_sys [OF assms(2) [unfolded assms(1)] assms(3)]
  have "parses parse_call_from (call_bytes c cred vflavor verf @ []) c"
    unfolding parse_call_from_def call_bytes_def append_assoc
    apply (rule parses_try [OF reads_u32])
    apply (rule parses_try [OF reads_u32])
    apply (rule parses_guard, simp)
    apply (rule parses_try [OF reads_u32])
    apply (rule parses_guard, simp)
    apply (rule parses_try [OF reads_u32])+
    apply (subst append_assoc [symmetric])
    apply (rule parses_try [OF auth [folded assms(1)]])
    unfolding prod.case
    apply (rule parses_try [OF reads_u32])
    apply (rule parses_try [OF reads_skip_opaque])
    using assms(4) apply simp_all
    using parses_return [of c] by (cases c) simp
  then show ?thesis
    unfolding parses_def parse_call_def
    by (elim allE [of _ "xdr_new (call_bytes c cred vflavor verf @ args)"] allE [of _ args]) auto
qed

section \<open>Properties of the RPC layer\<close>

text \<open>
  Records are reassembled: however a record of at most 2 MiB is cut into fragments, reading
  yields the record and leaves the stream just behind it; and no record that reading yields,
  whatever the bytes are, is longer than the cap.
\<close>

theorem rpc_record_fragments:
  "(length (concat fs) + length lst \<le> MAX_RECORD \<longrightarrow>
      read_record (fragments fs lst @ t) = Ok (Some (concat fs @ lst, t)))
   \<and> (read_record s = Ok (Some (b, t')) \<longrightarrow> length b \<le> MAX_RECORD \<and> length t' < length s)"
  using read_fragments [of "[]" fs lst t] read_record_loop_bound [of "[]" s b t']
  by (simp add: read_record_def)

theorem rpc_record_fragments_witness:
  "read_record [0, 0, 0, 2, 7, 8, 128, 0, 0, 1, 9, 5] = Ok (Some ([7, 8, 9], [5]))"
proof -
  have "length (concat [[7, 8 :: u8]]) + length [9 :: u8] \<le> MAX_RECORD" by (simp add: MAX_RECORD_def)
  then have "read_record (fragments [[7, 8]] [9] @ [5]) = Ok (Some ([7, 8, 9], [5]))"
    using rpc_record_fragments [of "[[7, 8]]" "[9]" "[5]"] by (simp del: fragments.simps)
  moreover have "fragments [[7, 8]] [9] @ [5] = [0, 0, 0, 2, 7, 8, 128, 0, 0, 1, 9, 5]"
    by (simp add: fragment_marker_def record_marker_def be_bytes_def le_of_nat_numeral)
  ultimately show ?thesis by (simp only:)
qed

text \<open>
  C31. Replies survive partial writes: over a socket that accepts at least one byte per write, a
  reply is written completely, and the peer reads exactly its payload as one record.
\<close>

theorem reply_delivered:
  assumes "payload \<noteq> []" "length payload \<le> MAX_RECORD"
    and "\<forall>k \<in> set ks. 0 < k" "4 + length payload \<le> length ks"
  shows "\<exists>out. write_reply (Whole payload) ks sts [] = (Some (Ok ()), out)
    \<and> read_record (out @ t) = Ok (Some (payload, t))"
proof -
  let ?m = "record_marker (length payload)"
  have m: "length ?m = 4" by (simp add: record_marker_def)
  obtain res out ks' where w: "write_marked ?m payload 0 ks [] = (res, out, ks')" by (cases "write_marked ?m payload 0 ks []")
  have "res = Some (Ok ())" using write_marked_completes [OF m _ assms(3), of 0 payload "[]"] assms(4) w by simp
  moreover have "out = ?m @ payload"
    using write_marked_prefix(2) [OF m, of 0 payload ks "[]"] w \<open>res = Some (Ok ())\<close> by simp
  ultimately show ?thesis
    using w assms(1,2) read_last_fragment [of "[]" payload t] by (simp add: io_then_def read_record_def)
qed

theorem reply_delivered_witness:
  "\<exists>out. write_reply (Whole [1, 2, 3]) (replicate 7 2) [] [] = (Some (Ok ()), out)
    \<and> read_record (out @ [9]) = Ok (Some ([1, 2, 3], [9]))"
  by (rule reply_delivered) (simp_all add: MAX_RECORD_def)

text \<open>
  C32. The zero-copy path is invisible: when a reply that splices a file range is written to the
  end, the bytes on the wire are those of the reply rendered in memory.
\<close>

theorem sendfile_reply_same:
  assumes "write_reply (HeadAndFile head body pad) ks sts out = (Some (Ok ()), w)"
    and "unat (sr_off body) + unat (sr_len body) \<le> length (sr_file body)"
    and "payload = head @ slice (unat (sr_off body)) (unat (sr_off body) + unat (sr_len body)) (sr_file body) @ replicate pad 0"
    and "payload \<noteq> []" "write_reply (Whole payload) ks' sts' out = (Some (Ok ()), w')"
  shows "w = w'"
proof -
  let ?f = "slice (unat (sr_off body)) (unat (sr_off body) + unat (sr_len body)) (sr_file body)"
  let ?m = "record_marker (length head + unat (sr_len body) + pad)"
  have m: "length ?m = 4" "length (record_marker (length payload)) = 4" by (simp_all add: record_marker_def)
  have len: "length payload = length head + unat (sr_len body) + pad" using assms(2,3) by simp
  obtain r1 o1 k1 where w1: "write_marked ?m head 0 ks out = (r1, o1, k1)" by (cases "write_marked ?m head 0 ks out")
  obtain r2 o2 k2 where w2: "sendfile_all (sr_file body) (unat (sr_off body)) (unat (sr_len body)) sts o1 = (r2, o2, k2)"
    by (cases "sendfile_all (sr_file body) (unat (sr_off body)) (unat (sr_len body)) sts o1")
  have ok: "r1 = Some (Ok ())" "r2 = Some (Ok ())" and w: "w = o2 @ replicate pad 0"
    using assms(1) w1 w2 by (auto simp: io_then_def split: if_splits)
  have "o1 = out @ ?m @ head" using write_marked_prefix(2) [OF m(1), of 0 head ks out] w1 ok(1) by simp
  moreover have "o2 = o1 @ ?f" using sendfile_all_prefix(2) [of _ _ _ _ o1 "[]"] w2 ok(2) assms(2) by simp
  ultimately have "w = out @ record_marker (length payload) @ payload" using w unfolding len by (simp add: assms(3))
  moreover have "w' = out @ record_marker (length payload) @ payload"
    using assms(4,5) write_marked_prefix(2) [OF m(2), of 0 payload ks' out]
    by (cases "write_marked (record_marker (length payload)) payload 0 ks' out") (auto simp: io_then_def split: if_splits)
  ultimately show ?thesis by simp
qed

theorem sendfile_reply_same_witness:
  "snd (write_reply (HeadAndFile [1, 2] \<lparr>sr_file = [5, 6, 7, 8], sr_off = 1, sr_len = 2, sr_eof = False\<rparr> 1)
     [3, 9] [SfAgain 1, SfOk 9] []) = snd (write_reply (Whole [1, 2, 6, 7, 0]) [100] [] [])"
proof -
  let ?b = "\<lparr>sr_file = [5, 6, 7, 8], sr_off = 1, sr_len = 2, sr_eof = False\<rparr>"
  have a: "fst (write_reply (HeadAndFile [1, 2] ?b 1) [3, 9] [SfAgain 1, SfOk 9] []) = Some (Ok ())"
    "fst (write_reply (Whole [1, 2, 6, 7, 0]) [100] [] []) = Some (Ok ())"
    by (simp_all add: io_then_def record_marker_def Let_def)
  show ?thesis
    by (rule sendfile_reply_same [where head = "[1, 2]" and body = ?b and pad = 1 and ks = "[3, 9]"
          and sts = "[SfAgain 1, SfOk 9]" and out = "[]" and payload = "[1, 2, 6, 7, 0]" and ks' = "[100]" and sts' = "[]"])
      (use a in \<open>simp_all add: prod_eq_iff slice_def\<close>)
qed




end
