(* ===== verification/Nfs_Surface.thy ===== *)
theory Nfs_Surface
  imports Rpc
begin

text \<open>
  The seam between the NFS front end and the core (\<^verbatim>\<open>crates/mist-nfs/src/surface.rs\<close>): the error
  codes, the data that crosses the seam, and the trait \<^verbatim>\<open>MountSurface\<close> as a record of operations
  over a state. Operations that await the guest return the state after them; metadata reads
  do not change it. The defaults of the trait are \<open>read_only_surface\<close>.
\<close>

type_synonym i32 = "32 word"

datatype nfs_error =
  NeNoEnt | NeNotDir | NeIsDir | NeNotSymlink | NeStale | NeAccess | NeIo | NeJukebox
| NeNameTooLong | NeNotEmpty | NeExist | NeNoSpace | NeRofs

definition from_errno :: "i32 \<Rightarrow> nfs_error" where
  "from_errno errno =
     (if errno = 2 then NeNoEnt
      else if errno = 13 \<or> errno = 1 then NeAccess
      else if errno = 17 then NeExist
      else if errno = 20 then NeNotDir
      else if errno = 21 then NeIsDir
      else if errno = 28 then NeNoSpace
      else if errno = 30 then NeRofs
      else if errno = 36 then NeNameTooLong
      else if errno = 39 then NeNotEmpty
      else if errno = 116 then NeStale
      else NeIo)"

record dir_entry =
  de_name :: bytes
  de_node :: node_key
  de_cookie :: u64
  de_attr :: "attr option"

record nfs_dir_page =
  np_entries :: "dir_entry list"
  np_eof :: bool
  np_cookieverf :: u64

record read_result =
  rr_data :: bytes
  rr_eof :: bool

record fs_stat =
  total_bytes :: u64
  free_bytes :: u64
  avail_bytes :: u64
  total_files :: u64
  free_files :: u64

definition fs_stat_default :: fs_stat where
  "fs_stat_default = \<lparr>total_bytes = push_bit 50 1, free_bytes = push_bit 49 1,
     avail_bytes = push_bit 49 1, total_files = push_bit 30 1, free_files = push_bit 29 1\<rparr>"

datatype create_kind =
  CkFile bool | CkDir | CkSymlink bytes | CkFifo | CkSocket | CkDevice bool u32 u32

record set_attr_req =
  sa_mode :: "u16 option"
  sa_uid :: "u32 option"
  sa_gid :: "u32 option"
  sa_size :: "u64 option"
  sa_mtime :: "ts option"

type_synonym 'a nfs_result = "nfs_error + 'a"

record 's surface =
  sf_share_id :: "'s \<Rightarrow> u16"
  sf_root :: "'s \<Rightarrow> node_key"
  sf_getattr :: "'s \<Rightarrow> node_key \<Rightarrow> attr nfs_result"
  sf_lookup :: "'s \<Rightarrow> node_key \<Rightarrow> bytes \<Rightarrow> (node_key \<times> attr) nfs_result"
  sf_readdir :: "'s \<Rightarrow> node_key \<Rightarrow> u64 \<Rightarrow> nat \<Rightarrow> bool \<Rightarrow> nfs_dir_page nfs_result"
  sf_readlink :: "'s \<Rightarrow> node_key \<Rightarrow> bytes nfs_result"
  sf_parent :: "'s \<Rightarrow> node_key \<Rightarrow> node_key nfs_result"
  sf_read :: "'s \<Rightarrow> node_key \<Rightarrow> u64 \<Rightarrow> u32 \<Rightarrow> read_result nfs_result \<times> 's"
  sf_read_sendable :: "'s \<Rightarrow> node_key \<Rightarrow> u64 \<Rightarrow> u32 \<Rightarrow> sendable_read option \<times> 's"
  sf_fsstat :: "'s \<Rightarrow> fs_stat"
  sf_writable :: "'s \<Rightarrow> bool"
  sf_create :: "'s \<Rightarrow> node_key \<Rightarrow> bytes \<Rightarrow> create_kind \<Rightarrow> u16 \<Rightarrow> (node_key \<times> attr) nfs_result \<times> 's"
  sf_remove :: "'s \<Rightarrow> node_key \<Rightarrow> bytes \<Rightarrow> bool \<Rightarrow> unit nfs_result \<times> 's"
  sf_rename :: "'s \<Rightarrow> node_key \<Rightarrow> bytes \<Rightarrow> node_key \<Rightarrow> bytes \<Rightarrow> unit nfs_result \<times> 's"
  sf_setattr :: "'s \<Rightarrow> node_key \<Rightarrow> set_attr_req \<Rightarrow> attr nfs_result \<times> 's"
  sf_write :: "'s \<Rightarrow> node_key \<Rightarrow> u64 \<Rightarrow> bytes \<Rightarrow> bool \<Rightarrow> attr nfs_result \<times> 's"
  sf_writes_are_stable :: "'s \<Rightarrow> bool"
  sf_touch_dir :: "'s \<Rightarrow> node_key \<Rightarrow> 's"
  sf_commit :: "'s \<Rightarrow> node_key \<Rightarrow> u64 \<Rightarrow> u64 \<Rightarrow> attr nfs_result \<times> 's"

text \<open>The trait with its default methods, given the required ones.\<close>

definition read_only_surface ::
    "('s \<Rightarrow> u16) \<Rightarrow> ('s \<Rightarrow> node_key) \<Rightarrow> ('s \<Rightarrow> node_key \<Rightarrow> attr nfs_result) \<Rightarrow>
     ('s \<Rightarrow> node_key \<Rightarrow> bytes \<Rightarrow> (node_key \<times> attr) nfs_result) \<Rightarrow>
     ('s \<Rightarrow> node_key \<Rightarrow> u64 \<Rightarrow> nat \<Rightarrow> bool \<Rightarrow> nfs_dir_page nfs_result) \<Rightarrow>
     ('s \<Rightarrow> node_key \<Rightarrow> bytes nfs_result) \<Rightarrow>
     ('s \<Rightarrow> node_key \<Rightarrow> u64 \<Rightarrow> u32 \<Rightarrow> read_result nfs_result \<times> 's) \<Rightarrow> ('s \<Rightarrow> fs_stat) \<Rightarrow> 's surface" where
  "read_only_surface share_id root getattr lookup readdir readlink read fsstat =
     \<lparr>sf_share_id = share_id, sf_root = root, sf_getattr = getattr, sf_lookup = lookup,
      sf_readdir = readdir, sf_readlink = readlink, sf_parent = (\<lambda>_ _. Err NeNoEnt),
      sf_read = read, sf_read_sendable = (\<lambda>s _ _ _. (None, s)), sf_fsstat = fsstat,
      sf_writable = (\<lambda>_. False), sf_create = (\<lambda>s _ _ _ _. (Err NeRofs, s)),
      sf_remove = (\<lambda>s _ _ _. (Err NeRofs, s)), sf_rename = (\<lambda>s _ _ _ _. (Err NeRofs, s)),
      sf_setattr = (\<lambda>s _ _. (Err NeRofs, s)), sf_write = (\<lambda>s _ _ _ _. (Err NeRofs, s)),
      sf_writes_are_stable = (\<lambda>_. False), sf_touch_dir = (\<lambda>s _. s),
      sf_commit = (\<lambda>s _ _ _. (Err NeRofs, s))\<rparr>"

text \<open>
  What the front end relies on: a page is within its limit and carries names of at most 255
  bytes, which ascend in cookie order behind the cookie asked for; a name that resolves
  resolves to a node whose attributes can be read.
\<close>

locale mount_surface =
  fixes S :: "'s surface" and inv :: "'s \<Rightarrow> bool"
  assumes page_len: "inv s \<Longrightarrow> sf_readdir S s dir cookie m wa = Ok p \<Longrightarrow> length (np_entries p) \<le> m"
    and page_names: "inv s \<Longrightarrow> sf_readdir S s dir cookie m wa = Ok p \<Longrightarrow> e \<in> set (np_entries p) \<Longrightarrow>
      length (de_name e) \<le> 255"
    and page_cookies: "inv s \<Longrightarrow> sf_readdir S s dir cookie m wa = Ok p \<Longrightarrow>
      sorted_wrt (<) (cookie # map de_cookie (np_entries p))"
    and lookup_getattr: "inv s \<Longrightarrow> sf_lookup S s dir nm = Ok (node, a) \<Longrightarrow> sf_getattr S s node = Ok a"

end
