(* ===== verification/Nfs3.thy ===== *)
theory Nfs3
  imports Nfs_Surface
begin

text \<open>
  The NFSv3 procedures (\<^verbatim>\<open>crates/mist-nfs/src/nfs3.rs\<close>) and the MOUNT program
  (\<^verbatim>\<open>mount3.rs\<close>) over a mount surface, and the dispatch of one record (\<^verbatim>\<open>handle_record\<close> of
  \<^verbatim>\<open>server.rs\<close>). Every procedure takes the state of the surface, the reader at the arguments
  and the writer holding the reply header, and returns the reply with the state after it.
\<close>

unbundle bit_operations_syntax

section \<open>Constants\<close>

definition NFS_PROGRAM :: u32 where "NFS_PROGRAM = 100003"
definition NFS_VERSION :: u32 where "NFS_VERSION = 3"
definition PROC_NULL :: u32 where "PROC_NULL = 0"
definition PROC_GETATTR :: u32 where "PROC_GETATTR = 1"
definition PROC_SETATTR :: u32 where "PROC_SETATTR = 2"
definition PROC_LOOKUP :: u32 where "PROC_LOOKUP = 3"
definition PROC_ACCESS :: u32 where "PROC_ACCESS = 4"
definition PROC_READLINK :: u32 where "PROC_READLINK = 5"
definition PROC_READ :: u32 where "PROC_READ = 6"
definition PROC_WRITE :: u32 where "PROC_WRITE = 7"
definition PROC_CREATE :: u32 where "PROC_CREATE = 8"
definition PROC_MKDIR :: u32 where "PROC_MKDIR = 9"
definition PROC_SYMLINK :: u32 where "PROC_SYMLINK = 10"
definition PROC_MKNOD :: u32 where "PROC_MKNOD = 11"
definition PROC_REMOVE :: u32 where "PROC_REMOVE = 12"
definition PROC_RMDIR :: u32 where "PROC_RMDIR = 13"
definition PROC_RENAME :: u32 where "PROC_RENAME = 14"
definition PROC_LINK :: u32 where "PROC_LINK = 15"
definition PROC_READDIR :: u32 where "PROC_READDIR = 16"
definition PROC_READDIRPLUS :: u32 where "PROC_READDIRPLUS = 17"
definition PROC_FSSTAT :: u32 where "PROC_FSSTAT = 18"
definition PROC_FSINFO :: u32 where "PROC_FSINFO = 19"
definition PROC_PATHCONF :: u32 where "PROC_PATHCONF = 20"
definition PROC_COMMIT :: u32 where "PROC_COMMIT = 21"
definition NFS3_OK :: u32 where "NFS3_OK = 0"
definition NFS3ERR_NOENT :: u32 where "NFS3ERR_NOENT = 2"
definition NFS3ERR_IO :: u32 where "NFS3ERR_IO = 5"
definition NFS3ERR_ACCES :: u32 where "NFS3ERR_ACCES = 13"
definition NFS3ERR_EXIST :: u32 where "NFS3ERR_EXIST = 17"
definition NFS3ERR_NOTDIR :: u32 where "NFS3ERR_NOTDIR = 20"
definition NFS3ERR_ISDIR :: u32 where "NFS3ERR_ISDIR = 21"
definition NFS3ERR_INVAL :: u32 where "NFS3ERR_INVAL = 22"
definition NFS3ERR_NOSPC :: u32 where "NFS3ERR_NOSPC = 28"
definition NFS3ERR_ROFS :: u32 where "NFS3ERR_ROFS = 30"
definition NFS3ERR_NAMETOOLONG :: u32 where "NFS3ERR_NAMETOOLONG = 63"
definition NFS3ERR_NOTEMPTY :: u32 where "NFS3ERR_NOTEMPTY = 66"
definition NFS3ERR_STALE :: u32 where "NFS3ERR_STALE = 70"
definition NFS3ERR_NOTSUPP :: u32 where "NFS3ERR_NOTSUPP = 10004"
definition NFS3ERR_JUKEBOX :: u32 where "NFS3ERR_JUKEBOX = 10008"
definition MAX_READ :: u32 where "MAX_READ = 1024 * 1024"
definition MAX_WRITE :: u32 where "MAX_WRITE = 1024 * 1024"
definition FSF_LINK :: u32 where "FSF_LINK = 0x1"
definition FSF_SYMLINK :: u32 where "FSF_SYMLINK = 0x2"
definition FSF_HOMOGENEOUS :: u32 where "FSF_HOMOGENEOUS = 0x8"
definition FSF_CANSETTIME :: u32 where "FSF_CANSETTIME = 0x10"
definition WRITE_VERF :: bytes where "WRITE_VERF = [77, 73, 83, 84, 45, 119, 118, 49]"

lemmas nfs3_consts = NFS_PROGRAM_def NFS_VERSION_def PROC_NULL_def PROC_GETATTR_def PROC_SETATTR_def
  PROC_LOOKUP_def PROC_ACCESS_def PROC_READLINK_def PROC_READ_def PROC_WRITE_def PROC_CREATE_def
  PROC_MKDIR_def PROC_SYMLINK_def PROC_MKNOD_def PROC_REMOVE_def PROC_RMDIR_def PROC_RENAME_def
  PROC_LINK_def PROC_READDIR_def PROC_READDIRPLUS_def PROC_FSSTAT_def PROC_FSINFO_def
  PROC_PATHCONF_def PROC_COMMIT_def NFS3_OK_def NFS3ERR_NOENT_def NFS3ERR_IO_def NFS3ERR_ACCES_def
  NFS3ERR_EXIST_def NFS3ERR_NOTDIR_def NFS3ERR_ISDIR_def NFS3ERR_INVAL_def NFS3ERR_NOSPC_def
  NFS3ERR_ROFS_def NFS3ERR_NAMETOOLONG_def NFS3ERR_NOTEMPTY_def NFS3ERR_STALE_def
  NFS3ERR_NOTSUPP_def NFS3ERR_JUKEBOX_def MAX_READ_def MAX_WRITE_def FSF_LINK_def FSF_SYMLINK_def
  FSF_HOMOGENEOUS_def FSF_CANSETTIME_def WRITE_VERF_def

section \<open>Status, attributes and arguments\<close>

fun nfsstat_of :: "nfs_error \<Rightarrow> u32" where
  "nfsstat_of NeNoEnt = NFS3ERR_NOENT"
| "nfsstat_of NeNotDir = NFS3ERR_NOTDIR"
| "nfsstat_of NeIsDir = NFS3ERR_ISDIR"
| "nfsstat_of NeNotSymlink = NFS3ERR_INVAL"
| "nfsstat_of NeStale = NFS3ERR_STALE"
| "nfsstat_of NeAccess = NFS3ERR_ACCES"
| "nfsstat_of NeIo = NFS3ERR_IO"
| "nfsstat_of NeJukebox = NFS3ERR_JUKEBOX"
| "nfsstat_of NeNameTooLong = NFS3ERR_NAMETOOLONG"
| "nfsstat_of NeNotEmpty = NFS3ERR_NOTEMPTY"
| "nfsstat_of NeExist = NFS3ERR_EXIST"
| "nfsstat_of NeNoSpace = NFS3ERR_NOSPC"
| "nfsstat_of NeRofs = NFS3ERR_ROFS"

fun ftype3 :: "kind \<Rightarrow> u32" where
  "ftype3 Reg = 1"
| "ftype3 Dir = 2"
| "ftype3 Symlink = 5"
| "ftype3 Blk = 3"
| "ftype3 Chr = 4"
| "ftype3 Sock = 6"
| "ftype3 Fifo = 7"

definition write_time :: "ts \<Rightarrow> xdr_writer \<Rightarrow> xdr_writer" where
  "write_time t = emit [w_u32 (ucast (sec t)), w_u32 (nsec t)]"

definition write_fattr3 :: "u16 \<Rightarrow> node_key \<Rightarrow> attr \<Rightarrow> xdr_writer \<Rightarrow> xdr_writer" where
  "write_fattr3 share node a = emit
     [w_u32 (ftype3 (attr_kind a)), w_u32 (ucast (attr_mode a)), w_u32 (attr_nlink a),
      w_u32 (attr_uid a), w_u32 (attr_gid a), w_u64 (attr_size a), w_u64 (attr_blocks a * 512),
      w_u32 (ucast (drop_bit 32 (attr_rdev a))), w_u32 (ucast (attr_rdev a)),
      w_u64 (ucast share), w_u64 (ino node),
      write_time (attr_mtime a), write_time (attr_mtime a), write_time (attr_ctime a)]"

definition write_post_op_attr :: "u16 \<Rightarrow> node_key \<Rightarrow> attr option \<Rightarrow> xdr_writer \<Rightarrow> xdr_writer" where
  "write_post_op_attr share node ao = emit (case ao of
     Some a \<Rightarrow> [w_bool True, write_fattr3 share node a] | None \<Rightarrow> [w_bool False])"

definition write_post_op_fh :: "handle_codec \<Rightarrow> u16 \<Rightarrow> node_key \<Rightarrow> xdr_writer \<Rightarrow> xdr_writer" where
  "write_post_op_fh km share node = emit [w_bool True, w_opaque (handle_encode km share node)]"

definition write_wcc_data :: "u16 \<Rightarrow> node_key \<Rightarrow> attr option \<Rightarrow> xdr_writer \<Rightarrow> xdr_writer" where
  "write_wcc_data share node post = emit [w_bool False, write_post_op_attr share node post]"

definition read_fh :: "handle_codec \<Rightarrow> (u16 \<times> node_key) rd" where
  "read_fh km r = (case xr_opaque 64 r of
     (None, r) \<Rightarrow> (None, r) | (Some fh, r) \<Rightarrow> (handle_decode km fh, r))"

definition read_name :: "bytes rd" where
  "read_name = rd_bind (xr_opaque 4096) (\<lambda>n. if length n > 255 then rd_fail else rd_return n)"

text \<open>\<^verbatim>\<open>result.ok()\<close>, and a value read only when its discriminant is set.\<close>

definition ok_of :: "'e + 'a \<Rightarrow> 'a option" where
  "ok_of x = (case x of Ok a \<Rightarrow> Some a | Err _ \<Rightarrow> None)"

definition rd_when :: "('a \<Rightarrow> 'b) \<Rightarrow> 'a rd \<Rightarrow> xdr_reader \<Rightarrow> 'b option \<times> xdr_reader" where
  "rd_when f p r =
     (case rd_or False xr_bool r of
        (True, r) \<Rightarrow> (case p r of (x, r) \<Rightarrow> (map_option f x, r))
      | (False, r) \<Rightarrow> (None, r))"

definition parse_sattr3 :: "xdr_reader \<Rightarrow> set_attr_req \<times> xdr_reader" where
  "parse_sattr3 r =
     (let (mode, r) = rd_when ucast xr_u32 r;
          (uid, r) = rd_when id xr_u32 r;
          (gid, r) = rd_when id xr_u32 r;
          (sz, r) = rd_when id xr_u64 r;
          (how, r) = rd_or 0 xr_u32 r;
          r = (if how = 2 then snd (xr_fixed 8 r) else r);
          (how, r) = rd_or 0 xr_u32 r;
          (mtime, r) =
            (if how = 2 then
               let (s, r) = rd_or 0 xr_u32 r;
                   (ns, r) = rd_or 0 xr_u32 r
               in (Some \<lparr>sec = ucast s, nsec = ns\<rparr>, r)
             else (None, r))
      in (\<lparr>sa_mode = mode, sa_uid = uid, sa_gid = gid, sa_size = sz, sa_mtime = mtime\<rparr>, r))"

definition access_bits :: "attr \<Rightarrow> u32 \<Rightarrow> bool \<Rightarrow> u32" where
  "access_bits a requested writable =
     (let g = 0;
          g = (if attr_mode a AND 0x100 \<noteq> 0
               then (let g = g OR 0x0001 in if attr_kind a = Dir then g OR 0x0002 else g) else g);
          g = (if attr_mode a AND 0x40 \<noteq> 0 \<and> attr_kind a \<noteq> Dir then g OR 0x0020 else g);
          g = (if attr_kind a = Dir then g OR 0x0002 else g);
          g = (if writable then g OR (0x0004 OR 0x0008 OR 0x0010) else g)
      in g AND requested)"

section \<open>Reading procedures\<close>

definition nfs3_getattr :: "'s surface \<Rightarrow> handle_codec \<Rightarrow> 's \<Rightarrow> xdr_reader \<Rightarrow> xdr_writer \<Rightarrow> xdr_writer \<times> 's" where
  "nfs3_getattr S km s args w =
     (case read_fh km args of
        (None, _) \<Rightarrow> (w_u32 NFS3ERR_STALE w, s)
      | (Some (_, node), _) \<Rightarrow>
          (case sf_getattr S s node of
             Ok a \<Rightarrow> (emit [w_u32 NFS3_OK, write_fattr3 (sf_share_id S s) node a] w, s)
           | Err e \<Rightarrow> (w_u32 (nfsstat_of e) w, s)))"

definition nfs3_lookup :: "'s surface \<Rightarrow> handle_codec \<Rightarrow> 's \<Rightarrow> xdr_reader \<Rightarrow> xdr_writer \<Rightarrow> xdr_writer \<times> 's" where
  "nfs3_lookup S km s args w =
     (let share = sf_share_id S s in
      case read_fh km args of
        (None, _) \<Rightarrow> (w_u32 NFS3ERR_STALE w, s)
      | (Some (_, dir), args) \<Rightarrow>
          (case read_name args of
             (None, _) \<Rightarrow> (emit [w_u32 NFS3ERR_NAMETOOLONG, write_post_op_attr share dir (ok_of (sf_getattr S s dir))] w, s)
           | (Some nm, _) \<Rightarrow>
               let dir_attr = ok_of (sf_getattr S s dir) in
               case sf_lookup S s dir nm of
                 Ok (node, a) \<Rightarrow>
                   (emit [w_u32 NFS3_OK, w_opaque (handle_encode km share node),
                          write_post_op_attr share node (Some a), write_post_op_attr share dir dir_attr] w, s)
               | Err e \<Rightarrow> (emit [w_u32 (nfsstat_of e), write_post_op_attr share dir dir_attr] w, s)))"

definition nfs3_access :: "'s surface \<Rightarrow> handle_codec \<Rightarrow> 's \<Rightarrow> xdr_reader \<Rightarrow> xdr_writer \<Rightarrow> xdr_writer \<times> 's" where
  "nfs3_access S km s args w =
     (case read_fh km args of
        (None, _) \<Rightarrow> (w_u32 NFS3ERR_STALE w, s)
      | (Some (_, node), args) \<Rightarrow>
          let (requested, _) = rd_or 0 xr_u32 args in
          case sf_getattr S s node of
            Ok a \<Rightarrow> (emit [w_u32 NFS3_OK, write_post_op_attr (sf_share_id S s) node (Some a),
                            w_u32 (access_bits a requested (sf_writable S s))] w, s)
          | Err e \<Rightarrow> (emit [w_u32 (nfsstat_of e), w_bool False] w, s))"

definition nfs3_readlink :: "'s surface \<Rightarrow> handle_codec \<Rightarrow> 's \<Rightarrow> xdr_reader \<Rightarrow> xdr_writer \<Rightarrow> xdr_writer \<times> 's" where
  "nfs3_readlink S km s args w =
     (let share = sf_share_id S s in
      case read_fh km args of
        (None, _) \<Rightarrow> (w_u32 NFS3ERR_STALE w, s)
      | (Some (_, node), _) \<Rightarrow>
          let at = ok_of (sf_getattr S s node) in
          case sf_readlink S s node of
            Ok target \<Rightarrow> (emit [w_u32 NFS3_OK, write_post_op_attr share node at, w_opaque target] w, s)
          | Err e \<Rightarrow> (emit [w_u32 (nfsstat_of e), write_post_op_attr share node at] w, s))"

definition nfs3_read :: "'s surface \<Rightarrow> handle_codec \<Rightarrow> 's \<Rightarrow> xdr_reader \<Rightarrow> xdr_writer \<Rightarrow> xdr_writer \<times> 's" where
  "nfs3_read S km s args w =
     (let share = sf_share_id S s in
      case read_fh km args of
        (None, _) \<Rightarrow> (w_u32 NFS3ERR_STALE w, s)
      | (Some (_, node), args) \<Rightarrow>
          let (offset, args) = rd_or 0 xr_u64 args;
              (count, _) = rd_or 0 xr_u32 args;
              count = min count MAX_READ;
              pre_attr = ok_of (sf_getattr S s node)
          in case sf_read S s node offset count of
            (Ok res, s) \<Rightarrow>
              (emit [w_u32 NFS3_OK, write_post_op_attr share node pre_attr,
                     w_u32 (of_nat (length (rr_data res))), w_bool (rr_eof res), w_opaque (rr_data res)] w, s)
          | (Err e, s) \<Rightarrow> (emit [w_u32 (nfsstat_of e), write_post_op_attr share node pre_attr] w, s))"

text \<open>The entries of a page: the flag tells whether all of them fit the budget.\<close>

primrec readdir_entries ::
    "handle_codec \<Rightarrow> u16 \<Rightarrow> bool \<Rightarrow> nat \<Rightarrow> nat \<Rightarrow> dir_entry list \<Rightarrow> xdr_writer \<Rightarrow> bool \<times> xdr_writer" where
  "readdir_entries km share wa per_entry budget [] w = (True, w)"
| "readdir_entries km share wa per_entry budget (e # es) w =
     (if length w + per_entry + length (de_name e) > budget then (False, w)
      else readdir_entries km share wa per_entry budget es
        (emit ([w_bool True, w_u64 (ino (de_node e)), w_opaque (de_name e), w_u64 (de_cookie e)] @
               (if wa then [write_post_op_attr share (de_node e) (de_attr e),
                            write_post_op_fh km share (de_node e)] else [])) w))"

definition readdir_args :: "bool \<Rightarrow> xdr_reader \<Rightarrow> u64 \<times> u32" where
  "readdir_args wa args =
     (let (cookie, args) = rd_or 0 xr_u64 args;
          (_, args) = rd_or [] (xr_fixed 8) args;
          (maxcount, _) =
            (if wa then (let (_, args) = rd_or 8192 xr_u32 args in rd_or 32768 xr_u32 args)
             else rd_or 8192 xr_u32 args)
      in (cookie, maxcount))"

definition nfs3_readdir ::
    "'s surface \<Rightarrow> handle_codec \<Rightarrow> bool \<Rightarrow> 's \<Rightarrow> xdr_reader \<Rightarrow> xdr_writer \<Rightarrow> xdr_writer \<times> 's" where
  "nfs3_readdir S km wa s args w =
     (let share = sf_share_id S s in
      case read_fh km args of
        (None, _) \<Rightarrow> (w_u32 NFS3ERR_STALE w, s)
      | (Some (_, dir), args) \<Rightarrow>
          let (cookie, maxcount) = readdir_args wa args;
              dir_attr = ok_of (sf_getattr S s dir);
              per_entry = (if wa then 160 else 40);
              max_entries = min 4096 (max 1 ((unat maxcount - 128) div per_entry))
          in case sf_readdir S s dir cookie max_entries wa of
               Err e \<Rightarrow> (emit [w_u32 (nfsstat_of e), write_post_op_attr share dir dir_attr] w, s)
             | Ok page \<Rightarrow>
                 let w = emit [w_u32 NFS3_OK, write_post_op_attr share dir dir_attr,
                               w_fixed (be_bytes 8 (np_cookieverf page))] w;
                     (whole, w) = readdir_entries km share wa per_entry (unat maxcount) (np_entries page) w
                 in (emit [w_bool False, w_bool (if whole then np_eof page else False)] w, s))"

definition nfs3_fsstat :: "'s surface \<Rightarrow> 's \<Rightarrow> xdr_writer \<Rightarrow> xdr_writer \<times> 's" where
  "nfs3_fsstat S s w =
     (let st = sf_fsstat S s in
      (emit [w_u32 NFS3_OK, w_bool False, w_u64 (total_bytes st), w_u64 (free_bytes st),
             w_u64 (avail_bytes st), w_u64 (total_files st), w_u64 (free_files st),
             w_u64 (free_files st), w_u32 0] w, s))"

definition nfs3_fsinfo :: "'s \<Rightarrow> xdr_writer \<Rightarrow> xdr_writer \<times> 's" where
  "nfs3_fsinfo s w =
     (emit [w_u32 NFS3_OK, w_bool False, w_u32 MAX_READ, w_u32 MAX_READ, w_u32 4096,
            w_u32 MAX_WRITE, w_u32 MAX_WRITE, w_u32 4096, w_u32 MAX_READ, w_u64 (- 1),
            write_time \<lparr>sec = 0, nsec = 1\<rparr>,
            w_u32 (FSF_LINK OR FSF_SYMLINK OR FSF_HOMOGENEOUS OR FSF_CANSETTIME)] w, s)"

definition nfs3_pathconf :: "'s \<Rightarrow> xdr_writer \<Rightarrow> xdr_writer \<times> 's" where
  "nfs3_pathconf s w =
     (emit [w_u32 NFS3_OK, w_bool False, w_u32 32000, w_u32 255, w_bool True, w_bool False,
            w_bool False, w_bool True] w, s)"

section \<open>Mutating procedures\<close>

definition nfs3_setattr :: "'s surface \<Rightarrow> handle_codec \<Rightarrow> 's \<Rightarrow> xdr_reader \<Rightarrow> xdr_writer \<Rightarrow> xdr_writer \<times> 's" where
  "nfs3_setattr S km s args w =
     (let share = sf_share_id S s in
      case read_fh km args of
        (None, _) \<Rightarrow> (w_u32 NFS3ERR_STALE w, s)
      | (Some (_, node), args) \<Rightarrow>
          let (set, args) = parse_sattr3 args;
              (guard, args) = rd_or False xr_bool args;
              args = (if guard then snd (xr_fixed 8 args) else args)
          in case sf_setattr S s node set of
            (Ok a, s) \<Rightarrow> (emit [w_u32 NFS3_OK, write_wcc_data share node (Some a)] w, s)
          | (Err e, s) \<Rightarrow>
              (emit [w_u32 (nfsstat_of e), write_wcc_data share node (ok_of (sf_getattr S s node))] w, s))"

definition nfs3_write :: "'s surface \<Rightarrow> handle_codec \<Rightarrow> 's \<Rightarrow> xdr_reader \<Rightarrow> xdr_writer \<Rightarrow> xdr_writer \<times> 's" where
  "nfs3_write S km s args w =
     (let share = sf_share_id S s in
      case read_fh km args of
        (None, _) \<Rightarrow> (w_u32 NFS3ERR_STALE w, s)
      | (Some (_, node), args) \<Rightarrow>
          let (offset, args) = rd_or 0 xr_u64 args;
              (_, args) = rd_or 0 xr_u32 args;
              (stable, args) = rd_or 0 xr_u32 args;
              (data, _) = rd_or [] (xr_opaque (unat MAX_READ)) args;
              sync = (stable \<noteq> 0);
              pre = ok_of (sf_getattr S s node)
          in case sf_write S s node offset data sync of
            (Ok a, s) \<Rightarrow>
              (emit [w_u32 NFS3_OK, write_wcc_data share node (Some a), w_u32 (of_nat (length data)),
                     w_u32 (if sync \<or> sf_writes_are_stable S s then 2 else 0), w_fixed WRITE_VERF] w, s)
          | (Err e, s) \<Rightarrow> (emit [w_u32 (nfsstat_of e), write_wcc_data share node pre] w, s))"

definition create_reply ::
    "'s surface \<Rightarrow> handle_codec \<Rightarrow> 's \<Rightarrow> u16 \<Rightarrow> node_key \<Rightarrow> bytes \<Rightarrow> create_kind \<Rightarrow> u16 \<Rightarrow> xdr_writer \<Rightarrow>
     xdr_writer \<times> 's" where
  "create_reply S km s share dir nm k mode w =
     (case sf_create S s dir nm k mode of
        (Ok (node, a), s) \<Rightarrow>
          (emit [w_u32 NFS3_OK, write_post_op_fh km share node, write_post_op_attr share node (Some a),
                 write_wcc_data share dir (ok_of (sf_getattr S s dir))] w, s)
      | (Err e, s) \<Rightarrow>
          (emit [w_u32 (nfsstat_of e), write_wcc_data share dir (ok_of (sf_getattr S s dir))] w, s))"

text \<open>The common opening of the procedures that take a directory and a name.\<close>

definition with_dir_name ::
    "'s surface \<Rightarrow> handle_codec \<Rightarrow> 's \<Rightarrow> xdr_reader \<Rightarrow> xdr_writer \<Rightarrow>
     (node_key \<Rightarrow> bytes \<Rightarrow> xdr_reader \<Rightarrow> xdr_writer \<times> 's) \<Rightarrow> xdr_writer \<times> 's" where
  "with_dir_name S km s args w k =
     (case read_fh km args of
        (None, _) \<Rightarrow> (w_u32 NFS3ERR_STALE w, s)
      | (Some (_, dir), args) \<Rightarrow>
          (case read_name args of
             (None, _) \<Rightarrow>
               (emit [w_u32 NFS3ERR_NAMETOOLONG,
                      write_wcc_data (sf_share_id S s) dir (ok_of (sf_getattr S s dir))] w, s)
           | (Some nm, args) \<Rightarrow> k dir nm args))"

definition nfs3_create :: "'s surface \<Rightarrow> handle_codec \<Rightarrow> 's \<Rightarrow> xdr_reader \<Rightarrow> xdr_writer \<Rightarrow> xdr_writer \<times> 's" where
  "nfs3_create S km s args w = with_dir_name S km s args w (\<lambda>dir nm args.
     let (how, args) = rd_or 0 xr_u32 args;
         mode = (if how = 2 then None else sa_mode (fst (parse_sattr3 args)))
     in create_reply S km s (sf_share_id S s) dir nm (CkFile (how \<noteq> 0))
          (case mode of Some m \<Rightarrow> m | None \<Rightarrow> 0x1A4) w)"

definition nfs3_mkdir :: "'s surface \<Rightarrow> handle_codec \<Rightarrow> 's \<Rightarrow> xdr_reader \<Rightarrow> xdr_writer \<Rightarrow> xdr_writer \<times> 's" where
  "nfs3_mkdir S km s args w = with_dir_name S km s args w (\<lambda>dir nm args.
     let (set, _) = parse_sattr3 args
     in create_reply S km s (sf_share_id S s) dir nm CkDir
          (case sa_mode set of Some m \<Rightarrow> m | None \<Rightarrow> 0x1ED) w)"

definition nfs3_symlink :: "'s surface \<Rightarrow> handle_codec \<Rightarrow> 's \<Rightarrow> xdr_reader \<Rightarrow> xdr_writer \<Rightarrow> xdr_writer \<times> 's" where
  "nfs3_symlink S km s args w = with_dir_name S km s args w (\<lambda>dir nm args.
     let (_, args) = parse_sattr3 args;
         (target, _) = rd_or [] (xr_opaque 4096) args
     in create_reply S km s (sf_share_id S s) dir nm (CkSymlink target) 0x1FF w)"

definition nfs3_remove ::
    "'s surface \<Rightarrow> handle_codec \<Rightarrow> bool \<Rightarrow> 's \<Rightarrow> xdr_reader \<Rightarrow> xdr_writer \<Rightarrow> xdr_writer \<times> 's" where
  "nfs3_remove S km is_dir s args w = with_dir_name S km s args w (\<lambda>dir nm _.
     let share = sf_share_id S s in
     case sf_remove S s dir nm is_dir of
       (Ok _, s) \<Rightarrow> (emit [w_u32 NFS3_OK, write_wcc_data share dir (ok_of (sf_getattr S s dir))] w, s)
     | (Err e, s) \<Rightarrow>
         (emit [w_u32 (nfsstat_of e), write_wcc_data share dir (ok_of (sf_getattr S s dir))] w, s))"

definition nfs3_rename :: "'s surface \<Rightarrow> handle_codec \<Rightarrow> 's \<Rightarrow> xdr_reader \<Rightarrow> xdr_writer \<Rightarrow> xdr_writer \<times> 's" where
  "nfs3_rename S km s args w =
     (let share = sf_share_id S s in
      case read_fh km args of
        (None, _) \<Rightarrow> (w_u32 NFS3ERR_STALE w, s)
      | (Some (_, from_dir), args) \<Rightarrow>
          (case read_name args of
             (from_ok, args) \<Rightarrow>
               (case read_fh km args of
                  (None, _) \<Rightarrow> (w_u32 NFS3ERR_STALE w, s)
                | (Some (_, to_dir), args) \<Rightarrow>
                    (case (from_ok, fst (read_name args)) of
                       (Some from_name, Some to_name) \<Rightarrow>
                         (case sf_rename S s from_dir from_name to_dir to_name of
                            (res, s) \<Rightarrow>
                              (emit [w_u32 (case res of Ok _ \<Rightarrow> NFS3_OK | Err e \<Rightarrow> nfsstat_of e),
                                     write_wcc_data share from_dir (ok_of (sf_getattr S s from_dir)),
                                     write_wcc_data share to_dir (ok_of (sf_getattr S s to_dir))] w, s))
                     | _ \<Rightarrow>
                         (emit [w_u32 NFS3ERR_NAMETOOLONG,
                                write_wcc_data share from_dir (ok_of (sf_getattr S s from_dir)),
                                write_wcc_data share to_dir (ok_of (sf_getattr S s to_dir))] w, s)))))"

definition nfs3_commit :: "'s surface \<Rightarrow> handle_codec \<Rightarrow> 's \<Rightarrow> xdr_reader \<Rightarrow> xdr_writer \<Rightarrow> xdr_writer \<times> 's" where
  "nfs3_commit S km s args w =
     (let share = sf_share_id S s in
      case read_fh km args of
        (None, _) \<Rightarrow> (w_u32 NFS3ERR_STALE w, s)
      | (Some (_, node), args) \<Rightarrow>
          let (offset, args) = rd_or 0 xr_u64 args;
              (count, _) = rd_or 0 xr_u32 args
          in case sf_commit S s node offset (ucast count) of
            (Ok a, s) \<Rightarrow> (emit [w_u32 NFS3_OK, write_wcc_data share node (Some a), w_fixed WRITE_VERF] w, s)
          | (Err e, s) \<Rightarrow>
              (emit [w_u32 (nfsstat_of e), write_wcc_data share node (ok_of (sf_getattr S s node))] w, s))"

definition nfs3_mknod :: "'s surface \<Rightarrow> handle_codec \<Rightarrow> 's \<Rightarrow> xdr_reader \<Rightarrow> xdr_writer \<Rightarrow> xdr_writer \<times> 's" where
  "nfs3_mknod S km s args w =
     (let share = sf_share_id S s in
      (emit (w_u32 NFS3ERR_NOTSUPP #
             (case fst (read_fh km args) of
                Some (_, d) \<Rightarrow> [write_wcc_data share d (ok_of (sf_getattr S s d))]
              | None \<Rightarrow> [w_bool False, w_bool False])) w, s))"

definition nfs3_link :: "'s surface \<Rightarrow> handle_codec \<Rightarrow> 's \<Rightarrow> xdr_reader \<Rightarrow> xdr_writer \<Rightarrow> xdr_writer \<times> 's" where
  "nfs3_link S km s args w =
     (let share = sf_share_id S s;
          (file, args) = read_fh km args;
          (dir, _) = read_fh km args
      in (emit (w_u32 NFS3ERR_NOTSUPP #
             (case file of
                Some (_, n) \<Rightarrow> [write_post_op_attr share n (ok_of (sf_getattr S s n))]
              | None \<Rightarrow> [w_bool False]) @
             (case dir of
                Some (_, d) \<Rightarrow> [write_wcc_data share d (ok_of (sf_getattr S s d))]
              | None \<Rightarrow> [w_bool False, w_bool False])) w, s))"

section \<open>Dispatch\<close>

definition dispatch_inner ::
    "'s surface \<Rightarrow> handle_codec \<Rightarrow> 's \<Rightarrow> u32 \<Rightarrow> xdr_reader \<Rightarrow> xdr_writer \<Rightarrow> xdr_writer \<times> 's" where
  "dispatch_inner S km s prc args w =
     (if prc = PROC_NULL then (w, s)
      else if prc = PROC_GETATTR then nfs3_getattr S km s args w
      else if prc = PROC_LOOKUP then nfs3_lookup S km s args w
      else if prc = PROC_ACCESS then nfs3_access S km s args w
      else if prc = PROC_READLINK then nfs3_readlink S km s args w
      else if prc = PROC_READ then nfs3_read S km s args w
      else if prc = PROC_READDIR then nfs3_readdir S km False s args w
      else if prc = PROC_READDIRPLUS then nfs3_readdir S km True s args w
      else if prc = PROC_FSSTAT then nfs3_fsstat S s w
      else if prc = PROC_FSINFO then nfs3_fsinfo s w
      else if prc = PROC_PATHCONF then nfs3_pathconf s w
      else if prc = PROC_SETATTR then nfs3_setattr S km s args w
      else if prc = PROC_WRITE then nfs3_write S km s args w
      else if prc = PROC_CREATE then nfs3_create S km s args w
      else if prc = PROC_MKDIR then nfs3_mkdir S km s args w
      else if prc = PROC_SYMLINK then nfs3_symlink S km s args w
      else if prc = PROC_REMOVE \<or> prc = PROC_RMDIR then nfs3_remove S km (prc = PROC_RMDIR) s args w
      else if prc = PROC_RENAME then nfs3_rename S km s args w
      else if prc = PROC_COMMIT then nfs3_commit S km s args w
      else if prc = PROC_MKNOD then nfs3_mknod S km s args w
      else if prc = PROC_LINK then nfs3_link S km s args w
      else (w_u32 NFS3ERR_NOTSUPP w, s))"

text \<open>A READ that the surface can serve from one file range is answered with its head only.\<close>

definition nfs3_read_head ::
    "'s surface \<Rightarrow> 's \<Rightarrow> node_key \<Rightarrow> sendable_read \<Rightarrow> xdr_writer \<Rightarrow> reply" where
  "nfs3_read_head S s node body w =
     HeadAndFile
       (emit [w_u32 NFS3_OK, write_post_op_attr (sf_share_id S s) node (ok_of (sf_getattr S s node)),
              w_u32 (sr_len body), w_bool (sr_eof body), w_u32 (sr_len body)] w)
       body ((4 - unat (sr_len body) mod 4) mod 4)"

definition nfs3_dispatch ::
    "'s surface \<Rightarrow> handle_codec \<Rightarrow> 's \<Rightarrow> u32 \<Rightarrow> xdr_reader \<Rightarrow> xdr_writer \<Rightarrow> reply \<times> 's" where
  "nfs3_dispatch S km s prc args w =
     (let slow = (\<lambda>s. case dispatch_inner S km s prc args w of (w, s) \<Rightarrow> (Whole w, s)) in
      if prc = PROC_READ then
        (case read_fh km args of
           (None, _) \<Rightarrow> slow s
         | (Some (_, node), peek) \<Rightarrow>
             let (offset, peek) = rd_or 0 xr_u64 peek;
                 (count, _) = rd_or 0 xr_u32 peek;
                 count = min count MAX_READ
             in case sf_read_sendable S s node offset count of
                  (Some body, s) \<Rightarrow> (nfs3_read_head S s node body w, s)
                | (None, s) \<Rightarrow> slow s)
      else slow s)"

section \<open>MOUNT and the server\<close>

definition MOUNT_PROGRAM :: u32 where "MOUNT_PROGRAM = 100005"
definition MOUNT_VERSION :: u32 where "MOUNT_VERSION = 3"
definition MNT3_OK :: u32 where "MNT3_OK = 0"

definition mount3_dispatch ::
    "'s surface \<Rightarrow> handle_codec \<Rightarrow> 's \<Rightarrow> u32 \<Rightarrow> xdr_reader \<Rightarrow> xdr_writer \<Rightarrow> xdr_writer" where
  "mount3_dispatch S km s prc args w =
     (if prc = 0 then w
      else if prc = 1 then
        emit [w_u32 MNT3_OK, w_opaque (handle_encode km (sf_share_id S s) (sf_root S s)),
              w_u32 2, w_u32 AUTH_SYS, w_u32 AUTH_NONE] w
      else if prc = 3 then w
      else if prc = 5 then emit [w_bool True, w_opaque [47], w_bool False, w_bool False] w
      else w)"

definition handle_record :: "'s surface \<Rightarrow> handle_codec \<Rightarrow> 's \<Rightarrow> bytes \<Rightarrow> reply \<times> 's" where
  "handle_record S km s rcd =
     (case parse_call rcd of
        Err _ \<Rightarrow> (Whole [], s)
      | Ok (call, args) \<Rightarrow>
          if rc_program call = NFS_PROGRAM \<and> rc_version call = NFS_VERSION then
            nfs3_dispatch S km s (rc_procedure call) args (reply_accepted (rc_xid call) ACCEPT_SUCCESS)
          else if rc_program call = MOUNT_PROGRAM \<and> rc_version call = MOUNT_VERSION then
            (Whole (mount3_dispatch S km s (rc_procedure call) args (reply_accepted (rc_xid call) ACCEPT_SUCCESS)), s)
          else if rc_program call = NFS_PROGRAM \<or> rc_program call = MOUNT_PROGRAM then
            (Whole (reply_prog_mismatch (rc_xid call) 3 3), s)
          else (Whole (reply_accepted (rc_xid call) ACCEPT_PROG_UNAVAIL), s))"

section \<open>Writers append whole words\<close>

text \<open>
  A writer step is \<open>aligned\<close> when it appends bytes that do not depend on the buffer, in a
  multiple of four.
\<close>

definition aligned :: "(xdr_writer \<Rightarrow> xdr_writer) \<Rightarrow> bool" where
  "aligned f \<longleftrightarrow> (\<forall>w. f w = w @ f []) \<and> length (f []) mod 4 = 0"

named_theorems writer_simps \<open>writer steps are aligned, and their lengths\<close>

lemma alignedI: "(\<And>w. f w = w @ f []) \<Longrightarrow> length (f []) mod 4 = 0 \<Longrightarrow> aligned f"
  unfolding aligned_def by blast

lemma alignedD:
  assumes "aligned f"
  shows "f w = w @ f []" "length (f []) mod 4 = 0"
  using assms unfolding aligned_def by blast+

lemma aligned_length:
  assumes "aligned f"
  shows "length (f w) = length w + length (f [])" "length (f w) mod 4 = length w mod 4"
proof -
  show *: "length (f w) = length w + length (f [])" using arg_cong [OF alignedD(1) [OF assms, of w], of length] by simp
  show "length (f w) mod 4 = length w mod 4"
    unfolding * using mod_add_right_eq [of "length w" "length (f [])" 4] alignedD(2) [OF assms] by simp
qed

lemma aligned_emit:
  assumes "list_all aligned fs"
  shows "aligned (emit fs)"
  using assms
proof (induction fs)
  case Nil
  then show ?case by (simp add: aligned_def)
next
  case (Cons f fs)
  then have f: "aligned f" and fs: "aligned (emit fs)" by simp_all
  show ?case
  proof (rule alignedI)
    fix w
    have "emit (f # fs) w = f w @ emit fs []" using alignedD(1) [OF fs, of "f w"] by simp
    also have "\<dots> = w @ f [] @ emit fs []" using alignedD(1) [OF f, of w] by simp
    also have "\<dots> = w @ emit (f # fs) []" using alignedD(1) [OF fs, of "f []"] by simp
    finally show "emit (f # fs) w = w @ emit (f # fs) []" .
    show "length (emit (f # fs) []) mod 4 = 0"
      using aligned_length(2) [OF fs, of "f []"] alignedD(2) [OF f] by simp
  qed
qed

lemma aligned_prims [writer_simps]:
  "aligned (w_u32 a)" "aligned (w_u64 b)" "aligned (w_bool c)" "aligned (w_opaque d)" "aligned (w_fixed d)"
proof -
  show "aligned (w_u32 a)" "aligned (w_u64 b)" "aligned (w_bool c)"
    by (simp_all add: aligned_def w_u32_def w_u64_def w_bool_def)
  show "aligned (w_opaque d)"
    by (simp add: aligned_def w_opaque_append length_opaque_bytes pad_len add.assoc)
  show "aligned (w_fixed d)"
    by (auto simp: aligned_def w_fixed_def w_pad_def Let_def) presburger
qed

lemma aligned_nfs3 [writer_simps]:
  "aligned (write_time t)" "aligned (write_fattr3 share node a)" "aligned (write_post_op_attr share node ao)"
  "aligned (write_post_op_fh km share node)" "aligned (write_wcc_data share node ao)"
proof -
  show t: "aligned (write_time t)" for t
    unfolding write_time_def by (intro aligned_emit) (simp add: writer_simps)
  show f: "aligned (write_fattr3 share node a)" for a
    unfolding write_fattr3_def by (intro aligned_emit) (simp add: writer_simps t)
  show p: "aligned (write_post_op_attr share node ao)"
    unfolding write_post_op_attr_def by (intro aligned_emit) (simp add: writer_simps f split: option.split)
  show "aligned (write_post_op_fh km share node)"
    unfolding write_post_op_fh_def by (intro aligned_emit) (simp add: writer_simps)
  show "aligned (write_wcc_data share node ao)"
    unfolding write_wcc_data_def by (intro aligned_emit) (simp add: writer_simps p)
qed

lemma length_emit:
  assumes "list_all aligned fs"
  shows "length (emit fs w) = length w + sum_list (map (\<lambda>f. length (f [])) fs)"
  using assms
proof (induction fs arbitrary: w)
  case Nil
  then show ?case by simp
next
  case (Cons f fs)
  then show ?case using aligned_length(1) [of f w] by simp
qed

lemma length_time: "length (write_time t []) = 8"
  by (simp add: write_time_def w_u32_def)

lemma length_fattr3: "length (write_fattr3 share node a []) = 84"
  unfolding write_fattr3_def by (subst length_emit) (simp_all add: writer_simps length_time w_u32_def w_u64_def)

lemma length_post_op_attr: "length (write_post_op_attr share node ao []) \<le> 88"
  unfolding write_post_op_attr_def
  by (subst length_emit) (auto simp: writer_simps w_bool_def w_u32_def length_fattr3 split: option.split)

lemma length_handle [simp]: "length (handle_encode km share node) = 28"
  by (simp add: handle_encode_def Let_def)

lemma length_post_op_fh: "length (write_post_op_fh km share node []) = 36"
  by (simp add: write_post_op_fh_def w_opaque_append length_opaque_bytes w_bool_def w_u32_def)

lemma length_opaque_le: "length (opaque_bytes d) \<le> length d + 7"
  by (auto simp: length_opaque_bytes)

section \<open>The size of a directory reply\<close>

lemma readdir_entries_length:
  "length (snd (readdir_entries km share wa (if wa then 160 else 40) budget es w)) + 8
     \<le> max budget (length w + 8)"
proof (induction es arbitrary: w)
  case Nil
  then show ?case by simp
next
  case (Cons e es)
  let ?pe = "if wa then 160 else 40 :: nat"
  let ?fs = "[w_bool True, w_u64 (ino (de_node e)), w_opaque (de_name e), w_u64 (de_cookie e)] @
      (if wa then [write_post_op_attr share (de_node e) (de_attr e), write_post_op_fh km share (de_node e)] else [])"
  show ?case
  proof (cases "length w + ?pe + length (de_name e) > budget")
    case True
    then show ?thesis by simp
  next
    case False
    have "list_all aligned ?fs" by (simp add: writer_simps)
    then have "length (emit ?fs w) + 8 \<le> length w + ?pe + length (de_name e)"
      using length_post_op_attr [of share "de_node e" "de_attr e"] length_post_op_fh [of km share "de_node e"]
        length_opaque_le [of "de_name e"] length_emit [of ?fs w]
      by (simp add: w_bool_def w_u32_def w_u64_def w_opaque_append del: emit.simps)
    then have "length (emit ?fs w) + 8 \<le> budget" using False by simp
    then show ?thesis using Cons.IH [of "emit ?fs w"] False by simp
  qed
qed

lemma readdir_entries_aligned:
  "length w mod 4 = 0 \<Longrightarrow> length (snd (readdir_entries km share wa per_entry budget es w)) mod 4 = 0"
proof (induction es arbitrary: w)
  case Nil
  then show ?case by simp
next
  case (Cons e es)
  let ?fs = "[w_bool True, w_u64 (ino (de_node e)), w_opaque (de_name e), w_u64 (de_cookie e)] @
      (if wa then [write_post_op_attr share (de_node e) (de_attr e), write_post_op_fh km share (de_node e)] else [])"
  have "aligned (emit ?fs)" by (rule aligned_emit) (simp add: writer_simps)
  then show ?case using Cons aligned_length(2) [of "emit ?fs" w] by simp
qed

section \<open>Replies of the procedures\<close>

lemma aligned_emit_length: "list_all aligned fs \<Longrightarrow> length (emit fs w) mod 4 = length w mod 4"
  by (rule aligned_length(2) [OF aligned_emit])

lemmas aligned_w = aligned_prims [THEN aligned_length(2)]

lemmas nfs3_read_defs = nfs3_getattr_def nfs3_lookup_def nfs3_access_def nfs3_readlink_def nfs3_read_def
  nfs3_fsstat_def nfs3_fsinfo_def nfs3_pathconf_def

lemmas nfs3_mut_defs = nfs3_setattr_def nfs3_write_def nfs3_create_def nfs3_mkdir_def nfs3_symlink_def nfs3_remove_def
  nfs3_rename_def nfs3_commit_def nfs3_mknod_def nfs3_link_def with_dir_name_def create_reply_def

lemma nfs3_reads_aligned:
  "length (fst (nfs3_getattr S km s args w)) mod 4 = length w mod 4"
  "length (fst (nfs3_lookup S km s args w)) mod 4 = length w mod 4"
  "length (fst (nfs3_access S km s args w)) mod 4 = length w mod 4"
  "length (fst (nfs3_readlink S km s args w)) mod 4 = length w mod 4"
  "length (fst (nfs3_read S km s args w)) mod 4 = length w mod 4"
  "length (fst (nfs3_fsstat S s w)) mod 4 = length w mod 4"
  "length (fst (nfs3_fsinfo s w)) mod 4 = length w mod 4"
  "length (fst (nfs3_pathconf s w)) mod 4 = length w mod 4"
  unfolding nfs3_read_defs Let_def
  by (simp_all add: aligned_w aligned_emit_length writer_simps del: emit.simps split: option.split sum.split prod.split)

lemma nfs3_mutations_aligned:
  "length (fst (nfs3_setattr S km s args w)) mod 4 = length w mod 4"
  "length (fst (nfs3_write S km s args w)) mod 4 = length w mod 4"
  "length (fst (nfs3_create S km s args w)) mod 4 = length w mod 4"
  "length (fst (nfs3_mkdir S km s args w)) mod 4 = length w mod 4"
  "length (fst (nfs3_symlink S km s args w)) mod 4 = length w mod 4"
  "length (fst (nfs3_remove S km is_dir s args w)) mod 4 = length w mod 4"
  "length (fst (nfs3_rename S km s args w)) mod 4 = length w mod 4"
  "length (fst (nfs3_commit S km s args w)) mod 4 = length w mod 4"
  "length (fst (nfs3_mknod S km s args w)) mod 4 = length w mod 4"
  "length (fst (nfs3_link S km s args w)) mod 4 = length w mod 4"
  unfolding nfs3_mut_defs Let_def
  by (simp_all add: aligned_w aligned_emit_length writer_simps del: emit.simps split: option.split sum.split prod.split)

lemma nfs3_readdir_aligned:
  assumes "length w mod 4 = 0"
  shows "length (fst (nfs3_readdir S km wa s args w)) mod 4 = 0"
  unfolding nfs3_readdir_def Let_def
  using assms readdir_entries_aligned
  by (simp add: aligned_w aligned_emit_length writer_simps case_prod_beta del: emit.simps split: option.split sum.split)

text \<open>A procedure that does not find its handle leaves the state alone.\<close>

lemma no_handle_inert:
  assumes "fst (read_fh km args) = None"
  shows "snd (dispatch_inner S km s prc args w) = s"
proof -
  obtain r where r: "read_fh km args = (None, r)" using assms by (cases "read_fh km args") auto
  show ?thesis
    unfolding dispatch_inner_def nfs3_read_defs nfs3_mut_defs nfs3_readdir_def Let_def r
    by (simp split: prod.split option.split sum.split)
qed

lemma reads_read_fh: "reads (read_fh km) (opaque_bytes (handle_encode km share node)) (share, node)"
proof -
  have "handle_decode km (handle_encode km share node) = Some (share, node)"
    using handle_decode_iff [of km "handle_encode km share node"] by (auto simp: handle_encode_def Let_def)
  then show ?thesis
    using reads_opaque [of "handle_encode km share node" 64] by (auto simp: reads_def read_fh_def)
qed

lemma reads_read_name: "length nm \<le> 255 \<Longrightarrow> reads read_name (opaque_bytes nm) nm"
  unfolding read_name_def
  using reads_bind [OF reads_opaque [of nm 4096], of "\<lambda>n. if length n > 255 then rd_fail else rd_return n" "[]" nm]
  by (simp add: reads_return)

lemma read_fh_next:
  "xr_ok r \<Longrightarrow> xr_rest r = opaque_bytes (handle_encode km share node) @ t \<Longrightarrow>
    read_fh km r = (Some (share, node), xr_adv 32 r)"
  using readsD [OF reads_read_fh, of r km share node t] by (simp add: length_opaque_bytes)

lemma nfs3_getattr_reply:
  assumes "xr_ok args" "xr_rest args = opaque_bytes (handle_encode km share node) @ t" "sf_getattr S s node = Ok a"
  shows "nfs3_getattr S km s args w = (w @ be_bytes 4 NFS3_OK @ write_fattr3 (sf_share_id S s) node a [], s)"
  using read_fh_next [OF assms(1,2)] assms(3) alignedD(1) [OF aligned_nfs3(2), of "sf_share_id S s" node a "w @ be_bytes 4 NFS3_OK"]
  by (simp add: nfs3_getattr_def w_u32_def)

lemma nfs3_lookup_reply:
  assumes "xr_ok args" "xr_rest args = opaque_bytes (handle_encode km share dir) @ opaque_bytes nm @ t"
    and "length nm \<le> 255" "sf_lookup S s dir nm = Ok (node, a)"
  shows "\<exists>rest. nfs3_lookup S km s args w =
    (w @ be_bytes 4 NFS3_OK @ opaque_bytes (handle_encode km (sf_share_id S s) node) @ rest, s)"
proof -
  have r: "read_fh km args = (Some (share, dir), xr_adv 32 args)" by (rule read_fh_next [OF assms(1,2)])
  have "xr_ok (xr_adv 32 args)" "xr_rest (xr_adv 32 args) = opaque_bytes nm @ t"
    using xr_ok_adv [OF assms(1), of 32] assms(2) by (simp_all add: length_opaque_bytes)
  then have n: "fst (read_name (xr_adv 32 args)) = Some nm"
    using readsD [OF reads_read_name [OF assms(3)]] by simp
  let ?fs = "[write_post_op_attr (sf_share_id S s) node (Some a),
      write_post_op_attr (sf_share_id S s) dir (ok_of (sf_getattr S s dir))]"
  have "aligned (emit ?fs)" by (rule aligned_emit) (simp add: writer_simps)
  note e = alignedD(1) [OF this, of "w @ be_bytes 4 NFS3_OK @ opaque_bytes (handle_encode km (sf_share_id S s) node)"]
  show ?thesis
    using n e unfolding nfs3_lookup_def r
    by (cases "read_name (xr_adv 32 args)") (simp add: assms(4) Let_def w_u32_def w_opaque_append)
qed

end
