(* ===== verification/Nfs3_Props.thy ===== *)
theory Nfs3_Props
  imports Nfs3 Samples
begin

text \<open>
  Properties of the NFSv3 front end over any mount surface, and what a client can rely on when
  the surface keeps the laws of \<open>mount_surface\<close>.
\<close>

section \<open>Replies\<close>

text \<open>The length of a reply on the wire, without the record mark.\<close>

primrec reply_length :: "reply \<Rightarrow> nat" where
  "reply_length (Whole w) = length w"
| "reply_length (HeadAndFile h body pad) = length h + unat (sr_len body) + pad"

lemma if_aligned:
  "length (fst a) mod 4 = (0 :: nat) \<Longrightarrow> length (fst b) mod 4 = 0 \<Longrightarrow> length (fst (if c then a else b)) mod 4 = 0"
  by simp

lemma dispatch_inner_aligned: "length w mod 4 = 0 \<Longrightarrow> length (fst (dispatch_inner S km s prc args w)) mod 4 = 0"
  unfolding dispatch_inner_def
  by (intro if_aligned) (simp_all add: nfs3_reads_aligned nfs3_mutations_aligned nfs3_readdir_aligned aligned_w)

lemma padded_words: "a mod 4 = 0 \<Longrightarrow> (a + n + (4 - n mod 4) mod 4) mod 4 = (0 :: nat)"
proof -
  assume a: "a mod 4 = 0"
  have "(4 - n mod 4) mod 4 = (if n mod 4 = 0 then 0 else 4 - n mod 4)" by simp
  then have "(n + (4 - n mod 4) mod 4) mod 4 = 0" using pad_len [of n] by (simp only:)
  then show "(a + n + (4 - n mod 4) mod 4) mod 4 = 0"
    using a mod_add_eq [of a 4 "n + (4 - n mod 4) mod 4"] by (simp only: add.assoc mod_0 add_0)
qed

lemma read_head_aligned:
  assumes "length w mod 4 = 0"
  shows "reply_length (nfs3_read_head S s node body w) mod 4 = 0"
proof -
  let ?fs = "[w_u32 NFS3_OK, write_post_op_attr (sf_share_id S s) node (ok_of (sf_getattr S s node)),
      w_u32 (sr_len body), w_bool (sr_eof body), w_u32 (sr_len body)]"
  have "length (emit ?fs w) mod 4 = 0"
    using aligned_emit_length [of ?fs w] assms by (simp add: writer_simps del: emit.simps)
  then show ?thesis unfolding nfs3_read_head_def reply_length.simps by (rule padded_words)
qed

lemma nfs3_dispatch_aligned:
  assumes "length w mod 4 = 0"
  shows "reply_length (fst (nfs3_dispatch S km s prc args w)) mod 4 = 0"
  by (simp add: nfs3_dispatch_def Let_def case_prod_unfold dispatch_inner_aligned [OF assms] read_head_aligned [OF assms]
      split: option.split)

lemma mount3_aligned: "length w mod 4 = 0 \<Longrightarrow> length (mount3_dispatch S km s prc args w) mod 4 = 0"
  by (simp add: mount3_dispatch_def aligned_emit_length writer_simps del: emit.simps)

lemma reply_header_aligned:
  "length (reply_accepted xid st) mod 4 = 0" "length (reply_prog_mismatch xid lo hi) mod 4 = 0"
  by (simp_all add: reply_accepted_def reply_prog_mismatch_def aligned_emit_length writer_simps del: emit.simps)

text \<open>
  C39. Whatever a client sends and whatever the surface does, the reply to a record is a whole
  number of four-byte XDR units, also when its payload comes from a file.
\<close>

theorem nfs_replies_whole_words: "reply_length (fst (handle_record S km s rcd)) mod 4 = 0"
  by (simp add: handle_record_def case_prod_unfold reply_header_aligned nfs3_dispatch_aligned mount3_aligned
      split: sum.split)

section \<open>Handles that do not verify\<close>

lemma dispatch_no_handle:
  assumes "fst (read_fh km args) = None"
  shows "snd (nfs3_dispatch S km s prc args w) = s"
  using assms no_handle_inert [OF assms, of S s prc w]
  by (cases "read_fh km args") (auto simp: nfs3_dispatch_def Let_def case_prod_unfold)

lemma read_fh_forged:
  assumes "xr_ok args" "xr_rest args = opaque_bytes fh @ t" "length fh \<le> 64" "handle_decode km fh = None"
  shows "fst (read_fh km args) = None"
proof -
  have "length fh < 2 ^ 32" using assms(3) by simp
  from readsD [OF reads_opaque [OF assms(3) this] assms(1,2)] show ?thesis
    using assms(4) by (simp add: read_fh_def)
qed

text \<open>
  C40. A request whose first handle does not carry the code of this server changes nothing,
  whatever the procedure.
\<close>

theorem nfs_forged_handle_inert:
  assumes "xr_ok args" "xr_rest args = opaque_bytes fh @ t" "length fh \<le> 64" "handle_decode km fh = None"
  shows "snd (nfs3_dispatch S km s prc args w) = s"
  by (rule dispatch_no_handle [OF read_fh_forged [OF assms]])

definition counting_surface :: "nat surface" where
  "counting_surface = (read_only_surface (\<lambda>_. 0) (\<lambda>_. nk 2) (\<lambda>_ _. Err NeIo) (\<lambda>_ _ _. Err NeIo) (\<lambda>_ _ _ _ _. Err NeIo)
     (\<lambda>_ _. Err NeIo) (\<lambda>s _ _ _. (Err NeIo, s)) (\<lambda>_. fs_stat_default))\<lparr>sf_remove := (\<lambda>s _ _ _. (Ok (), s + 1))\<rparr>"

theorem nfs_forged_handle_inert_witness:
  "handle_decode (\<lambda>_. 7) (handle_encode (\<lambda>_. 8) 1 (nk 2)) = None
   \<and> snd (nfs3_dispatch counting_surface (\<lambda>_. 7) 5 PROC_REMOVE
       (xdr_new (opaque_bytes (handle_encode (\<lambda>_. 8) 1 (nk 2)) @ opaque_bytes [97])) []) = 5"
proof -
  have d: "handle_decode (\<lambda>_. 7) (handle_encode (\<lambda>_. 8) 1 (nk 2)) = None" by code_simp
  show ?thesis
    using d nfs_forged_handle_inert [where S = counting_surface and t = "opaque_bytes [97]"
        and args = "xdr_new (opaque_bytes (handle_encode (\<lambda>_. 8) 1 (nk 2)) @ opaque_bytes [97])", OF _ _ _ d]
    by simp
qed

section \<open>Clients of a mount surface\<close>

lemma readdir_entries_append: "\<exists>rest. snd (readdir_entries km share wa pe budget es w) = w @ rest"
proof (induction es arbitrary: w)
  case (Cons e es)
  let ?fs = "[w_bool True, w_u64 (ino (de_node e)), w_opaque (de_name e), w_u64 (de_cookie e)] @
      (if wa then [write_post_op_attr share (de_node e) (de_attr e), write_post_op_fh km share (de_node e)] else [])"
  have "aligned (emit ?fs)" by (rule aligned_emit) (simp add: writer_simps)
  from alignedD(1) [OF this, of w] show ?case
    using Cons.IH [of "emit ?fs w"] by (auto simp del: emit.simps)
qed simp

lemma readdir_entries_first:
  assumes "length w + pe + length (de_name e) \<le> budget"
  obtains rest where "snd (readdir_entries km share wa pe budget (e # es) w) =
    w @ be_bytes 4 (1 :: u32) @ be_bytes 8 (ino (de_node e)) @ opaque_bytes (de_name e) @ be_bytes 8 (de_cookie e) @ rest"
proof -
  let ?w = "w @ be_bytes 4 (1 :: u32) @ be_bytes 8 (ino (de_node e)) @ opaque_bytes (de_name e) @ be_bytes 8 (de_cookie e)"
  let ?fs = "if wa then [write_post_op_attr share (de_node e) (de_attr e), write_post_op_fh km share (de_node e)] else []"
  have "aligned (emit ?fs)" by (rule aligned_emit) (simp add: writer_simps)
  note a = alignedD(1) [OF this, of ?w]
  obtain rest where r: "snd (readdir_entries km share wa pe budget es (emit ?fs ?w)) = emit ?fs ?w @ rest"
    by (rule exE [OF readdir_entries_append])
  have "emit ([w_bool True, w_u64 (ino (de_node e)), w_opaque (de_name e), w_u64 (de_cookie e)] @ ?fs) w = emit ?fs ?w"
    by (simp add: w_bool_def w_u32_def w_u64_def w_opaque_append)
  moreover have "\<not> length w + pe + length (de_name e) > budget" using assms by simp
  ultimately have "snd (readdir_entries km share wa pe budget (e # es) w) = emit ?fs ?w @ rest"
    unfolding readdir_entries.simps r [symmetric] by (simp only: if_False)
  also have "\<dots> = ?w @ emit ?fs [] @ rest" unfolding a by (simp only: append_assoc)
  finally show ?thesis by (intro that) (simp only: append_assoc)
qed

context mount_surface
begin

lemma lookup_then_getattr:
  assumes "inv s" "length nm \<le> 255" "sf_lookup S s dir nm = Ok (node, a)"
    and "xr_ok args" "xr_rest args = opaque_bytes (handle_encode km share dir) @ opaque_bytes nm @ t"
  shows "\<exists>rest. nfs3_lookup S km s args w =
      (w @ be_bytes 4 NFS3_OK @ opaque_bytes (handle_encode km (sf_share_id S s) node) @ rest, s)"
    and "nfs3_getattr S km s (xdr_new (opaque_bytes (handle_encode km (sf_share_id S s) node))) w =
      (w @ be_bytes 4 NFS3_OK @ write_fattr3 (sf_share_id S s) node a [], s)"
  by (rule nfs3_lookup_reply [OF assms(4,5,2,3)])
    (rule nfs3_getattr_reply [where t = "[]", OF _ _ lookup_getattr [OF assms(1,3)]], simp_all)

lemma readdir_progress:
  assumes "inv s" "sf_readdir S s dir cookie m wa = Ok page" "np_entries page = e # es"
    and "length w + (if wa then 160 else 40) + 255 \<le> budget"
  shows "cookie < de_cookie e \<and> (\<exists>rest. snd (readdir_entries km share wa (if wa then 160 else 40) budget (np_entries page) w) =
    w @ be_bytes 4 (1 :: u32) @ be_bytes 8 (ino (de_node e)) @ opaque_bytes (de_name e) @ be_bytes 8 (de_cookie e) @ rest)"
proof -
  have "length (de_name e) \<le> 255" using page_names [OF assms(1,2), of e] assms(3) by simp
  then have l: "length w + (if wa then 160 else 40) + length (de_name e) \<le> budget" using assms(4) by simp
  have "cookie < de_cookie e" using page_cookies [OF assms(1,2)] assms(3) by simp
  then show ?thesis unfolding assms(3) using readdir_entries_first [OF l, of km share wa es] by metis
qed

end

end
