(* ===== verification/Share_Surface.thy ===== *)
theory Share_Surface
  imports Nfs_Surface Session Cas
begin

text \<open>
  The exported share (\<^verbatim>\<open>crates/mist-hostd/src/surface.rs\<close>): metadata from the replica, reads
  through the content-addressed cache, mutations over the RPC lanes with optimistic updates of
  the replica, and the write-behind queues. What is behind the lanes, the guest daemon and
  its file system, is the record \<open>guest\<close> of an environment, as are the hash of the cache, the
  index of the directory tables and the lossy decoding of paths. The tasks that fly
  write-behind batches to the guest are a list in the state; a task runs when it is landed, in
  particular when an operation waits for it. The clocks are in the state and stand still
  during an operation. Offsets are compared and added as naturals where the code assumes
  that they do not overflow.
\<close>

section \<open>State\<close>

record 'g guest =
  g_up :: "'g \<Rightarrow> bool"
  g_call :: "'g \<Rightarrow> rpc_req \<Rightarrow> rpc_resp option \<times> 'g"
  g_read :: "'g \<Rightarrow> share_id \<Rightarrow> node_key \<Rightarrow> u64 \<Rightarrow> u32 \<Rightarrow> (bytes \<times> bool) option \<times> 'g"

record ('t, 'g, 'h) env =
  en_index :: "'t name_index"
  en_guest :: "'g guest"
  en_hash :: "bytes \<Rightarrow> 'h"
  en_lossy :: "bytes \<Rightarrow> bytes"
  en_sendfile :: bool

record node_writes =
  nw_inflight :: u32
  nw_pending :: "(u64 \<times> u64 \<times> u32) list"
  nw_next_id :: u32
  nw_err :: "nfs_error option"
  nw_presync :: u64
  nw_dirty :: bool
  nw_stash :: "(u64 \<times> bytes) list option"
  nw_last_active :: "instant option"

text \<open>A spawned task: the batch it carries, in the order of the spawns.\<close>

record wb_task =
  wt_node :: node_key
  wt_off :: u64
  wt_data :: bytes
  wt_id :: u32

record ('t, 'g, 'h) host =
  ho_handle :: "'t share_handle"
  ho_share_id :: u16
  ho_root :: node_key
  ho_squash_uid :: u32
  ho_squash_gid :: u32
  ho_writes :: "(node_key, node_writes) fmap"
  ho_tasks :: "wb_task list"
  ho_manifests :: "(manifest_key, 'h chunk_ref list) fmap"
  ho_cas :: "'h cas_store option"
  ho_mac_dirty :: recent_map
  ho_conflicts :: conflict_tracker
  ho_guest_reads :: "u64 \<times> u64"
  ho_guest :: 'g
  ho_now :: instant
  ho_unix :: int
  ho_clock :: u64

definition STASH_MAX_BYTES :: nat where "STASH_MAX_BYTES = 256 * 1024 * 1024"
definition WIP_FP :: u64 where "WIP_FP = - 1"
definition PRESYNC_BYTES :: u64 where "PRESYNC_BYTES = 16 * 1024 * 1024"
definition WRITE_BEHIND_SLOTS :: nat where "WRITE_BEHIND_SLOTS = 96"
definition WRITE_IDLE_REAP :: int where "WRITE_IDLE_REAP = 20 * 1000000000"
definition CAS_CHUNK :: nat where "CAS_CHUNK = 4 * 1024 * 1024"
definition WRITE_CHUNK :: nat where "WRITE_CHUNK = 1024 * 1024"

definition ho_replica :: "('t, 'g, 'h) host \<Rightarrow> 't share_replica" where
  "ho_replica s = sh_replica (ho_handle s)"

definition host_apply :: "('t, 'g, 'h) env \<Rightarrow> rec \<Rightarrow> ('t, 'g, 'h) host \<Rightarrow> ('t, 'g, 'h) host" where
  "host_apply E c s = s\<lparr>ho_handle := (ho_handle s)\<lparr>sh_replica := fst (apply_rec (en_index E) (ho_replica s) c)\<rparr>\<rparr>"

definition host_dirty :: "node_key \<Rightarrow> ('t, 'g, 'h) host \<Rightarrow> ('t, 'g, 'h) host" where
  "host_dirty node s = s\<lparr>ho_mac_dirty := note_mac_dirty (ho_now s) (ho_share_id s) node (ho_mac_dirty s)\<rparr>"

definition host_conflict :: "('t, 'g, 'h) env \<Rightarrow> node_key \<Rightarrow> string \<Rightarrow> ('t, 'g, 'h) host \<Rightarrow> ('t, 'g, 'h) host" where
  "host_conflict E node op s =
     s\<lparr>ho_conflicts := note_mac (ho_now s) (of_int (ho_unix s div 1000000)) (ho_share_id s) node
         (path_of (en_lossy E) (ho_replica s) node) op (ho_conflicts s)\<rparr>"

text \<open>The continuation after a successful step, \<^verbatim>\<open>?\<close> in the code.\<close>

definition on_ok :: "'a nfs_result \<times> 's \<Rightarrow> ('a \<Rightarrow> 's \<Rightarrow> 'b nfs_result \<times> 's) \<Rightarrow> 'b nfs_result \<times> 's" where
  "on_ok x f = (case fst x of Ok a \<Rightarrow> f a (snd x) | Err e \<Rightarrow> (Err e, snd x))"

section \<open>Time stamps\<close>

definition ts_less :: "ts \<Rightarrow> ts \<Rightarrow> bool" where
  "ts_less a b \<longleftrightarrow> sint (sec a) < sint (sec b) \<or> sec a = sec b \<and> nsec a < nsec b"

definition now_ts :: "('t, 'g, 'h) host \<Rightarrow> ts" where
  "now_ts s = \<lparr>sec = of_int (ho_unix s div 1000000000), nsec = of_int (ho_unix s mod 1000000000)\<rparr>"

definition sat_u64 :: "nat \<Rightarrow> u64" where
  "sat_u64 n = of_nat (min n (2 ^ 64 - 1))"

definition next_optimistic_ts :: "ts \<Rightarrow> ('t, 'g, 'h) host \<Rightarrow> ts \<times> ('t, 'g, 'h) host" where
  "next_optimistic_ts flr s =
     (let now = of_int (ho_unix s) :: u64;
          secs = (if sint (sec flr) < 0 then 0 else sec flr);
          floor_nanos = sat_u64 (unat (sat_u64 (unat secs * 1000000000)) + unat (nsec flr));
          base = max now floor_nanos;
          want = max base (ho_clock s) + 1
      in (\<lparr>sec = want div 1000000000, nsec = ucast (want mod 1000000000)\<rparr>, s\<lparr>ho_clock := want\<rparr>))"

definition content_fingerprint :: "attr \<Rightarrow> u64" where
  "content_fingerprint a =
     fold (\<lambda>v h. (h XOR v) * 0x100000001b3)
       [sec (attr_mtime a), ucast (nsec (attr_mtime a)), attr_size a, attr_content_version a] 0xcbf29ce484222325"

section \<open>The guest\<close>

definition mutate :: "('t, 'g, 'h) env \<Rightarrow> rpc_req \<Rightarrow> ('t, 'g, 'h) host \<Rightarrow> rpc_resp nfs_result \<times> ('t, 'g, 'h) host" where
  "mutate E req s =
     (if \<not> g_up (en_guest E) (ho_guest s) then (Err NeJukebox, s)
      else
        let (resp, g) = g_call (en_guest E) (ho_guest s) req;
            s = s\<lparr>ho_guest := g\<rparr>
        in case resp of
             None \<Rightarrow> (Err NeJukebox, s)
           | Some (RespErr e) \<Rightarrow> (Err (from_errno (re_errno e)), s)
           | Some r \<Rightarrow> (Ok r, s))"

definition mutate_ok :: "('t, 'g, 'h) env \<Rightarrow> rpc_req \<Rightarrow> ('t, 'g, 'h) host \<Rightarrow> unit nfs_result \<times> ('t, 'g, 'h) host" where
  "mutate_ok E req s = on_ok (mutate E req s) (\<lambda>r s. case r of RespOk \<Rightarrow> (Ok (), s) | _ \<Rightarrow> (Err NeIo, s))"

definition mutate_attr :: "('t, 'g, 'h) env \<Rightarrow> rpc_req \<Rightarrow> ('t, 'g, 'h) host \<Rightarrow> attr nfs_result \<times> ('t, 'g, 'h) host" where
  "mutate_attr E req s = on_ok (mutate E req s) (\<lambda>r s. case r of RespAttr a \<Rightarrow> (Ok a, s) | _ \<Rightarrow> (Err NeIo, s))"

definition mutate_entry ::
    "('t, 'g, 'h) env \<Rightarrow> rpc_req \<Rightarrow> ('t, 'g, 'h) host \<Rightarrow> (node_key \<times> attr) nfs_result \<times> ('t, 'g, 'h) host" where
  "mutate_entry E req s =
     on_ok (mutate E req s) (\<lambda>r s. case r of RespEntry node a \<Rightarrow> (Ok (node, a), s) | _ \<Rightarrow> (Err NeIo, s))"

definition guest_read ::
    "('t, 'g, 'h) env \<Rightarrow> node_key \<Rightarrow> u64 \<Rightarrow> nat \<Rightarrow> ('t, 'g, 'h) host \<Rightarrow> (bytes \<times> bool) nfs_result \<times> ('t, 'g, 'h) host" where
  "guest_read E node offset cnt s =
     (if \<not> g_up (en_guest E) (ho_guest s) then (Err NeJukebox, s)
      else
        let (resp, g) = g_read (en_guest E) (ho_guest s) (ho_share_id s) node offset (of_nat cnt);
            s = s\<lparr>ho_guest := g\<rparr>
        in case resp of
             None \<Rightarrow> (Err NeIo, s)
           | Some (data, eof) \<Rightarrow>
               (Ok (data, eof), s\<lparr>ho_guest_reads :=
                  (fst (ho_guest_reads s) + 1, snd (ho_guest_reads s) + of_nat (length data))\<rparr>))"

text \<open>\<^verbatim>\<open>slice::chunks\<close>.\<close>

function chunks :: "nat \<Rightarrow> 'a list \<Rightarrow> 'a list list" where
  "chunks n xs = (if xs = [] \<or> n = 0 then [] else take n xs # chunks n (drop n xs))"
  by auto
termination by (relation "measure (\<lambda>(_, xs). length xs)") auto

declare chunks.simps [simp del]

definition write_reply_of :: "rpc_resp option \<Rightarrow> unit nfs_result" where
  "write_reply_of resp =
     (case resp of
        Some (RespAttr _) \<Rightarrow> Ok ()
      | Some RespOk \<Rightarrow> Ok ()
      | Some (RespErr e) \<Rightarrow> Err (from_errno (re_errno e))
      | Some _ \<Rightarrow> Err NeIo
      | None \<Rightarrow> Err NeJukebox)"

text \<open>All chunks are sent; the first failure in their order is the result.\<close>

primrec write_chunks ::
    "('t, 'g, 'h) env \<Rightarrow> node_key \<Rightarrow> u64 \<Rightarrow> bytes list \<Rightarrow> ('t, 'g, 'h) host \<Rightarrow> unit nfs_result \<times> ('t, 'g, 'h) host" where
  "write_chunks E node off [] s = (Ok (), s)"
| "write_chunks E node off (c # cs) s =
     (let (resp, g) = g_call (en_guest E) (ho_guest s) (ReqWrite (ho_share_id s) node off False c);
          (rest, s) = write_chunks E node (off + of_nat (length c)) cs (s\<lparr>ho_guest := g\<rparr>)
      in (case write_reply_of resp of Ok _ \<Rightarrow> rest | Err e \<Rightarrow> Err e, s))"

definition write_through ::
    "('t, 'g, 'h) env \<Rightarrow> node_key \<Rightarrow> u64 \<Rightarrow> bytes \<Rightarrow> ('t, 'g, 'h) host \<Rightarrow> unit nfs_result \<times> ('t, 'g, 'h) host" where
  "write_through E node offset data s =
     (if \<not> g_up (en_guest E) (ho_guest s) then (Err NeJukebox, s)
      else write_chunks E node offset (chunks WRITE_CHUNK data) s)"

section \<open>The stash\<close>

text \<open>\<^verbatim>\<open>buf[i..i + n].copy_from_slice(xs)\<close>.\<close>

definition overlay :: "'a list \<Rightarrow> nat \<Rightarrow> 'a list \<Rightarrow> 'a list" where
  "overlay buf i xs = take i buf @ xs @ drop (i + length xs) buf"

primrec cover_chunk :: "nat \<Rightarrow> nat \<Rightarrow> (u64 \<times> bytes) list \<Rightarrow> bytes \<times> nat \<Rightarrow> bytes \<times> nat" where
  "cover_chunk c_off c_len [] x = x"
| "cover_chunk c_off c_len (w # ws) x =
     (let off = unat (fst w); dlen = length (snd w) in
      if off + dlen \<le> c_off \<or> off \<ge> c_off + c_len then cover_chunk c_off c_len ws x
      else
        let s = max off c_off;
            e = min (off + dlen) (c_off + c_len)
        in cover_chunk c_off c_len ws
             (overlay (fst x) (s - c_off) (slice (s - off) (e - off) (snd w)), snd x + (e - s)))"

definition chunk_extent :: "nat option \<Rightarrow> nat \<Rightarrow> nat \<Rightarrow> nat option" where
  "chunk_extent sz lim c_off =
     (case sz of
        Some sz \<Rightarrow> Some (min CAS_CHUNK (sz - c_off))
      | None \<Rightarrow> if c_off + CAS_CHUNK > lim then None else Some CAS_CHUNK)"

definition covered_chunks :: "(u64 \<times> bytes) list \<Rightarrow> nat option \<Rightarrow> (nat \<times> bytes) list" where
  "covered_chunks stash sz =
     (let max_end = fold (\<lambda>(o', d). max (unat o' + length d)) stash 0;
          lim = min (case sz of Some n \<Rightarrow> n | None \<Rightarrow> max_end) max_end;
          nchunks = (lim + CAS_CHUNK - 1) div CAS_CHUNK
      in List.map_filter (\<lambda>c.
           let c_off = c * CAS_CHUNK in
           case chunk_extent sz lim c_off of
             None \<Rightarrow> None
           | Some c_len \<Rightarrow>
               let (buf, covered) = cover_chunk c_off c_len stash (replicate c_len 0, 0)
               in if covered = c_len then Some (c_off, buf) else None) [0..<nchunks])"

definition node_version :: "('t, 'g, 'h) host \<Rightarrow> node_key \<Rightarrow> u64 \<Rightarrow> manifest_key" where
  "node_version s node v =
     \<lparr>mk_share = ho_share_id s, mk_ino = ino node, mk_generation = generation node, mk_version = v\<rparr>"

definition cas_secs :: "('t, 'g, 'h) host \<Rightarrow> u64" where
  "cas_secs s = of_int (ho_unix s div 1000000000)"

definition finalize_stash :: "('t, 'g, 'h::linorder) env \<Rightarrow> node_key \<Rightarrow> ('t, 'g, 'h) host \<Rightarrow> ('t, 'g, 'h) host" where
  "finalize_stash E node s =
     (case (ho_cas s, rep_getattr (ho_replica s) node, Option.bind (fmlookup (ho_writes s) node) nw_stash) of
        (Some cas, Ok a, Some stash) \<Rightarrow>
          let tl = covered_chunks stash (Some (unat (attr_size a)));
              wip = node_version s node WIP_FP;
              cas = (if tl = [] then cas
                     else ingest_chunks_inner (en_hash E) (cas_secs s) wip (map (\<lambda>(o', d). (of_nat o', d)) tl) False cas);
              cas = rebind_manifest wip (node_version s node (content_fingerprint a)) cas
          in s\<lparr>ho_cas := Some cas\<rparr>
      | _ \<Rightarrow> s)"

definition invalidate_cas :: "node_key \<Rightarrow> ('t, 'g, 'h) host \<Rightarrow> ('t, 'g, 'h) host" where
  "invalidate_cas node s = s\<lparr>ho_cas := map_option (drop_node (ho_share_id s) (ino node) (generation node)) (ho_cas s)\<rparr>"

section \<open>Write-behind\<close>

definition node_writes_new :: node_writes where
  "node_writes_new = \<lparr>nw_inflight = 0, nw_pending = [], nw_next_id = 0, nw_err = None, nw_presync = 0,
     nw_dirty = False, nw_stash = Some [], nw_last_active = None\<rparr>"

definition writes_of :: "node_key \<Rightarrow> ('t, 'g, 'h) host \<Rightarrow> node_writes" where
  "writes_of node s = (case fmlookup (ho_writes s) node of Some q \<Rightarrow> q | None \<Rightarrow> node_writes_new)"

definition put_writes :: "node_key \<Rightarrow> node_writes \<Rightarrow> ('t, 'g, 'h) host \<Rightarrow> ('t, 'g, 'h) host" where
  "put_writes node q s = s\<lparr>ho_writes := fmupd node q (ho_writes s)\<rparr>"

text \<open>One tick of the reaper.\<close>

definition reap_writes :: "('t, 'g, 'h) host \<Rightarrow> ('t, 'g, 'h) host" where
  "reap_writes s = s\<lparr>ho_writes := fmfilter (\<lambda>n. case fmlookup (ho_writes s) n of
       Some q \<Rightarrow> nw_inflight q > 0 \<or> (case nw_last_active q of Some t \<Rightarrow> ho_now s - t < WRITE_IDLE_REAP | None \<Rightarrow> False)
     | None \<Rightarrow> False) (ho_writes s)\<rparr>"

text \<open>
  The body of a spawned task: the batch goes to the guest, the result is noted, the batch is
  unregistered, and an advisory flush follows every 16 MiB. The queue it updates is the one it
  was spawned with; a queue with a batch in flight is never dropped from the table.
\<close>

definition land_queue :: "unit nfs_result \<Rightarrow> wb_task \<Rightarrow> node_writes \<Rightarrow> node_writes \<times> bool" where
  "land_queue res t q =
     (let n = of_nat (length (wt_data t));
          (q, presync) =
            (case res of
               Err e \<Rightarrow> (q\<lparr>nw_err := (case nw_err q of None \<Rightarrow> Some e | Some e0 \<Rightarrow> Some e0)\<rparr>, False)
             | Ok _ \<Rightarrow> if nw_presync q + n \<ge> PRESYNC_BYTES then (q\<lparr>nw_presync := 0\<rparr>, True)
                        else (q\<lparr>nw_presync := nw_presync q + n\<rparr>, False))
      in (q\<lparr>nw_pending := filter (\<lambda>(_, _, i). i \<noteq> wt_id t) (nw_pending q), nw_inflight := nw_inflight q - 1\<rparr>, presync))"

definition land_task :: "('t, 'g, 'h) env \<Rightarrow> wb_task \<Rightarrow> ('t, 'g, 'h) host \<Rightarrow> ('t, 'g, 'h) host" where
  "land_task E t s =
     (let (res, s) = write_through E (wt_node t) (wt_off t) (wt_data t) s;
          (q, presync) = land_queue res t (writes_of (wt_node t) s);
          s = (put_writes (wt_node t) q s)\<lparr>ho_tasks := remove1 t (ho_tasks s)\<rparr>
      in if presync then snd (mutate_attr E (ReqCommit (ho_share_id s) (wt_node t)) s) else s)"

definition sat_end :: "u64 \<Rightarrow> u64 \<Rightarrow> nat" where
  "sat_end off len = min (unat off + unat len) (2 ^ 64 - 1)"

definition blocking :: "node_key \<Rightarrow> nat \<Rightarrow> nat \<Rightarrow> ('t, 'g, 'h) host \<Rightarrow> bool" where
  "blocking node off lim s =
     (\<exists>(b_off, b_len, _) \<in> set (nw_pending (writes_of node s)). unat b_off < lim \<and> unat b_off + unat b_len > off)"

text \<open>A batch waits for the batch before it on the same node, so they land in order.\<close>

primrec drain_tasks ::
    "('t, 'g, 'h) env \<Rightarrow> node_key \<Rightarrow> nat \<Rightarrow> nat \<Rightarrow> wb_task list \<Rightarrow> ('t, 'g, 'h) host \<Rightarrow> ('t, 'g, 'h) host" where
  "drain_tasks E node off lim [] s = s"
| "drain_tasks E node off lim (t # ts) s =
     (if blocking node off lim s then drain_tasks E node off lim ts (land_task E t s) else s)"

definition drain_writes_range ::
    "('t, 'g, 'h) env \<Rightarrow> node_key \<Rightarrow> u64 \<Rightarrow> u64 \<Rightarrow> ('t, 'g, 'h) host \<Rightarrow> nfs_error option \<times> ('t, 'g, 'h) host" where
  "drain_writes_range E node off len s =
     (case fmlookup (ho_writes s) node of
        Some q \<Rightarrow>
          if nw_inflight q > 0 then
            let s = drain_tasks E node (unat off) (sat_end off len) (filter (\<lambda>t. wt_node t = node) (ho_tasks s)) s;
                q = writes_of node s
            in (nw_err q, put_writes node (q\<lparr>nw_err := None\<rparr>) s)
          else (None, s)
      | None \<Rightarrow> (None, s))"

definition drain_writes ::
    "('t, 'g, 'h) env \<Rightarrow> node_key \<Rightarrow> ('t, 'g, 'h) host \<Rightarrow> nfs_error option \<times> ('t, 'g, 'h) host" where
  "drain_writes E node s = drain_writes_range E node 0 (- 1) s"

text \<open>A permit: when all slots are taken, the oldest batch has to land first.\<close>

definition acquire_slot :: "('t, 'g, 'h) env \<Rightarrow> ('t, 'g, 'h) host \<Rightarrow> ('t, 'g, 'h) host" where
  "acquire_slot E s =
     (case ho_tasks s of
        t # _ \<Rightarrow> if length (ho_tasks s) < WRITE_BEHIND_SLOTS then s else land_task E t s
      | [] \<Rightarrow> s)"

section \<open>Metadata\<close>

definition squash :: "('t, 'g, 'h) host \<Rightarrow> attr \<Rightarrow> attr" where
  "squash s a = a\<lparr>attr_uid := ho_squash_uid s, attr_gid := ho_squash_gid s\<rparr>"

text \<open>A panic of the replica has no error code; it does not happen on well-formed directories.\<close>

fun map_err :: "replica_error \<Rightarrow> nfs_error" where
  "map_err ReNoEnt = NeNoEnt"
| "map_err ReNotDir = NeNotDir"
| "map_err ReNotSymlink = NeNotSymlink"
| "map_err ReIncomplete = NeJukebox"
| "map_err ReBadPath = NeNoEnt"
| "map_err RePanic = NeIo"

definition map_res :: "('a \<Rightarrow> 'b) \<Rightarrow> replica_error + 'a \<Rightarrow> 'b nfs_result" where
  "map_res f x = (case x of Ok a \<Rightarrow> Ok (f a) | Err e \<Rightarrow> Err (map_err e))"

definition ss_getattr :: "('t, 'g, 'h) host \<Rightarrow> node_key \<Rightarrow> attr nfs_result" where
  "ss_getattr s node = map_res (squash s) (rep_getattr (ho_replica s) node)"

definition ss_lookup ::
    "('t, 'g, 'h) env \<Rightarrow> ('t, 'g, 'h) host \<Rightarrow> node_key \<Rightarrow> bytes \<Rightarrow> (node_key \<times> attr) nfs_result" where
  "ss_lookup E s dir nm = map_res (\<lambda>(n, a). (n, squash s a)) (rep_lookup (en_index E) (ho_replica s) dir nm)"

definition ss_readdir :: "('t, 'g, 'h) host \<Rightarrow> node_key \<Rightarrow> u64 \<Rightarrow> nat \<Rightarrow> bool \<Rightarrow> nfs_dir_page nfs_result" where
  "ss_readdir s dir cookie max_entries want_attrs =
     map_res (\<lambda>page.
       \<lparr>np_entries = map (\<lambda>e.
          \<lparr>de_name = as_bytes (rde_name e), de_node = rde_node e, de_cookie = rde_cookie e,
           de_attr = (if want_attrs
                      then (case rep_getattr (ho_replica s) (rde_node e) of Ok a \<Rightarrow> Some (squash s a) | Err _ \<Rightarrow> None)
                      else None)\<rparr>) (rdp_entries page),
        np_eof = rdp_eof page, np_cookieverf = rdp_dirgen page\<rparr>)
       (rep_readdir (ho_replica s) dir cookie max_entries)"

definition ss_readlink :: "('t, 'g, 'h) host \<Rightarrow> node_key \<Rightarrow> bytes nfs_result" where
  "ss_readlink s node = map_res (\<lambda>t. t) (rep_readlink (ho_replica s) node)"

definition ss_parent :: "('t, 'g, 'h) host \<Rightarrow> node_key \<Rightarrow> node_key nfs_result" where
  "ss_parent s node = (case parent_of (ho_replica s) node of Some p \<Rightarrow> Ok p | None \<Rightarrow> Err NeNoEnt)"

definition ss_writes_are_stable :: "('t, 'g, 'h) host \<Rightarrow> bool" where
  "ss_writes_are_stable s \<longleftrightarrow> si_flags (sh_info (ho_handle s)) AND share_flag_WRITEBACK \<noteq> 0"

definition name_of_bytes :: "bytes \<Rightarrow> name nfs_result" where
  "name_of_bytes b = (case name_new b of Ok nm \<Rightarrow> Ok nm | Err _ \<Rightarrow> Err NeIo)"

definition bump_dir :: "('t, 'g, 'h) env \<Rightarrow> node_key \<Rightarrow> ('t, 'g, 'h) host \<Rightarrow> ('t, 'g, 'h) host" where
  "bump_dir E dir s =
     host_dirty dir
       (case rep_getattr (ho_replica s) dir of
          Ok a \<Rightarrow>
            let t = (if ts_less (attr_mtime a) (now_ts s) then now_ts s
                     else \<lparr>sec = sec (attr_mtime a), nsec = nsec (attr_mtime a) + 1\<rparr>)
            in host_apply E (AttrChanged dir (a\<lparr>attr_mtime := t, attr_ctime := t\<rparr>)) s
        | Err _ \<Rightarrow> s)"

definition apply_mac_attr ::
    "('t, 'g, 'h) env \<Rightarrow> node_key \<Rightarrow> attr \<Rightarrow> ('t, 'g, 'h) host \<Rightarrow> attr \<times> ('t, 'g, 'h) host" where
  "apply_mac_attr E node a s =
     (let a = (case rep_getattr (ho_replica s) node of
                 Ok cur \<Rightarrow>
                   (let a = (if ts_less (attr_mtime a) (attr_mtime cur) then a\<lparr>attr_mtime := attr_mtime cur\<rparr> else a)
                    in a\<lparr>attr_size := max (attr_size a) (attr_size cur)\<rparr>)
               | Err _ \<Rightarrow> a)
      in (a, host_apply E (AttrChanged node a) s))"

definition note_write :: "('t, 'g, 'h) env \<Rightarrow> node_key \<Rightarrow> ('t, 'g, 'h) host \<Rightarrow> ('t, 'g, 'h) host" where
  "note_write E node s = invalidate_cas node (host_conflict E node ''write'' (host_dirty node s))"

section \<open>Reads\<close>

definition manifest ::
    "manifest_key \<Rightarrow> 'h cas_store \<Rightarrow> ('t, 'g, 'h) host \<Rightarrow> 'h chunk_ref list option \<times> ('t, 'g, 'h) host" where
  "manifest key cas s =
     (case fmlookup (ho_manifests s) key of
        Some m \<Rightarrow> (Some m, s)
      | None \<Rightarrow>
          (case get_manifest key cas of
             None \<Rightarrow> (None, s)
           | Some m \<Rightarrow>
               let cache = (if fmap_size (ho_manifests s) \<ge> 256 then fmempty else ho_manifests s)
               in (Some m, s\<lparr>ho_manifests := fmupd key m cache\<rparr>)))"

text \<open>The hit path: a positional read through the open handle of the blob.\<close>

definition chunk_hit ::
    "manifest_key \<Rightarrow> 'h cas_store \<Rightarrow> nat \<Rightarrow> nat \<Rightarrow> nat \<Rightarrow> ('t, 'g, 'h) host \<Rightarrow> bytes option \<times> ('t, 'g, 'h) host" where
  "chunk_hit key cas chunk_off inner want s =
     (let (m, s) = manifest key cas s in
      case Option.bind m (find (\<lambda>c. unat (ck_off c) = chunk_off)) of
        None \<Rightarrow> (None, s)
      | Some c \<Rightarrow>
          let (fr, cas) = blob_file_range (cas_secs s) (ck_hash c) (of_nat inner) (of_nat want) cas;
              s = s\<lparr>ho_cas := Some cas\<rparr>
          in case fr of
               None \<Rightarrow> (None, s)
             | Some (f, abs_off) \<Rightarrow>
                 let buf = take want (drop (unat abs_off) f)
                 in (if length buf = want then Some buf else None, s))"

text \<open>The re-check behind the single-flight guard, then the fetch of the whole chunk.\<close>

definition chunk_recheck ::
    "('t, 'g, 'h) env \<Rightarrow> manifest_key \<Rightarrow> nat \<Rightarrow> nat \<Rightarrow> nat \<Rightarrow> ('t, 'g, 'h) host \<Rightarrow> bytes option \<times> ('t, 'g, 'h) host" where
  "chunk_recheck E key chunk_off inner want s =
     (case ho_cas s of
        None \<Rightarrow> (None, s)
      | Some cas \<Rightarrow>
          (case Option.bind (get_manifest key cas) (find (\<lambda>c. unat (ck_off c) = chunk_off)) of
             None \<Rightarrow> (None, s)
           | Some c \<Rightarrow>
               let (b, cas) = get_blob_range (en_hash E) (cas_secs s) (ck_hash c) (of_nat inner) (of_nat want) False cas
               in (b, s\<lparr>ho_cas := Some cas\<rparr>)))"

definition chunk_fetch ::
    "('t, 'g, 'h::linorder) env \<Rightarrow> manifest_key \<Rightarrow> node_key \<Rightarrow> nat \<Rightarrow> nat \<Rightarrow> nat \<Rightarrow> nat \<Rightarrow> ('t, 'g, 'h) host \<Rightarrow>
     bytes nfs_result \<times> ('t, 'g, 'h) host" where
  "chunk_fetch E key node chunk_off chunk_len inner want s =
     on_ok (guest_read E node (of_nat chunk_off) chunk_len s) (\<lambda>(data, _) s.
       let slice_end = min (length data) (inner + want);
           piece = (if inner \<le> slice_end then slice inner slice_end data else []);
           s = (if length data = chunk_len
                then s\<lparr>ho_cas := map_option (ingest_chunk (en_hash E) (cas_secs s) key (of_nat chunk_off) data) (ho_cas s)\<rparr>
                else s)
       in (Ok piece, s))"

definition chunk_read ::
    "('t, 'g, 'h::linorder) env \<Rightarrow> manifest_key \<Rightarrow> 'h cas_store \<Rightarrow> node_key \<Rightarrow> nat \<Rightarrow> nat \<Rightarrow> nat \<Rightarrow> nat \<Rightarrow>
     ('t, 'g, 'h) host \<Rightarrow> bytes nfs_result \<times> ('t, 'g, 'h) host" where
  "chunk_read E key cas node chunk_off chunk_len inner want s =
     (case chunk_hit key cas chunk_off inner want s of
        (Some b, s) \<Rightarrow> (Ok b, s)
      | (None, s) \<Rightarrow>
          (case chunk_recheck E key chunk_off inner want s of
             (Some b, s) \<Rightarrow> (Ok b, s)
           | (None, s) \<Rightarrow> chunk_fetch E key node chunk_off chunk_len inner want s))"

text \<open>Background readahead of one chunk.\<close>

definition prefetch ::
    "('t, 'g, 'h::linorder) env \<Rightarrow> manifest_key \<Rightarrow> node_key \<Rightarrow> nat \<Rightarrow> nat \<Rightarrow> ('t, 'g, 'h) host \<Rightarrow> ('t, 'g, 'h) host" where
  "prefetch E key node chunk_off file_size s =
     (if chunk_off \<ge> file_size then s
      else case ho_cas s of
        None \<Rightarrow> s
      | Some cas \<Rightarrow>
          if (case get_manifest key cas of Some m \<Rightarrow> (\<exists>c \<in> set m. unat (ck_off c) = chunk_off) | None \<Rightarrow> False) then s
          else
            let chunk_len = min CAS_CHUNK (file_size - chunk_off) in
            case guest_read E node (of_nat chunk_off) chunk_len s of
              (Err _, s) \<Rightarrow> s
            | (Ok (data, _), s) \<Rightarrow>
                if length data = chunk_len
                then s\<lparr>ho_cas := Some (ingest_chunk (en_hash E) (cas_secs s) key (of_nat chunk_off) data cas)\<rparr>
                else s)"

text \<open>The loop over the chunks of a read; every pass but the last makes progress.\<close>

primrec read_loop ::
    "nat \<Rightarrow> ('t, 'g, 'h::linorder) env \<Rightarrow> manifest_key \<Rightarrow> node_key \<Rightarrow> nat \<Rightarrow> nat \<Rightarrow> nat \<Rightarrow> bytes \<Rightarrow> ('t, 'g, 'h) host \<Rightarrow>
     (bytes \<times> nat) nfs_result \<times> ('t, 'g, 'h) host" where
  "read_loop 0 E key node sz lim pos data s = (Ok (data, pos), s)"
| "read_loop (Suc fuel) E key node sz lim pos data s =
     (if pos \<ge> lim then (Ok (data, pos), s)
      else
        let chunk_off = pos div CAS_CHUNK * CAS_CHUNK;
            chunk_len = min CAS_CHUNK (sz - chunk_off);
            inner = pos - chunk_off;
            want = min (lim - pos) (chunk_len - inner)
        in case ho_cas s of
             None \<Rightarrow> (Ok (data, pos), s)
           | Some cas \<Rightarrow>
               on_ok (chunk_read E key cas node chunk_off chunk_len inner want s) (\<lambda>piece s.
                 if length piece < want then (Ok (data @ piece, pos + length piece), s)
                 else read_loop fuel E key node sz lim (pos + length piece) (data @ piece) s))"

text \<open>
  A read inside one chunk is served by one call. An empty range at offset zero goes to the
  loop, as its last byte is computed with wrap-around.
\<close>

definition ss_read_cached ::
    "('t, 'g, 'h::linorder) env \<Rightarrow> 'h cas_store \<Rightarrow> node_key \<Rightarrow> u64 \<Rightarrow> u32 \<Rightarrow> ('t, 'g, 'h) host \<Rightarrow>
     read_result nfs_result \<times> ('t, 'g, 'h) host" where
  "ss_read_cached E cas node offset cnt s =
     (case rep_getattr (ho_replica s) node of
        Err e \<Rightarrow> (Err (map_err e), s)
      | Ok a \<Rightarrow>
          let sz = unat (attr_size a); off = unat offset in
          if off \<ge> sz then (Ok \<lparr>rr_data = [], rr_eof = True\<rparr>, s)
          else
            let key = node_version s node (content_fingerprint a);
                lim = min sz (off + unat cnt)
            in if lim > 0 \<and> off div CAS_CHUNK = (lim - 1) div CAS_CHUNK then
                 let chunk_off = off div CAS_CHUNK * CAS_CHUNK;
                     chunk_len = min CAS_CHUNK (sz - chunk_off)
                 in on_ok (chunk_read E key cas node chunk_off chunk_len (off - chunk_off) (lim - off) s) (\<lambda>piece s.
                      (Ok \<lparr>rr_data = piece, rr_eof = (off + length piece \<ge> sz)\<rparr>, s))
               else on_ok (read_loop (Suc (lim - off)) E key node sz lim off [] s) (\<lambda>(data, pos) s.
                      (Ok \<lparr>rr_data = data, rr_eof = (pos \<ge> sz)\<rparr>, s)))"

definition ss_read ::
    "('t, 'g, 'h::linorder) env \<Rightarrow> ('t, 'g, 'h) host \<Rightarrow> node_key \<Rightarrow> u64 \<Rightarrow> u32 \<Rightarrow> read_result nfs_result \<times> ('t, 'g, 'h) host" where
  "ss_read E s node offset cnt =
     (case drain_writes E node s of
        (Some e, s) \<Rightarrow> (Err e, s)
      | (None, s) \<Rightarrow>
          let plain = on_ok (guest_read E node offset (unat cnt) s) (\<lambda>(data, eof) s. (Ok \<lparr>rr_data = data, rr_eof = eof\<rparr>, s))
          in case ho_cas s of
               None \<Rightarrow> plain
             | Some cas \<Rightarrow>
                 if is_mac_dirty (ho_now s) (ho_share_id s) node (ho_mac_dirty s) then plain
                 else ss_read_cached E cas node offset cnt s)"

definition ss_read_sendable ::
    "('t, 'g, 'h) env \<Rightarrow> ('t, 'g, 'h) host \<Rightarrow> node_key \<Rightarrow> u64 \<Rightarrow> u32 \<Rightarrow> sendable_read option \<times> ('t, 'g, 'h) host" where
  "ss_read_sendable E s node offset cnt =
     (if \<not> en_sendfile E then (None, s)
      else case ho_cas s of
        None \<Rightarrow> (None, s)
      | Some cas \<Rightarrow>
          if nw_inflight (writes_of node s) > 0 then (None, s)
          else case rep_getattr (ho_replica s) node of
            Err _ \<Rightarrow> (None, s)
          | Ok a \<Rightarrow>
              let sz = unat (attr_size a); off = unat offset; lim = min sz (off + unat cnt) in
              if off \<ge> sz \<or> cnt = 0 \<or> off div CAS_CHUNK \<noteq> (lim - 1) div CAS_CHUNK then (None, s)
              else
                let chunk_off = off div CAS_CHUNK * CAS_CHUNK;
                    key = node_version s node (content_fingerprint a);
                    (m, s) = manifest key cas s
                in case Option.bind m (find (\<lambda>c. unat (ck_off c) = chunk_off)) of
                     None \<Rightarrow> (None, s)
                   | Some c \<Rightarrow>
                       let (fr, cas) = blob_file_range (cas_secs s) (ck_hash c) (of_nat (off - chunk_off)) (of_nat (lim - off)) cas;
                           s = s\<lparr>ho_cas := Some cas\<rparr>
                       in (map_option (\<lambda>(f, abs_off).
                             \<lparr>sr_file = f, sr_off = abs_off, sr_len = of_nat (lim - off), sr_eof = (lim \<ge> sz)\<rparr>) fr, s))"

text \<open>The fused read: the payload is appended to the wire buffer, or the buffer is left alone.\<close>

definition ss_read_into ::
    "('t, 'g, 'h) env \<Rightarrow> ('t, 'g, 'h) host \<Rightarrow> node_key \<Rightarrow> u64 \<Rightarrow> u32 \<Rightarrow> bytes \<Rightarrow>
     (bool option \<times> bytes) \<times> ('t, 'g, 'h) host" where
  "ss_read_into E s node offset cnt out =
     (case ho_cas s of
        None \<Rightarrow> ((None, out), s)
      | Some cas \<Rightarrow>
          if is_mac_dirty (ho_now s) (ho_share_id s) node (ho_mac_dirty s) \<or> nw_inflight (writes_of node s) > 0
          then ((None, out), s)
          else case rep_getattr (ho_replica s) node of
            Err _ \<Rightarrow> ((None, out), s)
          | Ok a \<Rightarrow>
              let sz = unat (attr_size a); off = unat offset; lim = min sz (off + unat cnt) in
              if off \<ge> sz \<or> cnt = 0 \<or> off div CAS_CHUNK \<noteq> (lim - 1) div CAS_CHUNK then ((None, out), s)
              else
                let chunk_off = off div CAS_CHUNK * CAS_CHUNK;
                    (b, s) = chunk_hit (node_version s node (content_fingerprint a)) cas chunk_off (off - chunk_off) (lim - off) s
                in (case b of Some buf \<Rightarrow> (Some (lim \<ge> sz), out @ buf) | None \<Rightarrow> (None, out), s))"

section \<open>Mutations\<close>

definition create_parts :: "create_kind \<Rightarrow> kind \<times> bool \<times> u64 \<times> bytes option" where
  "create_parts k =
     (case k of
        CkFile exclusive \<Rightarrow> (Reg, exclusive, 0, None)
      | CkDir \<Rightarrow> (Dir, False, 0, None)
      | CkSymlink target \<Rightarrow> (Symlink, False, 0, Some target)
      | CkFifo \<Rightarrow> (Fifo, False, 0, None)
      | CkSocket \<Rightarrow> (Sock, False, 0, None)
      | CkDevice is_block major minor \<Rightarrow>
          (if is_block then Blk else Chr, False, push_bit 32 (ucast major) OR ucast minor, None))"

definition ss_create ::
    "('t, 'g, 'h) env \<Rightarrow> ('t, 'g, 'h) host \<Rightarrow> node_key \<Rightarrow> bytes \<Rightarrow> create_kind \<Rightarrow> u16 \<Rightarrow>
     (node_key \<times> attr) nfs_result \<times> ('t, 'g, 'h) host" where
  "ss_create E s dir nm k mode =
     on_ok (name_of_bytes nm, s) (\<lambda>nm s.
       let (mkind, exclusive, rdev, target) = create_parts k in
       on_ok (mutate_entry E (ReqCreate (ho_share_id s) dir nm mkind mode rdev target exclusive) s) (\<lambda>(node, a) s.
         let s = host_apply E (Created dir nm node (Some a)) s;
             s = host_dirty node s;
             s = bump_dir E dir s
         in (Ok (node, squash s a), s)))"

definition ss_remove ::
    "('t, 'g, 'h) env \<Rightarrow> ('t, 'g, 'h) host \<Rightarrow> node_key \<Rightarrow> bytes \<Rightarrow> bool \<Rightarrow> unit nfs_result \<times> ('t, 'g, 'h) host" where
  "ss_remove E s dir nm is_dir =
     on_ok (name_of_bytes nm, s) (\<lambda>n s.
       let doomed = (case rep_lookup (en_index E) (ho_replica s) dir nm of Ok (k, _) \<Rightarrow> Some k | Err _ \<Rightarrow> None) in
       on_ok (mutate_ok E (if is_dir then ReqRmdir (ho_share_id s) dir n else ReqUnlink (ho_share_id s) dir n) s) (\<lambda>_ s.
         let s = (case doomed of
                    Some k \<Rightarrow>
                      let s = invalidate_cas k (host_conflict E k ''remove'' s) in
                      (case fmlookup (ho_writes s) k of
                         Some q \<Rightarrow> if nw_inflight q = 0 then s\<lparr>ho_writes := fmdrop k (ho_writes s)\<rparr> else s
                       | None \<Rightarrow> s)
                  | None \<Rightarrow> s);
             s = host_apply E (Removed dir n) s
         in (Ok (), bump_dir E dir s)))"

definition ss_rename ::
    "('t, 'g, 'h) env \<Rightarrow> ('t, 'g, 'h) host \<Rightarrow> node_key \<Rightarrow> bytes \<Rightarrow> node_key \<Rightarrow> bytes \<Rightarrow> unit nfs_result \<times> ('t, 'g, 'h) host" where
  "ss_rename E s from_dir from_name to_dir to_name =
     on_ok (name_of_bytes from_name, s) (\<lambda>fn s.
     on_ok (name_of_bytes to_name, s) (\<lambda>tn s.
     on_ok (mutate_ok E (ReqRename (ho_share_id s) from_dir fn to_dir tn) s) (\<lambda>_ s.
       let s = host_apply E (Renamed from_dir fn to_dir tn) s;
           s = bump_dir E from_dir s;
           s = (if to_dir \<noteq> from_dir then bump_dir E to_dir s else s)
       in (Ok (), s))))"

definition ss_setattr ::
    "('t, 'g, 'h) env \<Rightarrow> ('t, 'g, 'h) host \<Rightarrow> node_key \<Rightarrow> set_attr_req \<Rightarrow> attr nfs_result \<times> ('t, 'g, 'h) host" where
  "ss_setattr E s node req =
     (case (if sa_size req \<noteq> None then drain_writes E node s else (None, s)) of
        (Some e, s) \<Rightarrow> (Err e, s)
      | (None, s) \<Rightarrow>
          on_ok (mutate_attr E (ReqSetAttr (ho_share_id s) node (sa_mode req) (sa_uid req) (sa_gid req) (sa_size req)
                   (sa_mtime req)) s) (\<lambda>a s.
            let s = host_conflict E node ''setattr'' (host_dirty node s);
                s = (if sa_size req \<noteq> None then invalidate_cas node s else s);
                a = (case rep_getattr (ho_replica s) node of
                       Ok cur \<Rightarrow> if ts_less (attr_mtime a) (attr_mtime cur) then a\<lparr>attr_mtime := attr_mtime cur\<rparr> else a
                     | Err _ \<Rightarrow> a);
                s = host_apply E (AttrChanged node a) s
            in (Ok (squash s a), s)))"

text \<open>A synchronous write: everything queued lands first, then the data goes to the guest.\<close>

definition write_sync ::
    "('t, 'g, 'h) env \<Rightarrow> node_key \<Rightarrow> u64 \<Rightarrow> bytes \<Rightarrow> ('t, 'g, 'h) host \<Rightarrow> attr nfs_result \<times> ('t, 'g, 'h) host" where
  "write_sync E node offset data s =
     (case drain_writes E node s of
        (Some e, s) \<Rightarrow> (Err e, s)
      | (None, s) \<Rightarrow>
          on_ok (if length data \<le> WRITE_CHUNK \<and> data \<noteq> []
                 then mutate_attr E (ReqWrite (ho_share_id s) node offset True data) s
                 else on_ok (write_through E node offset data s) (\<lambda>_ s.
                        mutate_attr E (ReqCommit (ho_share_id s) node) s)) (\<lambda>a s.
            let s = note_write E node s;
                (a, s) = apply_mac_attr E node a s
            in (Ok (squash s a), s)))"

definition stash_write :: "u64 \<Rightarrow> bytes \<Rightarrow> (u64 \<times> bytes) list option \<Rightarrow> (u64 \<times> bytes) list option" where
  "stash_write offset data stash =
     (case stash of
        None \<Rightarrow> None
      | Some v \<Rightarrow>
          if sum_list (map (\<lambda>(_, b). length b) v) + length data > STASH_MAX_BYTES then None
          else Some (v @ [(offset, data)]))"

text \<open>The registration of a batch and the spawn of its task.\<close>

definition enqueue :: "node_key \<Rightarrow> u64 \<Rightarrow> bytes \<Rightarrow> ('t, 'g, 'h) host \<Rightarrow> ('t, 'g, 'h) host" where
  "enqueue node offset data s =
     (let q = writes_of node s;
          batch_id = nw_next_id q;
          q = q\<lparr>nw_last_active := Some (ho_now s), nw_inflight := nw_inflight q + 1, nw_dirty := True,
                nw_next_id := batch_id + 1,
                nw_pending := nw_pending q @ [(offset, of_nat (length data), batch_id)],
                nw_stash := stash_write offset data (nw_stash q)\<rparr>;
          s = put_writes node q s
      in s\<lparr>ho_tasks := ho_tasks s @ [\<lparr>wt_node = node, wt_off = offset, wt_data = data, wt_id = batch_id\<rparr>]\<rparr>)"

text \<open>An unstable write after the permit: \<open>a\<close> are the attributes read before waiting for it.\<close>

definition write_queue ::
    "('t, 'g, 'h) env \<Rightarrow> node_key \<Rightarrow> u64 \<Rightarrow> bytes \<Rightarrow> attr \<Rightarrow> ('t, 'g, 'h) host \<Rightarrow> attr nfs_result \<times> ('t, 'g, 'h) host" where
  "write_queue E node offset data a s =
     (let s = enqueue node offset data s;
          a = a\<lparr>attr_size := max (attr_size a) (offset + of_nat (length data))\<rparr>;
          (t, s) = next_optimistic_ts (attr_mtime a) s;
          a = a\<lparr>attr_mtime := t\<rparr>;
          s = host_apply E (AttrChanged node a) s;
          s = note_write E node s
      in (Ok (squash s a), s))"

definition ss_write ::
    "('t, 'g, 'h) env \<Rightarrow> ('t, 'g, 'h) host \<Rightarrow> node_key \<Rightarrow> u64 \<Rightarrow> bytes \<Rightarrow> bool \<Rightarrow> attr nfs_result \<times> ('t, 'g, 'h) host" where
  "ss_write E s node offset data sync =
     (if sync \<or> data = [] then write_sync E node offset data s
      else case rep_getattr (ho_replica s) node of
        Err e \<Rightarrow> (Err (map_err e), s)
      | Ok a \<Rightarrow> write_queue E node offset data a (acquire_slot E s))"

text \<open>The full commit of a clean node is a no-op; \<open>Some a\<close> is its reply.\<close>

definition commit_clean :: "node_key \<Rightarrow> ('t, 'g, 'h) host \<Rightarrow> bool \<times> ('t, 'g, 'h) host" where
  "commit_clean node s =
     (case fmlookup (ho_writes s) node of
        Some q \<Rightarrow> (\<not> nw_dirty q, put_writes node (q\<lparr>nw_dirty := False\<rparr>) s)
      | None \<Rightarrow> (True, s))"

definition ss_commit ::
    "('t, 'g, 'h::linorder) env \<Rightarrow> ('t, 'g, 'h) host \<Rightarrow> node_key \<Rightarrow> u64 \<Rightarrow> u64 \<Rightarrow> attr nfs_result \<times> ('t, 'g, 'h) host" where
  "ss_commit E s node off len =
     (case drain_writes_range E node off (if len = 0 then - 1 else len) s of
        (Some e, s) \<Rightarrow> (Err e, s)
      | (None, s) \<Rightarrow>
          let (clean, s) = (if len = 0 then commit_clean node s else (False, s)) in
          if clean then (map_res (squash s) (rep_getattr (ho_replica s) node), s)
          else
            let stashed = (len = 0 \<and> Option.bind (fmlookup (ho_writes s) node) nw_stash \<noteq> None) in
            (case mutate_attr E (ReqCommitRange (ho_share_id s) node off len) s of
               (Err e, s) \<Rightarrow>
                 (Err e, case fmlookup (ho_writes s) node of
                           Some q \<Rightarrow> put_writes node (q\<lparr>nw_dirty := True\<rparr>) s | None \<Rightarrow> s)
             | (Ok a, s) \<Rightarrow>
                 let s = host_dirty node s;
                     (a, s) = apply_mac_attr E node a s;
                     s = (if stashed then finalize_stash E node s else s)
                 in (Ok (squash s a), s)))"

text \<open>The entry of a committed node is dropped when it is quiet, ten seconds later.\<close>

definition commit_cleanup :: "node_key \<Rightarrow> ('t, 'g, 'h) host \<Rightarrow> ('t, 'g, 'h) host" where
  "commit_cleanup node s =
     (case fmlookup (ho_writes s) node of
        Some q \<Rightarrow> if nw_inflight q = 0 then s\<lparr>ho_writes := fmdrop node (ho_writes s)\<rparr> else s
      | None \<Rightarrow> s)"

text \<open>The ingest 150 ms after the last batch of a node has landed, if none followed.\<close>

definition write_idle :: "('t, 'g, 'h::linorder) env \<Rightarrow> node_key \<Rightarrow> ('t, 'g, 'h) host \<Rightarrow> ('t, 'g, 'h) host" where
  "write_idle E node s = (if nw_inflight (writes_of node s) = 0 then finalize_stash E node s else s)"

definition share_surface :: "('t, 'g, 'h::linorder) env \<Rightarrow> ('t, 'g, 'h) host surface" where
  "share_surface E =
     \<lparr>sf_share_id = ho_share_id, sf_root = ho_root, sf_getattr = ss_getattr, sf_lookup = ss_lookup E,
      sf_readdir = ss_readdir, sf_readlink = ss_readlink, sf_parent = ss_parent, sf_read = ss_read E,
      sf_read_sendable = ss_read_sendable E, sf_fsstat = (\<lambda>_. fs_stat_default), sf_writable = (\<lambda>_. True),
      sf_create = ss_create E, sf_remove = ss_remove E, sf_rename = ss_rename E, sf_setattr = ss_setattr E,
      sf_write = ss_write E, sf_writes_are_stable = ss_writes_are_stable,
      sf_touch_dir = (\<lambda>s dir. bump_dir E dir s), sf_commit = ss_commit E\<rparr>"

end
