(* ===== verification/Write_Behind.thy ===== *)
theory Write_Behind
  imports Share_Surface
begin

text \<open>
  The write-behind queues of the exported share: which parts of the state the operations leave
  alone, the invariant that ties the queue of a node to its batches in flight, what a drain
  does, and the runs of a share, all of which keep the invariant.
\<close>

section \<open>Frames\<close>

definition same_queues :: "('t, 'g, 'h) host \<Rightarrow> ('t, 'g, 'h) host \<Rightarrow> bool" where
  "same_queues s s' \<longleftrightarrow> ho_writes s' = ho_writes s \<and> ho_tasks s' = ho_tasks s \<and> ho_share_id s' = ho_share_id s"

definition same_guest :: "('t, 'g, 'h) host \<Rightarrow> ('t, 'g, 'h) host \<Rightarrow> bool" where
  "same_guest s s' \<longleftrightarrow> same_queues s s' \<and> ho_guest s' = ho_guest s"

named_theorems frame

lemma same_queues_refl [simp]: "same_queues s s"
  by (simp add: same_queues_def)

lemma same_queues_trans [trans]: "same_queues s s' \<Longrightarrow> same_queues s' s'' \<Longrightarrow> same_queues s s''"
  by (simp add: same_queues_def)

lemma same_guest_refl [simp]: "same_guest s s"
  by (simp add: same_guest_def)

lemma same_guest_trans [trans]: "same_guest s s' \<Longrightarrow> same_guest s' s'' \<Longrightarrow> same_guest s s''"
  by (auto simp: same_guest_def intro: same_queues_trans)

lemma same_guest_queues: "same_guest s s' \<Longrightarrow> same_queues s s'"
  by (simp add: same_guest_def)

lemma frame_host_apply [frame]: "same_guest s s0 \<Longrightarrow> same_guest s (host_apply E c s0)"
  by (simp add: same_guest_def same_queues_def host_apply_def)

lemma frame_host_dirty [frame]: "same_guest s s0 \<Longrightarrow> same_guest s (host_dirty k s0)"
  by (simp add: same_guest_def same_queues_def host_dirty_def)

lemma frame_host_conflict [frame]: "same_guest s s0 \<Longrightarrow> same_guest s (host_conflict E k op s0)"
  by (simp add: same_guest_def same_queues_def host_conflict_def)

lemma frame_invalidate_cas [frame]: "same_guest s s0 \<Longrightarrow> same_guest s (invalidate_cas k s0)"
  by (simp add: same_guest_def same_queues_def invalidate_cas_def)

lemma frame_note_write [frame]: "same_guest s s0 \<Longrightarrow> same_guest s (note_write E k s0)"
  by (simp add: note_write_def frame)

lemma frame_apply_mac_attr [frame]: "same_guest s s0 \<Longrightarrow> same_guest s (snd (apply_mac_attr E k a s0))"
  by (simp add: apply_mac_attr_def Let_def frame)

lemma frame_bump_dir [frame]: "same_guest s s0 \<Longrightarrow> same_guest s (bump_dir E k s0)"
  by (simp add: bump_dir_def Let_def frame split: sum.split)

lemma frame_finalize_stash [frame]: "same_guest s s0 \<Longrightarrow> same_guest s (finalize_stash E k s0)"
  by (simp add: finalize_stash_def Let_def same_guest_def same_queues_def split: sum.split option.split)

lemma frame_next_ts [frame]: "same_guest s s0 \<Longrightarrow> same_guest s (snd (next_optimistic_ts t s0))"
  by (simp add: next_optimistic_ts_def Let_def same_guest_def same_queues_def)

lemma frame_mutate [frame]: "same_queues s s0 \<Longrightarrow> same_queues s (snd (mutate E req s0))"
  by (auto simp: mutate_def Let_def same_queues_def split: prod.split option.split rpc_resp.split)

lemma frame_on_ok [frame]:
  "same_queues s (snd x) \<Longrightarrow> (\<And>a s0. same_queues s s0 \<Longrightarrow> same_queues s (snd (f a s0))) \<Longrightarrow> same_queues s (snd (on_ok x f))"
  by (simp add: on_ok_def split: sum.split)

lemma frame_mutate_kinds [frame]:
  assumes "same_queues s s0"
  shows "same_queues s (snd (mutate_ok E req s0))" "same_queues s (snd (mutate_attr E req s0))"
    "same_queues s (snd (mutate_entry E req s0))"
  using assms by (auto simp: mutate_ok_def mutate_attr_def mutate_entry_def split: rpc_resp.split intro!: frame)

lemma frame_write_chunks [frame]: "same_queues s s0 \<Longrightarrow> same_queues s (snd (write_chunks E k off cs s0))"
proof (induction cs arbitrary: off s0)
  case (Cons c cs)
  obtain resp g where "g_call (en_guest E) (ho_guest s0) (ReqWrite (ho_share_id s0) k off False c) = (resp, g)"
    by fastforce
  moreover have "same_queues s (s0\<lparr>ho_guest := g\<rparr>)" using Cons.prems by (simp add: same_queues_def)
  ultimately show ?case using Cons.IH by (simp add: Let_def case_prod_unfold)
qed simp

lemma frame_write_through [frame]: "same_queues s s0 \<Longrightarrow> same_queues s (snd (write_through E k off d s0))"
  by (simp add: write_through_def frame)

section \<open>The invariant of the queues\<close>

definition node_tasks :: "node_key \<Rightarrow> ('t, 'g, 'h) host \<Rightarrow> wb_task list" where
  "node_tasks node s = filter (\<lambda>t. wt_node t = node) (ho_tasks s)"

definition task_ok :: "wb_task \<Rightarrow> bool" where
  "task_ok t \<longleftrightarrow> wt_data t \<noteq> [] \<and> unat (wt_off t) + length (wt_data t) < 2 ^ 64"

definition task_batch :: "wb_task \<Rightarrow> u64 \<times> u64 \<times> u32" where
  "task_batch t = (wt_off t, of_nat (length (wt_data t)), wt_id t)"

definition queue_ok :: "node_writes \<Rightarrow> wb_task list \<Rightarrow> bool" where
  "queue_ok q ts \<longleftrightarrow> nw_pending q = map task_batch ts \<and> unat (nw_inflight q) = length ts
     \<and> map wt_id ts = map (\<lambda>i. nw_next_id q - of_nat (length ts) + of_nat i) [0..<length ts]"

definition wb_ok :: "('t, 'g, 'h) host \<Rightarrow> bool" where
  "wb_ok s \<longleftrightarrow> length (ho_tasks s) \<le> WRITE_BEHIND_SLOTS \<and> (\<forall>t \<in> set (ho_tasks s). task_ok t)
     \<and> (\<forall>node. queue_ok (writes_of node s) (node_tasks node s))"

lemma queue_ok_distinct:
  assumes "queue_ok q ts"
  shows "distinct (map wt_id ts)"
proof -
  have l: "length ts < 2 ^ 32"
    using assms unsigned_less [of "nw_inflight q", where 'a = nat] by (simp add: queue_ok_def)
  have "inj_on (\<lambda>i. nw_next_id q - of_nat (length ts) + of_nat i) {0..<length ts}"
  proof (rule inj_onI)
    fix i j assume "i \<in> {0..<length ts}" "j \<in> {0..<length ts}"
      "nw_next_id q - of_nat (length ts) + of_nat i = nw_next_id q - of_nat (length ts) + of_nat j"
    then have "unat (of_nat i :: u32) = unat (of_nat j :: u32)" "i < 2 ^ 32" "j < 2 ^ 32" using l by auto
    then show "i = j" by (simp add: unat_of_nat_small)
  qed
  then show ?thesis using assms by (simp add: queue_ok_def distinct_map)
qed

lemma queue_ok_land:
  assumes "queue_ok q (t # ts)"
    and "nw_pending q' = filter (\<lambda>(_, _, i). i \<noteq> wt_id t) (nw_pending q)"
    and "nw_inflight q' = nw_inflight q - 1" "nw_next_id q' = nw_next_id q"
  shows "queue_ok q' ts"
proof -
  let ?n = "length ts"
  have "wt_id x \<noteq> wt_id t" if "x \<in> set ts" for x
    using queue_ok_distinct [OF assms(1)] that by (force simp: image_iff)
  then have "filter (\<lambda>(_, _, i). i \<noteq> wt_id t) (map task_batch ts) = map task_batch ts"
    by (auto simp: filter_id_conv task_batch_def)
  then have p: "nw_pending q' = map task_batch ts"
    using assms(1,2) by (simp add: queue_ok_def task_batch_def [of t])
  have "nw_inflight q \<noteq> 0" using assms(1) by (auto simp: queue_ok_def)
  then have i: "unat (nw_inflight q') = ?n"
    using assms(1,3) by (simp add: queue_ok_def unat_minus_one)
  have "map wt_id (t # ts) = map (\<lambda>i. nw_next_id q - of_nat (Suc ?n) + of_nat i) [0..<Suc ?n]"
    using assms(1) by (simp add: queue_ok_def del: upt_Suc)
  also have "[0..<Suc ?n] = 0 # map Suc [0..<?n]" by (simp add: map_Suc_upt upt_conv_Cons del: upt_Suc)
  finally have "map wt_id ts = map (\<lambda>i. nw_next_id q - of_nat ?n + of_nat i) [0..<?n]"
    by (simp add: comp_def algebra_simps)
  then show ?thesis using p i assms(4) by (simp add: queue_ok_def)
qed

lemma queue_ok_push:
  assumes "queue_ok q ts" "length ts < 2 ^ 32 - 1" "wt_id t = nw_next_id q"
    and "nw_pending q' = nw_pending q @ [task_batch t]"
    and "nw_inflight q' = nw_inflight q + 1" "nw_next_id q' = nw_next_id q + 1"
  shows "queue_ok q' (ts @ [t])"
proof -
  have "unat (nw_inflight q') = length (ts @ [t])"
    using assms(1,2,5) by (simp add: queue_ok_def unat_word_ariths(1))
  moreover have "map wt_id (ts @ [t]) =
      map (\<lambda>i. nw_next_id q' - of_nat (length (ts @ [t])) + of_nat i) [0..<length (ts @ [t])]"
    using assms(1,3,6) by (simp add: queue_ok_def)
  ultimately show ?thesis using assms(1,4) by (simp add: queue_ok_def)
qed

lemma queue_ok_fields:
  assumes "queue_ok q ts"
    and "nw_pending q' = nw_pending q" "nw_inflight q' = nw_inflight q" "nw_next_id q' = nw_next_id q"
  shows "queue_ok q' ts"
  using assms by (simp add: queue_ok_def)

lemma queue_ok_new: "queue_ok node_writes_new []"
  by (simp add: queue_ok_def node_writes_new_def)

lemma writes_of_cong: "ho_writes s' = ho_writes s \<Longrightarrow> writes_of k s' = writes_of k s"
  by (simp add: writes_of_def)

lemma node_tasks_cong: "ho_tasks s' = ho_tasks s \<Longrightarrow> node_tasks k s' = node_tasks k s"
  by (simp add: node_tasks_def)

lemma wb_ok_frame: "same_queues s s' \<Longrightarrow> wb_ok s \<Longrightarrow> wb_ok s'"
  by (simp add: wb_ok_def same_queues_def writes_of_def node_tasks_def)

text \<open>What landing a task does: the write, the queue, and maybe a flush.\<close>

lemma land_queue_fields:
  fixes q :: node_writes and res :: "unit nfs_result" and t :: wb_task
  defines "q' \<equiv> fst (land_queue res t q)"
  shows "nw_pending q' = filter (\<lambda>(_, _, i). i \<noteq> wt_id t) (nw_pending q)"
    "nw_inflight q' = nw_inflight q - 1" "nw_next_id q' = nw_next_id q"
    "nw_dirty q' = nw_dirty q" "nw_stash q' = nw_stash q"
    "nw_err q' = (case res of Ok _ \<Rightarrow> nw_err q | Err e \<Rightarrow> (case nw_err q of None \<Rightarrow> Some e | Some e0 \<Rightarrow> Some e0))"
  unfolding q'_def by (simp_all add: land_queue_def Let_def split: sum.split)

lemma land_task_split:
  fixes E :: "('t, 'g, 'h) env" and s :: "('t, 'g, 'h) host"
  obtains res s1 s2 where "write_through E (wt_node t) (wt_off t) (wt_data t) s = (res, s1)"
    "s2 = s1\<lparr>ho_writes := fmupd (wt_node t) (fst (land_queue res t (writes_of (wt_node t) s))) (ho_writes s),
            ho_tasks := remove1 t (ho_tasks s)\<rparr>"
    "land_task E t s = s2 \<or> land_task E t s = snd (mutate_attr E (ReqCommit (ho_share_id s) (wt_node t)) s2)"
proof -
  obtain res s1 where w: "write_through E (wt_node t) (wt_off t) (wt_data t) s = (res, s1)" by fastforce
  have f: "ho_writes s1 = ho_writes s" "ho_tasks s1 = ho_tasks s" "ho_share_id s1 = ho_share_id s"
    using frame_write_through [of s s E "wt_node t" "wt_off t" "wt_data t"] w by (simp_all add: same_queues_def)
  show ?thesis
    by (rule that [OF w refl])
      (simp add: land_task_def w f put_writes_def writes_of_cong [OF f(1)] case_prod_unfold Let_def)
qed

lemma frame_commit_call: "same_queues s (snd (mutate_attr E req s))"
  by (simp add: frame)

lemma land_task_queues:
  obtains q where "ho_tasks (land_task E t s) = remove1 t (ho_tasks s)"
    "ho_writes (land_task E t s) = fmupd (wt_node t) q (ho_writes s)"
    "nw_pending q = filter (\<lambda>(_, _, i). i \<noteq> wt_id t) (nw_pending (writes_of (wt_node t) s))"
    "nw_inflight q = nw_inflight (writes_of (wt_node t) s) - 1"
    "nw_next_id q = nw_next_id (writes_of (wt_node t) s)"
    "ho_share_id (land_task E t s) = ho_share_id s"
proof (rule land_task_split [of E t s])
  fix res s1 s2
  assume w: "write_through E (wt_node t) (wt_off t) (wt_data t) s = (res, s1)"
    and s2: "s2 = s1\<lparr>ho_writes := fmupd (wt_node t) (fst (land_queue res t (writes_of (wt_node t) s))) (ho_writes s),
            ho_tasks := remove1 t (ho_tasks s)\<rparr>"
    and l: "land_task E t s = s2 \<or> land_task E t s = snd (mutate_attr E (ReqCommit (ho_share_id s) (wt_node t)) s2)"
  have "same_queues s2 (land_task E t s)" using l frame_commit_call by auto
  moreover have "same_queues s s1"
    using frame_write_through [of s s E "wt_node t" "wt_off t" "wt_data t"] w by simp
  ultimately show ?thesis using that [OF _ _ land_queue_fields(1,2,3)] s2 by (simp add: same_queues_def)
qed

lemma node_tasks_land:
  "node_tasks k (land_task E t s) = (if k = wt_node t then remove1 t (node_tasks k s) else node_tasks k s)"
proof -
  obtain q where "ho_tasks (land_task E t s) = remove1 t (ho_tasks s)" by (rule land_task_queues)
  then show ?thesis by (simp add: node_tasks_def filter_remove1 remove1_idem)
qed

lemma wb_ok_land:
  assumes w: "wb_ok s" and ts: "node_tasks (wt_node t) s = t # ts"
  shows "wb_ok (land_task E t s)" "node_tasks (wt_node t) (land_task E t s) = ts"
proof -
  show n: "node_tasks (wt_node t) (land_task E t s) = ts" using ts by (simp add: node_tasks_land)
  obtain q where l: "ho_tasks (land_task E t s) = remove1 t (ho_tasks s)"
      "ho_writes (land_task E t s) = fmupd (wt_node t) q (ho_writes s)"
    and q: "nw_pending q = filter (\<lambda>(_, _, i). i \<noteq> wt_id t) (nw_pending (writes_of (wt_node t) s))"
      "nw_inflight q = nw_inflight (writes_of (wt_node t) s) - 1"
      "nw_next_id q = nw_next_id (writes_of (wt_node t) s)"
    by (rule land_task_queues)
  have "queue_ok (writes_of (wt_node t) s) (t # ts)" using w ts by (metis wb_ok_def)
  from queue_ok_land [OF this q] have "queue_ok (writes_of k (land_task E t s)) (node_tasks k (land_task E t s))" for k
    using w n by (cases "k = wt_node t") (simp_all add: writes_of_def l(2) node_tasks_land wb_ok_def)
  moreover have "length (remove1 t (ho_tasks s)) \<le> length (ho_tasks s)" by (simp add: length_remove1)
  ultimately show "wb_ok (land_task E t s)"
    using w l(1) by (simp add: wb_ok_def) (meson notin_set_remove1 le_trans)
qed

lemma wb_ok_land_prefix:
  assumes "wb_ok s"
  shows "wb_ok (fold (land_task E) (take n (node_tasks k s)) s)"
    and "node_tasks k (fold (land_task E) (take n (node_tasks k s)) s) = drop n (node_tasks k s)"
proof -
  have "wb_ok (fold (land_task E) (take n ts) s) \<and> node_tasks k (fold (land_task E) (take n ts) s) = drop n ts"
    if "node_tasks k s = ts" for ts
    using assms that
  proof (induction ts arbitrary: s n)
    case (Cons t ts)
    have k: "wt_node t = k"
      using Cons.prems(2) by (auto simp: node_tasks_def filter_eq_Cons_iff)
    show ?case
    proof (cases n)
      case (Suc m)
      have "node_tasks (wt_node t) s = t # ts" using Cons.prems(2) k by simp
      note l = wb_ok_land [OF Cons.prems(1) this, of E, unfolded k]
      show ?thesis unfolding Suc take_Suc_Cons drop_Suc_Cons fold_Cons comp_apply by (rule Cons.IH [OF l])
    qed (use Cons.prems in simp)
  qed simp
  then show "wb_ok (fold (land_task E) (take n (node_tasks k s)) s)"
    and "node_tasks k (fold (land_task E) (take n (node_tasks k s)) s) = drop n (node_tasks k s)" by auto
qed

lemma drain_tasks_prefix:
  obtains n where "drain_tasks E k off lim ts s = fold (land_task E) (take n ts) s"
    "n \<ge> length ts \<or> \<not> blocking k off lim (drain_tasks E k off lim ts s)"
proof -
  have "\<exists>n. drain_tasks E k off lim ts s = fold (land_task E) (take n ts) s
    \<and> (n \<ge> length ts \<or> \<not> blocking k off lim (drain_tasks E k off lim ts s))"
  proof (induction ts arbitrary: s)
    case (Cons t ts)
    obtain n where n: "drain_tasks E k off lim ts (land_task E t s) = fold (land_task E) (take n ts) (land_task E t s)"
      "n \<ge> length ts \<or> \<not> blocking k off lim (drain_tasks E k off lim ts (land_task E t s))"
      using Cons.IH by blast
    show ?case
    proof (cases "blocking k off lim s")
      case True
      then show ?thesis using n by (intro exI [of _ "Suc n"]) auto
    qed (intro exI [of _ 0], simp)
  qed simp
  then show ?thesis using that by blast
qed

lemma sat_end_all: "sat_end 0 (- 1) = 2 ^ 64 - 1"
  by (simp add: sat_end_def unsigned_minus_1_eq_mask mask_eq_exp_minus_1)

text \<open>A batch in the queue overlaps the whole range.\<close>

lemma blocking_all:
  assumes "wb_ok s" "node_tasks k s \<noteq> []"
  shows "blocking k 0 (sat_end 0 (- 1)) s"
proof -
  obtain t ts where t: "node_tasks k s = t # ts" using assms(2) by (cases "node_tasks k s") auto
  then have "t \<in> set (ho_tasks s)" by (metis filter_is_subset list.set_intros(1) node_tasks_def subsetD)
  then have ok: "task_ok t" using assms(1) by (simp add: wb_ok_def)
  have "nw_pending (writes_of k s) = map task_batch (t # ts)"
    using assms(1) t by (metis wb_ok_def queue_ok_def)
  then have m: "task_batch t \<in> set (nw_pending (writes_of k s))" by simp
  have l: "unat (of_nat (length (wt_data t)) :: u64) = length (wt_data t)"
    using ok by (intro unat_of_nat_small) (simp_all add: task_ok_def)
  have p: "0 < length (wt_data t)" using ok by (simp add: task_ok_def)
  have "unat (wt_off t) < 2 ^ 64 - 1" using ok p unfolding task_ok_def by linarith
  then have "case task_batch t of (b_off, b_len, _) \<Rightarrow>
      unat b_off < sat_end 0 (- 1) \<and> unat b_off + unat b_len > 0"
    using l p by (simp add: task_batch_def sat_end_all)
  then show ?thesis unfolding blocking_def using m by (rule bexI)
qed

lemma drain_all:
  assumes "wb_ok s"
  shows "drain_tasks E k 0 (sat_end 0 (- 1)) (node_tasks k s) s = fold (land_task E) (node_tasks k s) s"
proof -
  let ?ts = "node_tasks k s" and ?d = "drain_tasks E k 0 (sat_end 0 (- 1)) (node_tasks k s) s"
  obtain n where n: "?d = fold (land_task E) (take n ?ts) s" "n \<ge> length ?ts \<or> \<not> blocking k 0 (sat_end 0 (- 1)) ?d"
    by (rule drain_tasks_prefix [of E k 0 "sat_end 0 (- 1)" ?ts s])
  have d: "wb_ok ?d" "node_tasks k ?d = drop n ?ts"
    unfolding n(1) by (rule wb_ok_land_prefix [OF assms])+
  have "n \<ge> length ?ts"
  proof (rule ccontr)
    assume l: "\<not> n \<ge> length ?ts"
    then have "node_tasks k ?d \<noteq> []" unfolding d(2) by simp
    from blocking_all [OF d(1) this] show False using n(2) l by blast
  qed
  then show ?thesis using n(1) by simp
qed

lemma wb_ok_put_same:
  assumes "wb_ok s" "nw_pending q = nw_pending (writes_of k s)" "nw_inflight q = nw_inflight (writes_of k s)"
    "nw_next_id q = nw_next_id (writes_of k s)"
  shows "wb_ok (put_writes k q s)"
proof -
  have "queue_ok (writes_of j (put_writes k q s)) (node_tasks j (put_writes k q s))" for j
  proof -
    have "queue_ok (writes_of j s) (node_tasks j s)" using assms(1) by (simp add: wb_ok_def)
    then show ?thesis
      using queue_ok_fields [OF _ assms(2-4)] by (simp add: put_writes_def node_tasks_def writes_of_def)
  qed
  then show ?thesis using assms(1) by (simp add: wb_ok_def put_writes_def)
qed

lemma drain_writes_range_eq:
  assumes "wb_ok s"
  shows "drain_writes_range E k off len s =
    (if node_tasks k s = [] then (None, s)
     else let s1 = drain_tasks E k (unat off) (sat_end off len) (node_tasks k s) s
          in (nw_err (writes_of k s1), put_writes k ((writes_of k s1)\<lparr>nw_err := None\<rparr>) s1))"
proof -
  have q: "unat (nw_inflight (writes_of k s)) = length (node_tasks k s)" using assms by (simp add: wb_ok_def queue_ok_def)
  show ?thesis
  proof (cases "fmlookup (ho_writes s) k")
    case None
    then have "node_tasks k s = []" using q by (simp add: writes_of_def node_writes_new_def)
    then show ?thesis using None by (simp add: drain_writes_range_def)
  next
    case (Some w)
    then have "unat (nw_inflight w) = length (node_tasks k s)" using q by (simp add: writes_of_def)
    then have "nw_inflight w > 0 \<longleftrightarrow> node_tasks k s \<noteq> []" 
      using unsigned_eq_0_iff [of "nw_inflight w", where 'a = nat] by (simp add: word_gt_0)
    then show ?thesis using Some by (simp add: drain_writes_range_def node_tasks_def Let_def)
  qed
qed

lemma wb_ok_drain_range:
  assumes "wb_ok s"
  shows "wb_ok (snd (drain_writes_range E k off len s))"
proof -
  obtain n where n: "drain_tasks E k (unat off) (sat_end off len) (node_tasks k s) s = fold (land_task E) (take n (node_tasks k s)) s"
    by (rule drain_tasks_prefix [of E k "unat off" "sat_end off len" "node_tasks k s" s])
  show ?thesis
    unfolding drain_writes_range_eq [OF assms] n
    using assms wb_ok_land_prefix(1) [OF assms, of E n k] by (simp add: Let_def wb_ok_put_same)
qed

definition all_landed :: "('t, 'g, 'h) env \<Rightarrow> node_key \<Rightarrow> ('t, 'g, 'h) host \<Rightarrow> ('t, 'g, 'h) host" where
  "all_landed E k s = fold (land_task E) (node_tasks k s) s"

lemma all_landed_ok:
  assumes "wb_ok s"
  shows "wb_ok (all_landed E k s)" "node_tasks k (all_landed E k s) = []"
  using wb_ok_land_prefix [OF assms, where E = E and n = "length (node_tasks k s)" and k = k] by (simp_all add: all_landed_def)

lemma drain_writes_eq:
  assumes "wb_ok s"
  shows "drain_writes E k s =
    (if node_tasks k s = [] then (None, s)
     else (nw_err (writes_of k (all_landed E k s)),
       put_writes k ((writes_of k (all_landed E k s))\<lparr>nw_err := None\<rparr>) (all_landed E k s)))"
  using drain_all [OF assms, of E k]
  by (simp add: drain_writes_def drain_writes_range_eq [OF assms] Let_def all_landed_def)

lemma node_tasks_put [simp]: "node_tasks j (put_writes k q s) = node_tasks j s"
  by (simp add: node_tasks_def put_writes_def)

lemma drain_writes_ok:
  assumes "wb_ok s"
  shows "wb_ok (snd (drain_writes E k s))" "node_tasks k (snd (drain_writes E k s)) = []"
  using assms all_landed_ok [OF assms, where E = E and k = k]
  by (simp_all add: drain_writes_eq [OF assms] wb_ok_put_same)

lemma acquire_slot_ok:
  assumes "wb_ok s"
  shows "wb_ok (acquire_slot E s)" "length (ho_tasks (acquire_slot E s)) < WRITE_BEHIND_SLOTS"
proof -
  have "wb_ok (acquire_slot E s) \<and> length (ho_tasks (acquire_slot E s)) < WRITE_BEHIND_SLOTS"
  proof (cases "ho_tasks s")
    case Nil
    then show ?thesis using assms by (simp add: acquire_slot_def WRITE_BEHIND_SLOTS_def)
  next
    case (Cons t ts)
    have n: "node_tasks (wt_node t) s = t # filter (\<lambda>x. wt_node x = wt_node t) ts"
      by (simp add: node_tasks_def Cons)
    have "ho_tasks (land_task E t s) = ts" by (rule land_task_queues [of E t s]) (simp add: Cons)
    then show ?thesis using Cons wb_ok_land(1) [OF assms n, of E] assms by (auto simp: acquire_slot_def wb_ok_def)
  qed
  then show "wb_ok (acquire_slot E s)" "length (ho_tasks (acquire_slot E s)) < WRITE_BEHIND_SLOTS" by auto
qed

text \<open>Every operation keeps the invariant.\<close>

named_theorems wb_intros

lemma wb_ok_guest: "same_guest s s' \<Longrightarrow> wb_ok s \<Longrightarrow> wb_ok s'"
  by (rule wb_ok_frame [OF same_guest_queues])

lemmas wb_ok_frames [wb_intros] =
  wb_ok_guest [OF frame_host_apply [OF same_guest_refl]] wb_ok_guest [OF frame_host_dirty [OF same_guest_refl]]
  wb_ok_guest [OF frame_host_conflict [OF same_guest_refl]] wb_ok_guest [OF frame_invalidate_cas [OF same_guest_refl]]
  wb_ok_guest [OF frame_note_write [OF same_guest_refl]] wb_ok_guest [OF frame_apply_mac_attr [OF same_guest_refl]]
  wb_ok_guest [OF frame_bump_dir [OF same_guest_refl]] wb_ok_guest [OF frame_finalize_stash [OF same_guest_refl]]
  wb_ok_guest [OF frame_next_ts [OF same_guest_refl]]
  wb_ok_frame [OF frame_mutate_kinds(1) [OF same_queues_refl]] wb_ok_frame [OF frame_mutate_kinds(2) [OF same_queues_refl]]
  wb_ok_frame [OF frame_mutate_kinds(3) [OF same_queues_refl]] wb_ok_frame [OF frame_write_through [OF same_queues_refl]]

lemma wb_ok_on_ok [wb_intros]:
  "wb_ok (snd x) \<Longrightarrow> (\<And>a s. wb_ok s \<Longrightarrow> wb_ok (snd (f a s))) \<Longrightarrow> wb_ok (snd (on_ok x f))"
  by (simp add: on_ok_def split: sum.split)

lemma wb_ok_drop_idle:
  assumes "wb_ok s" "\<And>k q. k \<in> D \<Longrightarrow> fmlookup (ho_writes s) k = Some q \<Longrightarrow> nw_inflight q = 0"
  shows "wb_ok (s\<lparr>ho_writes := fmfilter (\<lambda>k. k \<notin> D) (ho_writes s)\<rparr>)"
proof -
  let ?s = "s\<lparr>ho_writes := fmfilter (\<lambda>k. k \<notin> D) (ho_writes s)\<rparr>"
  have "queue_ok (writes_of k ?s) (node_tasks k ?s)" for k
  proof -
    have q: "queue_ok (writes_of k s) (node_tasks k s)" using assms(1) by (simp add: wb_ok_def)
    show ?thesis
    proof (cases "k \<in> D")
      case True
      have "nw_inflight (writes_of k s) = 0"
        using assms(2) [OF True] by (simp add: writes_of_def node_writes_new_def split: option.split)
      then have "node_tasks k s = []" using q by (simp add: queue_ok_def)
      then show ?thesis using True queue_ok_new by (simp add: writes_of_def node_tasks_def)
    next
      case False
      then show ?thesis using q by (simp add: writes_of_def node_tasks_def)
    qed
  qed
  then show ?thesis using assms(1) by (simp add: wb_ok_def)
qed

lemma fmfilter_neq: "fmfilter (\<lambda>x. x \<notin> {k}) m = fmdrop k m"
  by (rule fmap_ext) simp

lemma wb_ok_drop_one [wb_intros]:
  "wb_ok s \<Longrightarrow> fmlookup (ho_writes s) k = Some q \<Longrightarrow> nw_inflight q = 0 \<Longrightarrow> wb_ok (s\<lparr>ho_writes := fmdrop k (ho_writes s)\<rparr>)"
  using wb_ok_drop_idle [of s "{k}"] by (simp only: fmfilter_neq) auto

lemma wb_ok_reap [wb_intros]:
  assumes "wb_ok s"
  shows "wb_ok (reap_writes s)"
proof -
  define live where "live = (\<lambda>n. case fmlookup (ho_writes s) n of
       Some q \<Rightarrow> nw_inflight q > 0 \<or> (case nw_last_active q of Some t \<Rightarrow> ho_now s - t < WRITE_IDLE_REAP | None \<Rightarrow> False)
     | None \<Rightarrow> False)"
  have e: "(\<lambda>k. k \<notin> {n. \<not> live n}) = live" by simp
  have "reap_writes s = s\<lparr>ho_writes := fmfilter (\<lambda>k. k \<notin> {n. \<not> live n}) (ho_writes s)\<rparr>"
    unfolding e unfolding reap_writes_def live_def ..
  then show ?thesis using wb_ok_drop_idle [OF assms, of "{n. \<not> live n}"] by (auto simp: live_def word_gt_0)
qed

lemma wb_ok_put_fields [wb_intros]:
  assumes "wb_ok s" "fmlookup (ho_writes s) k = Some q"
  shows "wb_ok (put_writes k (q\<lparr>nw_dirty := b\<rparr>) s)"
  using assms by (intro wb_ok_put_same) (simp_all add: writes_of_def)

lemma wb_ok_enqueue:
  assumes "wb_ok s" "length (ho_tasks s) < WRITE_BEHIND_SLOTS" "data \<noteq> []" "unat off + length data < 2 ^ 64"
  shows "wb_ok (enqueue k off data s)"
proof -
  let ?q = "writes_of k s"
  let ?t = "\<lparr>wt_node = k, wt_off = off, wt_data = data, wt_id = nw_next_id ?q\<rparr>"
  let ?q' = "?q\<lparr>nw_last_active := Some (ho_now s), nw_inflight := nw_inflight ?q + 1, nw_dirty := True,
      nw_next_id := nw_next_id ?q + 1, nw_pending := nw_pending ?q @ [(off, of_nat (length data), nw_next_id ?q)],
      nw_stash := stash_write off data (nw_stash ?q)\<rparr>"
  let ?s = "s\<lparr>ho_writes := fmupd k ?q' (ho_writes s), ho_tasks := ho_tasks s @ [?t]\<rparr>"
  have "length (node_tasks k s) \<le> length (ho_tasks s)" by (simp add: node_tasks_def)
  then have l: "length (node_tasks k s) < 2 ^ 32 - 1" using assms(2) by (simp add: WRITE_BEHIND_SLOTS_def)
  have q: "queue_ok (writes_of j s) (node_tasks j s)" for j using assms(1) by (simp add: wb_ok_def)
  have "queue_ok ?q' (node_tasks k s @ [?t])"
    by (rule queue_ok_push [OF q l]) (simp_all add: task_batch_def)
  then have "queue_ok (writes_of j ?s) (node_tasks j ?s)" for j
    using q [of j] by (cases "j = k") (simp_all add: writes_of_def node_tasks_def)
  then have "wb_ok ?s" using assms by (simp add: wb_ok_def task_ok_def)
  then show ?thesis by (simp add: enqueue_def put_writes_def Let_def)
qed

lemma frame_write_queue: "same_guest (enqueue k off data s) (snd (write_queue E k off data a s))"
  by (simp add: write_queue_def Let_def case_prod_unfold frame)

lemma wb_ok_queue:
  assumes "wb_ok s" "length (ho_tasks s) < WRITE_BEHIND_SLOTS" "data \<noteq> []" "unat off + length data < 2 ^ 64"
  shows "wb_ok (snd (write_queue E k off data a s))"
  by (rule wb_ok_guest [OF frame_write_queue wb_ok_enqueue [OF assms]])

lemma frame_guest_read [frame]: "same_queues s s0 \<Longrightarrow> same_queues s (snd (guest_read E k off n s0))"
  by (auto simp: guest_read_def Let_def same_queues_def split: prod.split option.split)

lemma frame_manifest [frame]: "same_guest s s0 \<Longrightarrow> same_guest s (snd (manifest key cas s0))"
  by (simp add: manifest_def Let_def same_guest_def same_queues_def split: option.split)

lemma frame_chunk_hit: "same_guest s (snd (chunk_hit key cas co inner want s))"
  using frame_manifest [of s s key cas]
  by (auto simp: chunk_hit_def Let_def same_guest_def same_queues_def case_prod_unfold split: option.split)

lemma frame_chunk_recheck: "same_guest s (snd (chunk_recheck E key co inner want s))"
  by (auto simp: chunk_recheck_def Let_def same_guest_def same_queues_def case_prod_unfold split: option.split)

lemma frame_chunk_fetch: "same_queues s (snd (chunk_fetch E key k co cl inner want s))"
  unfolding chunk_fetch_def
  by (intro frame same_queues_refl) (auto simp: Let_def same_queues_def case_prod_unfold)

lemma frame_chunk_read [frame]:
  assumes "same_queues s s0"
  shows "same_queues s (snd (chunk_read E key cas k co cl inner want s0))"
proof -
  obtain b1 s1 where 1: "chunk_hit key cas co inner want s0 = (b1, s1)" by fastforce
  obtain b2 s2 where 2: "chunk_recheck E key co inner want s1 = (b2, s2)" by fastforce
  have "same_queues s s1" "same_queues s s2"
    using frame_chunk_hit [of s0 key cas co inner want] frame_chunk_recheck [of s1 E key co inner want] assms
    unfolding 1 2 by (auto simp: same_guest_def same_queues_def)
  then show ?thesis
    using frame_chunk_fetch [of s2 E key k co cl inner want] same_queues_trans
    by (auto simp: chunk_read_def 1 2 split: option.split)
qed

lemma frame_prefetch: "same_queues s (snd (u, prefetch E key k co sz s))"
  using frame_guest_read [of s s E k "of_nat co" "min CAS_CHUNK (sz - co)"]
  by (auto simp: prefetch_def Let_def same_queues_def split: option.split prod.split sum.split)

lemma frame_read_loop [frame]: "same_queues s s0 \<Longrightarrow> same_queues s (snd (read_loop fuel E key k sz lim pos data s0))"
proof (induction fuel arbitrary: pos data s0)
  case (Suc fuel)
  show ?case
    using Suc.prems by (auto simp: Let_def split: option.split intro!: frame Suc.IH)
qed simp

lemma frame_read_cached: "same_queues s (snd (ss_read_cached E cas k off cnt s))"
  by (auto simp: ss_read_cached_def Let_def case_prod_unfold simp del: read_loop.simps split: sum.split intro!: frame)

lemma frame_plain_read: "same_queues s (snd (on_ok (guest_read E k off n s) (\<lambda>(data, eof) s. (Ok (f data eof), s))))"
  by (intro frame) (auto simp: case_prod_unfold)

lemma frame_read_sendable: "same_guest s (snd (ss_read_sendable E s k off cnt))"
  using frame_manifest [of s s]
  by (auto simp: ss_read_sendable_def Let_def same_guest_def same_queues_def case_prod_unfold split: option.split sum.split)

lemma frame_read_into: "same_guest s (snd (ss_read_into E s k off cnt out))"
  using frame_chunk_hit [of s]
  by (auto simp: ss_read_into_def Let_def same_guest_def same_queues_def case_prod_unfold split: option.split sum.split)

lemma wb_ok_create [wb_intros]: "wb_ok s \<Longrightarrow> wb_ok (snd (ss_create E s dir nm k mode))"
  unfolding ss_create_def by (auto simp: Let_def case_prod_unfold intro!: wb_intros)

lemma wb_ok_remove [wb_intros]: "wb_ok s \<Longrightarrow> wb_ok (snd (ss_remove E s dir nm is_dir))"
  unfolding ss_remove_def by (auto simp: Let_def split: option.split sum.split if_split intro!: wb_intros)

lemma wb_ok_rename [wb_intros]: "wb_ok s \<Longrightarrow> wb_ok (snd (ss_rename E s fd fn td tn))"
  unfolding ss_rename_def by (auto simp: Let_def intro!: wb_intros)

lemma wb_ok_drained:
  assumes "wb_ok s" "drain_writes E k s = (r, s')"
  shows "wb_ok s'"
  using drain_writes_ok(1) [OF assms(1), of E k] assms(2) by simp

lemma wb_ok_setattr [wb_intros]:
  assumes "wb_ok s"
  shows "wb_ok (snd (ss_setattr E s k req))"
proof -
  obtain r s1 where d: "(if sa_size req \<noteq> None then drain_writes E k s else (None, s)) = (r, s1)" by fastforce
  then have "wb_ok s1" using assms wb_ok_drained by (auto split: if_splits)
  then show ?thesis unfolding ss_setattr_def d
    by (auto simp: Let_def split: option.split if_split intro!: wb_intros)
qed

lemma wb_ok_write_sync [wb_intros]:
  assumes "wb_ok s"
  shows "wb_ok (snd (write_sync E k off data s))"
proof -
  obtain r s1 where d: "drain_writes E k s = (r, s1)" by fastforce
  have "wb_ok s1" using wb_ok_drained [OF assms d] .
  then show ?thesis unfolding write_sync_def d
    by (auto simp: Let_def case_prod_unfold split: option.split if_split intro!: wb_intros)
qed

lemma wb_ok_write [wb_intros]:
  assumes "wb_ok s" "unat off + length data < 2 ^ 64"
  shows "wb_ok (snd (ss_write E s k off data sync))"
  unfolding ss_write_def
  using assms wb_ok_queue [OF acquire_slot_ok [OF assms(1)]] by (auto split: sum.split intro: wb_intros)

lemma wb_ok_commit_clean [wb_intros]: "wb_ok s \<Longrightarrow> wb_ok (snd (commit_clean k s))"
  by (auto simp: commit_clean_def split: option.split intro!: wb_intros)

lemma wb_ok_commit [wb_intros]:
  assumes "wb_ok s"
  shows "wb_ok (snd (ss_commit E s k off len))"
proof -
  obtain r s1 where d: "drain_writes_range E k off (if len = 0 then - 1 else len) s = (r, s1)" by fastforce
  obtain c s2 where c: "(if len = 0 then commit_clean k s1 else (False, s1)) = (c, s2)" by fastforce
  obtain a s3 where m: "mutate_attr E (ReqCommitRange (ho_share_id s2) k off len) s2 = (a, s3)" by fastforce
  have 1: "wb_ok s1" using wb_ok_drain_range [OF assms, of E k off] d by (metis snd_conv)
  then have 2: "wb_ok s2" using wb_ok_commit_clean [OF 1] c by (metis snd_conv)
  then have 3: "wb_ok s3" using wb_ok_frames(11) [OF 2] m by (metis snd_conv)
  show ?thesis unfolding ss_commit_def d
    using 1 2 3 by (auto simp: c m Let_def case_prod_unfold split: option.split sum.split if_split intro!: wb_intros)
qed

lemma wb_ok_read [wb_intros]:
  assumes "wb_ok s"
  shows "wb_ok (snd (ss_read E s k off cnt))"
proof -
  obtain r s1 where d: "drain_writes E k s = (r, s1)" by fastforce
  have 1: "wb_ok s1" using wb_ok_drained [OF assms d] .
  show ?thesis unfolding ss_read_def d
    using 1 wb_ok_frame [OF frame_read_cached 1] wb_ok_frame [OF frame_plain_read 1]
    by (auto simp: Let_def split: option.split)
qed

lemma wb_ok_land_first [wb_intros]: "wb_ok s \<Longrightarrow> node_tasks (wt_node t) s = t # ts \<Longrightarrow> wb_ok (land_task E t s)"
  by (rule wb_ok_land(1))

section \<open>Runs of a share\<close>

text \<open>
  The states of a share: requests in any order, the landing of the oldest batch of a node, the
  background work, and what others do to the rest of the state (the session applies journal
  records to the replica, the clocks advance, the guest works for others).
\<close>

inductive serves :: "('t, 'g, 'h::linorder) env \<Rightarrow> ('t, 'g, 'h) host \<Rightarrow> ('t, 'g, 'h) host \<Rightarrow> bool"
  for E :: "('t, 'g, 'h) env" and s0 :: "('t, 'g, 'h) host" where
  start: "serves E s0 s0"
| create: "serves E s0 s \<Longrightarrow> serves E s0 (snd (ss_create E s dir nm ck mode))"
| remove: "serves E s0 s \<Longrightarrow> serves E s0 (snd (ss_remove E s dir nm is_dir))"
| rename: "serves E s0 s \<Longrightarrow> serves E s0 (snd (ss_rename E s fd fn td tn))"
| setattr: "serves E s0 s \<Longrightarrow> serves E s0 (snd (ss_setattr E s k req))"
| write_step: "serves E s0 s \<Longrightarrow> unat off + length data < 2 ^ 64 \<Longrightarrow> serves E s0 (snd (ss_write E s k off data sync))"
| commit: "serves E s0 s \<Longrightarrow> serves E s0 (snd (ss_commit E s k off len))"
| read: "serves E s0 s \<Longrightarrow> serves E s0 (snd (ss_read E s k off cnt))"
| sendable: "serves E s0 s \<Longrightarrow> serves E s0 (snd (ss_read_sendable E s k off cnt))"
| read_into: "serves E s0 s \<Longrightarrow> serves E s0 (snd (ss_read_into E s k off cnt out))"
| touch_dir: "serves E s0 s \<Longrightarrow> serves E s0 (bump_dir E k s)"
| land: "serves E s0 s \<Longrightarrow> node_tasks (wt_node t) s = t # ts \<Longrightarrow> serves E s0 (land_task E t s)"
| reap: "serves E s0 s \<Longrightarrow> serves E s0 (reap_writes s)"
| cleanup: "serves E s0 s \<Longrightarrow> serves E s0 (commit_cleanup k s)"
| idle: "serves E s0 s \<Longrightarrow> serves E s0 (write_idle E k s)"
| readahead: "serves E s0 s \<Longrightarrow> serves E s0 (prefetch E key k co sz s)"
| others: "serves E s0 s \<Longrightarrow> same_queues s s' \<Longrightarrow> serves E s0 s'"

lemma serves_wb_ok: "serves E s0 s \<Longrightarrow> wb_ok s0 \<Longrightarrow> wb_ok s"
proof (induction rule: serves.induct)
  case (sendable s k off cnt)
  then show ?case using wb_ok_guest [OF frame_read_sendable] by blast
next
  case (read_into s k off cnt out)
  then show ?case using wb_ok_guest [OF frame_read_into] by blast
next
  case (cleanup s k)
  then show ?case by (auto simp: commit_cleanup_def split: option.split intro: wb_intros)
next
  case (readahead s key k co sz)
  then show ?case using wb_ok_frame [OF frame_prefetch] by auto
next
  case (others s s')
  then show ?case using wb_ok_frame by blast
qed (auto simp: write_idle_def intro: wb_intros)

end
