(* ===== verification/Share_Files.thy ===== *)
theory Share_Files
  imports Write_Behind
begin

text \<open>
  The contents of the files as the share shows them: those of the guest with the queued
  batches applied. Landing a batch does not change this view, a write changes it the way a
  write changes a file, and a drain makes the guest agree with it. The guest is a parameter;
  what is assumed of it, that it stores files, is the predicate \<open>file_guest\<close>.
\<close>

section \<open>Files of the guest\<close>

definition file_write :: "bytes \<Rightarrow> nat \<Rightarrow> bytes \<Rightarrow> bytes" where
  "file_write c off d =
     (if d = [] then c else take off c @ replicate (off - length c) 0 @ d @ drop (off + length d) c)"

definition file_guest :: "'g guest \<Rightarrow> ('g \<Rightarrow> node_key \<Rightarrow> bytes) \<Rightarrow> share_id \<Rightarrow> bool" where
  "file_guest G content share \<longleftrightarrow>
     (\<forall>g. g_up G g)
     \<and> (\<forall>g k off sync d. unat off + length d < 2 ^ 64 \<longrightarrow>
          (\<exists>a g'. g_call G g (ReqWrite share k off sync d) = (Some (RespAttr a), g')
             \<and> content g' = (content g)(k := file_write (content g k) (unat off) d)))
     \<and> (\<forall>g k. content (snd (g_call G g (ReqCommit share k))) = content g)
     \<and> (\<forall>g k off len. content (snd (g_call G g (ReqCommitRange share k off len))) = content g)
     \<and> (\<forall>g k off n. \<exists>eof g'. g_read G g share k off n = (Some (take (unat n) (drop (unat off) (content g k)), eof), g')
          \<and> content g' = content g)"

lemma file_write_Nil [simp]: "file_write c off [] = c"
  by (simp add: file_write_def)

lemma file_write_append: "file_write (file_write c off d) (off + length d) e = file_write c off (d @ e)"
proof (cases "d = [] \<or> e = []")
  case False
  let ?h = "take off c @ replicate (off - length c) 0 @ d"
  have h: "length ?h = off + length d" by simp
  have f: "file_write c off d = ?h @ drop (off + length d) c" using False by (simp add: file_write_def)
  have "take (off + length d) (?h @ drop (off + length d) c) = ?h" unfolding h [symmetric] by (rule append_eq_conv_conj [THEN iffD1, THEN conjunct1, symmetric]) simp
  moreover have "drop (off + length d + length e) (?h @ drop (off + length d) c) = drop (off + length d + length e) c"
    unfolding drop_append h by (simp add: add.commute)
  moreover have "off + length d - length (?h @ drop (off + length d) c) = 0" using h by simp
  ultimately show ?thesis
    unfolding f using False by (simp add: file_write_def [of _ _ e] file_write_def [of _ _ "d @ e"] add.assoc del: drop_append take_append)
qed auto

lemma concat_chunks: "n > 0 \<Longrightarrow> concat (chunks n xs) = xs"
  by (induction n xs rule: chunks.induct) (subst chunks.simps, simp)

section \<open>What a drain leaves alone\<close>

definition same_rest :: "('t, 'g, 'h) host \<Rightarrow> ('t, 'g, 'h) host \<Rightarrow> bool" where
  "same_rest s s' \<longleftrightarrow> s'\<lparr>ho_guest := ho_guest s, ho_writes := ho_writes s, ho_tasks := ho_tasks s\<rparr> = s"

lemma same_rest_iff:
  "same_rest s s' \<longleftrightarrow> ho_handle s' = ho_handle s \<and> ho_share_id s' = ho_share_id s \<and> ho_root s' = ho_root s
     \<and> ho_squash_uid s' = ho_squash_uid s \<and> ho_squash_gid s' = ho_squash_gid s \<and> ho_manifests s' = ho_manifests s
     \<and> ho_cas s' = ho_cas s \<and> ho_mac_dirty s' = ho_mac_dirty s \<and> ho_conflicts s' = ho_conflicts s
     \<and> ho_guest_reads s' = ho_guest_reads s \<and> ho_now s' = ho_now s \<and> ho_unix s' = ho_unix s \<and> ho_clock s' = ho_clock s"
  by (cases s; cases s') (auto simp: same_rest_def)

lemma same_rest_refl [simp]: "same_rest s s"
  by (simp add: same_rest_iff)

lemma same_rest_trans: "same_rest s s' \<Longrightarrow> same_rest s' s'' \<Longrightarrow> same_rest s s''"
  by (simp add: same_rest_iff)

lemma same_rest_update [simp]:
  "same_rest s (s'\<lparr>ho_guest := g\<rparr>) = same_rest s s'" "same_rest s (s'\<lparr>ho_writes := w\<rparr>) = same_rest s s'"
  "same_rest s (s'\<lparr>ho_tasks := ts\<rparr>) = same_rest s s'" "same_rest s (put_writes k q s') = same_rest s s'"
  by (simp_all add: same_rest_iff put_writes_def)

lemma same_rest_mutate_attr: "same_rest s (snd (mutate_attr E req s))"
  by (simp add: mutate_attr_def mutate_def on_ok_def Let_def case_prod_unfold split: sum.split rpc_resp.split option.split)

lemma same_rest_write_chunks: "same_rest s s0 \<Longrightarrow> same_rest s (snd (write_chunks E k off cs s0))"
  by (induction cs arbitrary: off s0) (simp_all add: Let_def case_prod_unfold)

lemma same_rest_land: "same_rest s (land_task E t s)"
proof (rule land_task_split [of E t s])
  fix res s1 s2
  assume "write_through E (wt_node t) (wt_off t) (wt_data t) s = (res, s1)"
    and s2: "s2 = s1\<lparr>ho_writes := fmupd (wt_node t) (fst (land_queue res t (writes_of (wt_node t) s))) (ho_writes s),
            ho_tasks := remove1 t (ho_tasks s)\<rparr>"
    and l: "land_task E t s = s2 \<or> land_task E t s = snd (mutate_attr E (ReqCommit (ho_share_id s) (wt_node t)) s2)"
  then have "same_rest s s1"
    using same_rest_write_chunks [of s s E "wt_node t" "wt_off t" "chunks WRITE_CHUNK (wt_data t)"]
    by (auto simp: write_through_def split: if_splits)
  then have "same_rest s s2" by (simp add: s2)
  then show "same_rest s (land_task E t s)" using l same_rest_mutate_attr same_rest_trans by metis
qed

lemma same_rest_lands: "same_rest s (fold (land_task E) ts s)"
proof (induction ts arbitrary: s)
  case (Cons t ts)
  show ?case using same_rest_trans [OF same_rest_land Cons.IH] by simp
qed simp

lemma same_rest_drain:
  assumes "wb_ok s"
  shows "same_rest s (snd (drain_writes E k s))"
  by (simp add: drain_writes_eq [OF assms] all_landed_def same_rest_lands)

section \<open>The contents seen through the share\<close>

definition task_write :: "wb_task \<Rightarrow> bytes \<Rightarrow> bytes" where
  "task_write t c = file_write c (unat (wt_off t)) (wt_data t)"

definition file_view :: "('g \<Rightarrow> node_key \<Rightarrow> bytes) \<Rightarrow> ('t, 'g, 'h) host \<Rightarrow> node_key \<Rightarrow> bytes" where
  "file_view content s k = fold task_write (node_tasks k s) (content (ho_guest s) k)"

definition healthy :: "('t, 'g, 'h) env \<Rightarrow> ('g \<Rightarrow> node_key \<Rightarrow> bytes) \<Rightarrow> ('t, 'g, 'h) host \<Rightarrow> bool" where
  "healthy E content s \<longleftrightarrow> file_guest (en_guest E) content (ho_share_id s) \<and> wb_ok s
     \<and> (\<forall>k. nw_err (writes_of k s) = None)"

lemma file_guest_write:
  assumes "file_guest G content share" "unat off + length d < 2 ^ 64"
  obtains a g' where "g_call G g (ReqWrite share k off sync d) = (Some (RespAttr a), g')"
    "content g' = (content g)(k := file_write (content g k) (unat off) d)"
  using assms unfolding file_guest_def by blast

lemma write_chunks_content:
  assumes "file_guest (en_guest E) content (ho_share_id s)" "unat off + length (concat cs) < 2 ^ 64"
  shows "fst (write_chunks E k off cs s) = Ok ()"
    and "content (ho_guest (snd (write_chunks E k off cs s))) =
      (content (ho_guest s))(k := file_write (content (ho_guest s) k) (unat off) (concat cs))"
proof -
  have "fst (write_chunks E k off cs s) = Ok () \<and> content (ho_guest (snd (write_chunks E k off cs s))) =
      (content (ho_guest s))(k := file_write (content (ho_guest s) k) (unat off) (concat cs))"
    using assms
  proof (induction cs arbitrary: off s)
    case (Cons c cs)
    have c: "unat off + length c < 2 ^ 64" using Cons.prems(2) by simp
    obtain a g' where w: "g_call (en_guest E) (ho_guest s) (ReqWrite (ho_share_id s) k off False c) = (Some (RespAttr a), g')"
      "content g' = (content (ho_guest s))(k := file_write (content (ho_guest s) k) (unat off) c)"
      by (rule file_guest_write [OF Cons.prems(1) c])
    have u: "unat (off + of_nat (length c)) = unat off + length c"
      using c by (simp add: unat_word_ariths(1) unat_of_nat_small)
    obtain r s1 where r: "write_chunks E k (off + of_nat (length c)) cs (s\<lparr>ho_guest := g'\<rparr>) = (r, s1)" by fastforce
    have "r = Ok () \<and> content (ho_guest s1) =
        (content g')(k := file_write (content g' k) (unat off + length c) (concat cs))"
      using Cons.IH [of "s\<lparr>ho_guest := g'\<rparr>" "off + of_nat (length c)"] Cons.prems c by (simp add: r u fun_upd_def)
    then show ?case using w(2) by (simp add: w(1) r Let_def write_reply_of_def file_write_append)
  qed simp
  then show "fst (write_chunks E k off cs s) = Ok ()"
    and "content (ho_guest (snd (write_chunks E k off cs s))) =
      (content (ho_guest s))(k := file_write (content (ho_guest s) k) (unat off) (concat cs))" by auto
qed

lemma write_through_content:
  assumes "file_guest (en_guest E) content (ho_share_id s)" "unat off + length d < 2 ^ 64"
  shows "fst (write_through E k off d s) = Ok ()"
    and "content (ho_guest (snd (write_through E k off d s))) =
      (content (ho_guest s))(k := file_write (content (ho_guest s) k) (unat off) d)"
  using write_chunks_content [OF assms(1), of off "chunks WRITE_CHUNK d"] assms
  by (simp_all add: write_through_def file_guest_def concat_chunks WRITE_CHUNK_def)

lemma mutate_attr_commit_content:
  assumes "file_guest (en_guest E) content (ho_share_id s)"
    "req = ReqCommit (ho_share_id s) k \<or> req = ReqCommitRange (ho_share_id s) k off len"
  shows "content (ho_guest (snd (mutate_attr E req s))) = content (ho_guest s)"
proof -
  have "content (snd (g_call (en_guest E) (ho_guest s) req)) = content (ho_guest s)"
    using assms by (auto simp: file_guest_def)
  moreover obtain r g where "g_call (en_guest E) (ho_guest s) req = (r, g)" by fastforce
  moreover have "ho_guest (snd (mutate_attr E req s)) = ho_guest (snd (mutate E req s))"
    by (simp add: mutate_attr_def on_ok_def split: sum.split rpc_resp.split)
  ultimately show ?thesis by (simp add: mutate_def Let_def split: option.split rpc_resp.split)
qed

lemma land_task_content:
  assumes "file_guest (en_guest E) content (ho_share_id s)" "task_ok t"
  shows "content (ho_guest (land_task E t s)) =
      (content (ho_guest s))(wt_node t := task_write t (content (ho_guest s) (wt_node t)))"
    and "nw_err (writes_of k (land_task E t s)) = nw_err (writes_of k s)"
proof (atomize (full), rule land_task_split [of E t s])
  fix res s1 s2
  assume w: "write_through E (wt_node t) (wt_off t) (wt_data t) s = (res, s1)"
    and s2: "s2 = s1\<lparr>ho_writes := fmupd (wt_node t) (fst (land_queue res t (writes_of (wt_node t) s))) (ho_writes s),
            ho_tasks := remove1 t (ho_tasks s)\<rparr>"
    and l: "land_task E t s = s2 \<or> land_task E t s = snd (mutate_attr E (ReqCommit (ho_share_id s) (wt_node t)) s2)"
  note c = write_through_content [OF assms(1), of "wt_off t" "wt_data t" "wt_node t"]
  have r: "res = Ok ()" "content (ho_guest s1) =
      (content (ho_guest s))(wt_node t := task_write t (content (ho_guest s) (wt_node t)))"
    using c assms(2) unfolding w by (simp_all add: task_ok_def task_write_def)
  have sh: "ho_share_id s2 = ho_share_id s"
    using frame_write_through [of s s E "wt_node t" "wt_off t" "wt_data t"] w by (simp add: s2 same_queues_def)
  have g: "content (ho_guest (land_task E t s)) = content (ho_guest s2)"
    using l mutate_attr_commit_content [of E content s2 "ReqCommit (ho_share_id s) (wt_node t)" "wt_node t"] assms(1) sh
    by auto
  have "ho_writes (land_task E t s) = ho_writes s2"
    using l frame_commit_call [of s2 E "ReqCommit (ho_share_id s) (wt_node t)"] by (auto simp: same_queues_def)
  then have "nw_err (writes_of k (land_task E t s)) = nw_err (writes_of k s)"
    using land_queue_fields(6) [of res t "writes_of (wt_node t) s"] r(1) by (auto simp: writes_of_def s2)
  then show "content (ho_guest (land_task E t s)) =
      (content (ho_guest s))(wt_node t := task_write t (content (ho_guest s) (wt_node t))) \<and>
      nw_err (writes_of k (land_task E t s)) = nw_err (writes_of k s)"
    using g r(2) by (simp add: s2)
qed

lemma healthy_land:
  assumes h: "healthy E content s" and t: "node_tasks (wt_node t) s = t # ts"
  shows "healthy E content (land_task E t s)" "file_view content (land_task E t s) = file_view content s"
proof -
  have w: "wb_ok s" and f: "file_guest (en_guest E) content (ho_share_id s)" using h by (auto simp: healthy_def)
  have ok: "task_ok t"
    using w t by (metis filter_is_subset list.set_intros(1) node_tasks_def subsetD wb_ok_def)
  have "ho_share_id (land_task E t s) = ho_share_id s" by (rule land_task_queues)
  then show "healthy E content (land_task E t s)"
    using h wb_ok_land(1) [OF w t] land_task_content(2) [OF f ok] by (simp add: healthy_def)
  show "file_view content (land_task E t s) = file_view content s"
    using t land_task_content(1) [OF f ok] by (auto simp: file_view_def node_tasks_land fun_eq_iff)
qed

lemma healthy_landed:
  assumes "healthy E content s"
  shows "healthy E content (all_landed E k s)" "file_view content (all_landed E k s) = file_view content s"
proof -
  have "healthy E content (fold (land_task E) ts s) \<and> file_view content (fold (land_task E) ts s) = file_view content s"
    if "node_tasks k s = ts" for ts
    using assms that
  proof (induction ts arbitrary: s)
    case (Cons t ts)
    have k: "wt_node t = k" using Cons.prems(2) by (auto simp: node_tasks_def filter_eq_Cons_iff)
    have t: "node_tasks (wt_node t) s = t # ts" using Cons.prems(2) k by simp
    have w: "wb_ok s" using Cons.prems(1) by (simp add: healthy_def)
    show ?case
      using Cons.IH [OF healthy_land(1) [OF Cons.prems(1) t]] wb_ok_land(2) [OF w t, of E] healthy_land(2) [OF Cons.prems(1) t]
      by (simp add: k)
  qed simp
  then show "healthy E content (all_landed E k s)" "file_view content (all_landed E k s) = file_view content s"
    by (auto simp: all_landed_def)
qed

lemma healthy_drain:
  assumes h: "healthy E content s"
  obtains s' where "drain_writes E k s = (None, s')" "healthy E content s'" "file_view content s' = file_view content s"
    "node_tasks k s' = []" "content (ho_guest s') k = file_view content s k"
proof -
  have w: "wb_ok s" using h by (simp add: healthy_def)
  define s' where "s' = snd (drain_writes E k s)"
  have h1: "healthy E content (all_landed E k s)" by (rule healthy_landed(1) [OF h])
  then have e: "nw_err (writes_of k (all_landed E k s)) = None" by (simp add: healthy_def)
  have n: "node_tasks k s' = []" "wb_ok s'" unfolding s'_def by (rule drain_writes_ok [OF w])+
  have d: "drain_writes E k s = (None, s')" using e by (simp add: s'_def drain_writes_eq [OF w])
  have s': "s' = s \<or> s' = put_writes k ((writes_of k (all_landed E k s))\<lparr>nw_err := None\<rparr>) (all_landed E k s)"
    by (simp add: s'_def drain_writes_eq [OF w])
  then have "healthy E content s'"
    using h h1 n(2) by (auto simp: healthy_def put_writes_def writes_of_def)
  moreover have v: "file_view content s' = file_view content s"
    using s' healthy_landed(2) [OF h, of k] by (auto simp: file_view_def put_writes_def node_tasks_def fun_eq_iff)
  moreover have "content (ho_guest s') k = file_view content s k"
    using n(1) by (simp add: v [symmetric] file_view_def)
  ultimately show ?thesis using that d n(1) by blast
qed

lemma healthy_frame:
  assumes "same_guest s s'" "healthy E content s"
  shows "healthy E content s'" "file_view content s' = file_view content s"
  using assms wb_ok_guest [OF assms(1)]
  by (auto simp: healthy_def file_view_def same_guest_def same_queues_def writes_of_def node_tasks_def)

lemma on_ok_cases:
  assumes "on_ok x f = (Ok b, s')"
  obtains a s where "x = (Ok a, s)" "f a s = (Ok b, s')"
  using assms by (cases x) (auto simp: on_ok_def split: sum.splits)

lemma healthy_acquire:
  assumes h: "healthy E content s"
  shows "healthy E content (acquire_slot E s)" "file_view content (acquire_slot E s) = file_view content s"
proof -
  have "healthy E content (acquire_slot E s) \<and> file_view content (acquire_slot E s) = file_view content s"
  proof (cases "ho_tasks s")
    case (Cons t ts)
    have "node_tasks (wt_node t) s = t # filter (\<lambda>x. wt_node x = wt_node t) ts" by (simp add: node_tasks_def Cons)
    from healthy_land [OF h this] show ?thesis using h Cons by (simp add: acquire_slot_def)
  qed (use h in \<open>simp add: acquire_slot_def\<close>)
  then show "healthy E content (acquire_slot E s)" "file_view content (acquire_slot E s) = file_view content s" by auto
qed

lemma healthy_enqueue:
  assumes h: "healthy E content s" and b: "length (ho_tasks s) < WRITE_BEHIND_SLOTS" "data \<noteq> []" "unat off + length data < 2 ^ 64"
  shows "healthy E content (enqueue k off data s)"
    and "file_view content (enqueue k off data s) =
      (file_view content s)(k := file_write (file_view content s k) (unat off) data)"
proof -
  have "wb_ok (enqueue k off data s)" using wb_ok_enqueue [OF _ b] h by (simp add: healthy_def)
  then show "healthy E content (enqueue k off data s)"
    using h by (simp add: healthy_def enqueue_def Let_def writes_of_def put_writes_def split: option.split)
  show "file_view content (enqueue k off data s) =
      (file_view content s)(k := file_write (file_view content s k) (unat off) data)"
    by (auto simp: file_view_def node_tasks_def task_write_def enqueue_def Let_def put_writes_def fun_eq_iff)
qed

lemma healthy_queue:
  assumes h: "healthy E content s" and b: "length (ho_tasks s) < WRITE_BEHIND_SLOTS" "data \<noteq> []" "unat off + length data < 2 ^ 64"
  shows "healthy E content (snd (write_queue E k off data a s))"
    and "file_view content (snd (write_queue E k off data a s)) =
      (file_view content s)(k := file_write (file_view content s k) (unat off) data)"
  using healthy_frame [OF frame_write_queue healthy_enqueue(1) [OF h b]] healthy_enqueue(2) [OF h b] by auto

lemma healthy_mutated:
  assumes h: "healthy E content s" and n: "node_tasks k s = []" and f: "same_queues s s'"
    and c: "content (ho_guest s') = (content (ho_guest s))(k := file_write (content (ho_guest s) k) off d)"
  shows "healthy E content s'" "file_view content s' = (file_view content s)(k := file_write (file_view content s k) off d)"
proof -
  show "healthy E content s'"
    using h wb_ok_frame [OF f] f by (auto simp: healthy_def same_queues_def writes_of_def)
  show "file_view content s' = (file_view content s)(k := file_write (file_view content s k) off d)"
    using f n c by (auto simp: file_view_def same_queues_def node_tasks_def fun_eq_iff)
qed

lemma mutate_attr_write_content:
  assumes "file_guest (en_guest E) content (ho_share_id s)" "unat off + length d < 2 ^ 64"
  shows "content (ho_guest (snd (mutate_attr E (ReqWrite (ho_share_id s) k off sync d) s))) =
    (content (ho_guest s))(k := file_write (content (ho_guest s) k) (unat off) d)"
proof -
  obtain a g' where "g_call (en_guest E) (ho_guest s) (ReqWrite (ho_share_id s) k off sync d) = (Some (RespAttr a), g')"
    "content g' = (content (ho_guest s))(k := file_write (content (ho_guest s) k) (unat off) d)"
    by (rule file_guest_write [OF assms])
  moreover have "g_up (en_guest E) (ho_guest s)" using assms(1) by (simp add: file_guest_def)
  ultimately show ?thesis by (simp add: mutate_attr_def mutate_def on_ok_def Let_def)
qed

lemma healthy_write_sync:
  assumes h: "healthy E content s" and b: "unat off + length data < 2 ^ 64"
    and w: "write_sync E k off data s = (Ok a, s')"
  shows "healthy E content s' \<and>
    file_view content s' = (file_view content s)(k := file_write (file_view content s k) (unat off) data)"
proof -
  obtain s1 where d: "drain_writes E k s = (None, s1)" and h1: "healthy E content s1"
    and v: "file_view content s1 = file_view content s" and n: "node_tasks k s1 = []"
    by (rule healthy_drain [OF h])
  have fg: "file_guest (en_guest E) content (ho_share_id s1)" using h1 by (simp add: healthy_def)
  let ?m = "if length data \<le> WRITE_CHUNK \<and> data \<noteq> [] then mutate_attr E (ReqWrite (ho_share_id s1) k off True data) s1
    else on_ok (write_through E k off data s1) (\<lambda>_ s. mutate_attr E (ReqCommit (ho_share_id s) k) s)"
  have "on_ok ?m (\<lambda>a s. let s = note_write E k s; (a, s) = apply_mac_attr E k a s in (Ok (squash s a), s)) = (Ok a, s')"
    using w by (simp add: write_sync_def d)
  then obtain a0 s2 where m: "?m = (Ok a0, s2)"
      "(let s = note_write E k s2; (a, s) = apply_mac_attr E k a0 s in (Ok (squash s a) :: attr nfs_result, s)) = (Ok a, s')"
    by (rule on_ok_cases)
  have f: "same_queues s1 s2 \<and> content (ho_guest s2) = (content (ho_guest s1))(k := file_write (content (ho_guest s1) k) (unat off) data)"
  proof (cases "length data \<le> WRITE_CHUNK \<and> data \<noteq> []")
    case True
    then show ?thesis
      using m(1) frame_commit_call [of s1] mutate_attr_write_content [OF fg b, of k True] by (metis snd_conv)
  next
    case False
    obtain u s3 where t: "write_through E k off data s1 = (u, s3)" by fastforce
    have 3: "same_queues s1 s3" "u = Ok ()"
      "content (ho_guest s3) = (content (ho_guest s1))(k := file_write (content (ho_guest s1) k) (unat off) data)"
      using frame_write_through [of s1 s1 E k off data] write_through_content [OF fg b, of k] t by auto
    have "snd (mutate_attr E (ReqCommit (ho_share_id s3) k) s3) = s2" using m(1) False t 3(2) by (auto simp: on_ok_def)
    moreover have "file_guest (en_guest E) content (ho_share_id s3)" using fg 3(1) by (simp add: same_queues_def)
    ultimately show ?thesis
      using frame_commit_call [of s3 E "ReqCommit (ho_share_id s3) k"] 3(1,3)
        mutate_attr_commit_content [of E content s3 "ReqCommit (ho_share_id s3) k" k] same_queues_trans by auto
  qed
  then have h2: "healthy E content s2"
      "file_view content s2 = (file_view content s1)(k := file_write (file_view content s1 k) (unat off) data)"
    using healthy_mutated [OF h1 n] by auto
  have "same_guest s2 s'"
    using m(2) frame_apply_mac_attr [of s2 "note_write E k s2" E k a0] by (auto simp: case_prod_unfold Let_def frame)
  from healthy_frame [OF this h2(1)] show ?thesis using h2(2) v by simp
qed

lemma healthy_guest_read:
  fixes n :: u32
  assumes h: "healthy E content s"
  obtains eof s' where "guest_read E k off (unat n) s = (Ok (take (unat n) (drop (unat off) (content (ho_guest s) k)), eof), s')"
    "healthy E content s'" "file_view content s' = file_view content s"
proof -
  have fg: "file_guest (en_guest E) content (ho_share_id s)" "wb_ok s" using h by (auto simp: healthy_def)
  obtain eof g where g: "g_read (en_guest E) (ho_guest s) (ho_share_id s) k off n =
      (Some (take (unat n) (drop (unat off) (content (ho_guest s) k)), eof), g)" "content g = content (ho_guest s)"
    using fg(1) unfolding file_guest_def by metis
  have u: "g_up (en_guest E) (ho_guest s)" using fg(1) by (simp add: file_guest_def)
  define s' where "s' = snd (guest_read E k off (unat n) s)"
  have s': "same_queues s s'" "content (ho_guest s') = content (ho_guest s)"
    using frame_guest_read [of s s E k off "unat n"] u g by (simp_all add: s'_def guest_read_def)
  show ?thesis
  proof (rule that)
    show "guest_read E k off (unat n) s = (Ok (take (unat n) (drop (unat off) (content (ho_guest s) k)), eof), s')"
      using u g by (simp add: s'_def guest_read_def)
    show "healthy E content s'"
      using h wb_ok_frame [OF s'(1)] s'(1) by (auto simp: healthy_def same_queues_def writes_of_def)
    show "file_view content s' = file_view content s"
      using s' by (simp add: file_view_def same_queues_def node_tasks_def fun_eq_iff)
  qed
qed

lemma all_landed_others:
  assumes "j \<noteq> k"
  shows "node_tasks j (all_landed E k s) = node_tasks j s"
proof -
  have "node_tasks j (fold (land_task E) ts s) = node_tasks j s" if "\<forall>t \<in> set ts. wt_node t = k" for ts
    using that assms by (induction ts arbitrary: s) (simp_all add: node_tasks_land)
  then show ?thesis by (simp add: all_landed_def node_tasks_def [of k])
qed

lemma commit_tasks:
  assumes "drain_writes E k s = (r, s1)"
  shows "ho_tasks (snd (ss_commit E s k 0 0)) = ho_tasks s1"
proof -
  obtain c s2 where c: "commit_clean k s1 = (c, s2)" by fastforce
  obtain a s3 where m: "mutate_attr E (ReqCommitRange (ho_share_id s2) k 0 0) s2 = (a, s3)" by fastforce
  have t: "ho_tasks s2 = ho_tasks s1" using c by (auto simp: commit_clean_def put_writes_def split: option.splits)
  have t3: "ho_tasks s3 = ho_tasks s2" using frame_commit_call [of s2 E] m by (metis same_queues_def snd_conv)
  have f: "same_guest s3 (finalize_stash E k (snd (apply_mac_attr E k x (host_dirty k s3))))"
    "same_guest s3 (snd (apply_mac_attr E k x (host_dirty k s3)))" for x
    by (simp_all add: frame)
  show ?thesis unfolding ss_commit_def drain_writes_def [symmetric] if_P [OF refl] assms
    using t t3 f
    by (auto simp: c m Let_def case_prod_unfold put_writes_def same_guest_def same_queues_def split: option.split sum.split)
qed

end
