(* ===== verification/Share_Props.thy ===== *)
theory Share_Props
  imports Share_Files Samples
begin

text \<open>
  Properties of the write-behind queues and of the file contents behind them, with a sample
  share on which their hypotheses hold.
\<close>

section \<open>A sample share\<close>

text \<open>A guest that keeps its files in a function.\<close>

definition mem_guest :: "(node_key \<Rightarrow> bytes) guest" where
  "mem_guest = \<lparr>g_up = (\<lambda>_. True),
     g_call = (\<lambda>g req. (Some (RespAttr file_attr),
        case req of ReqWrite _ k off _ d \<Rightarrow> g(k := file_write (g k) (unat off) d) | _ \<Rightarrow> g)),
     g_read = (\<lambda>g _ k off n. (Some (take (unat n) (drop (unat off) (g k)), True), g))\<rparr>"

text \<open>A guest whose disk is full: writes fail, the rest succeeds.\<close>

definition full_guest :: "(node_key \<Rightarrow> bytes) guest" where
  "full_guest = mem_guest\<lparr>g_call := (\<lambda>g req. (Some (case req of ReqWrite _ _ _ _ _ \<Rightarrow> RespErr \<lparr>re_errno = 28, re_msg = []\<rparr>
     | _ \<Rightarrow> RespAttr file_attr), g))\<rparr>"

definition sample_env :: "(node_key \<Rightarrow> bytes) guest \<Rightarrow> ((u64 \<times> u32) list, node_key \<Rightarrow> bytes, nat) env" where
  "sample_env G = \<lparr>en_index = list_index, en_guest = G, en_hash = (\<lambda>_. 0), en_lossy = id, en_sendfile = False\<rparr>"

definition sample_host :: "((u64 \<times> u32) list, node_key \<Rightarrow> bytes, nat) host" where
  "sample_host = \<lparr>ho_handle = \<lparr>sh_info = sample_info, sh_replica = sample_rep\<rparr>, ho_share_id = 0, ho_root = nk 2,
     ho_squash_uid = 501, ho_squash_gid = 20, ho_writes = fmempty, ho_tasks = [], ho_manifests = fmempty, ho_cas = None,
     ho_mac_dirty = fmempty, ho_conflicts = tracker_default, ho_guest_reads = (0, 0), ho_guest = (\<lambda>_. []), ho_now = 0,
     ho_unix = 0, ho_clock = 0\<rparr>"

lemma mem_guest_files: "file_guest mem_guest (\<lambda>g. g) share"
  by (auto simp: file_guest_def mem_guest_def)

lemma wb_ok_empty: "ho_writes s = fmempty \<Longrightarrow> ho_tasks s = [] \<Longrightarrow> wb_ok s"
  using queue_ok_new by (simp add: wb_ok_def writes_of_def node_tasks_def)

lemma sample_healthy: "healthy (sample_env mem_guest) (\<lambda>g. g) sample_host"
  using mem_guest_files wb_ok_empty [of sample_host]
  by (simp add: healthy_def sample_env_def sample_host_def writes_of_def node_writes_new_def)

lemma sample_getattr: "rep_getattr sample_rep (nk 10) = Ok file_attr"
  by code_simp


text \<open>
  C13. A COMMIT of a whole file comes back with every batch of that file landed, whatever the
  guest answers, and lets the batches of other files fly on.
\<close>

theorem share_commit_drains:
  assumes "wb_ok s"
  shows "node_tasks k (snd (ss_commit E s k 0 0)) = []
    \<and> (\<forall>j. j \<noteq> k \<longrightarrow> node_tasks j (snd (ss_commit E s k 0 0)) = node_tasks j s)"
proof -
  obtain r s1 where d: "drain_writes E k s = (r, s1)" by fastforce
  have n: "node_tasks j (snd (ss_commit E s k 0 0)) = node_tasks j s1" for j
    using commit_tasks [OF d] by (rule node_tasks_cong)
  have "node_tasks k s1 = []" using drain_writes_ok(2) [OF assms, of k E] d by simp
  moreover have "node_tasks j s1 = node_tasks j s" if "j \<noteq> k" for j
    using d all_landed_others [OF that, of E s] by (auto simp: drain_writes_eq [OF assms] split: if_splits)
  ultimately show ?thesis using n by simp
qed



lemma sample_write:
  obtains a s' where "ss_write (sample_env G) sample_host (nk 10) 0 [1, 2, 3] False = (Ok a, s')"
    "ho_tasks s' = [\<lparr>wt_node = nk 10, wt_off = 0, wt_data = [1, 2, 3], wt_id = 0\<rparr>]" "wb_ok s'"
    "nw_err (writes_of (nk 10) s') = None"
    "nw_dirty (writes_of (nk 10) s')"
proof -
  let ?E = "sample_env G" and ?s = "acquire_slot (sample_env G) sample_host"
  have "rep_getattr (ho_replica sample_host) (nk 10) = Ok file_attr"
    using sample_getattr by (simp add: ho_replica_def sample_host_def)
  then have e: "ss_write ?E sample_host (nk 10) 0 [1, 2, 3] False = write_queue ?E (nk 10) 0 [1, 2, 3] file_attr ?s"
    by (simp add: ss_write_def)
  have s: "?s = sample_host" by (simp add: acquire_slot_def sample_host_def)
  have "wb_ok sample_host" by (rule wb_ok_empty) (simp_all add: sample_host_def)
  from wb_ok_write [OF this, of 0 "[1, 2, 3]" ?E "nk 10" False] 
  have w: "wb_ok (snd (write_queue ?E (nk 10) 0 [1, 2, 3] file_attr ?s))" by (simp add: e)
  have f: "same_guest (enqueue (nk 10) 0 [1, 2, 3] sample_host) (snd (write_queue ?E (nk 10) 0 [1, 2, 3] file_attr ?s))"
    unfolding s by (rule frame_write_queue)
  obtain a where a: "fst (write_queue ?E (nk 10) 0 [1, 2, 3] file_attr ?s) = Ok a"
    by (simp add: write_queue_def Let_def case_prod_unfold)
  show ?thesis
  proof (rule that)
    show "ss_write ?E sample_host (nk 10) 0 [1, 2, 3] False = (Ok a, snd (write_queue ?E (nk 10) 0 [1, 2, 3] file_attr ?s))"
      using e a by (simp add: prod_eq_iff)
  qed (use w f in \<open>auto simp: same_guest_def same_queues_def enqueue_def Let_def put_writes_def sample_host_def
       writes_of_def node_writes_new_def\<close>)
qed

lemma sample_view: "file_view (\<lambda>g. g) (sample_host\<lparr>ho_guest := g\<rparr>) k = g k" "file_view (\<lambda>g. g) sample_host k = []"
  by (simp_all add: file_view_def node_tasks_def sample_host_def)



theorem share_commit_drains_witness:
  "\<exists>a s'. ss_write (sample_env full_guest) sample_host (nk 10) 0 [1, 2, 3] False = (Ok a, s')
     \<and> node_tasks (nk 10) s' \<noteq> [] \<and> node_tasks (nk 10) (snd (ss_commit (sample_env full_guest) s' (nk 10) 0 0)) = []"
proof -
  obtain a s' where w: "ss_write (sample_env full_guest) sample_host (nk 10) 0 [1, 2, 3] False = (Ok a, s')"
    and t: "ho_tasks s' = [\<lparr>wt_node = nk 10, wt_off = 0, wt_data = [1, 2, 3], wt_id = 0\<rparr>]" and ok: "wb_ok s'"
    by (rule sample_write)
  have "node_tasks (nk 10) s' \<noteq> []" using t by (simp add: node_tasks_def)
  then show ?thesis using share_commit_drains [OF ok, of "nk 10" "sample_env full_guest"] w by auto
qed

text \<open>
  C14. A batch that the guest refuses is reported by a COMMIT that waits for it. When the
  batch has already landed, the COMMIT reports success: the queue is idle, and the drain looks at
  the recorded error only when something is in flight.
\<close>

theorem commit_misses_landed_failure:
  assumes ok: "wb_ok s" and t: "node_tasks k s = [t]" and e0: "nw_err (writes_of k s) = None"
    and f: "fst (write_through E k (wt_off t) (wt_data t) s) = Err e" and d: "nw_dirty (writes_of k s)"
    and g: "\<And>g. g_up (en_guest E) g"
    and c: "\<And>g. \<exists>a. fst (g_call (en_guest E) g (ReqCommitRange (ho_share_id s) k 0 0)) = Some (RespAttr a)"
  shows "fst (ss_commit E s k 0 0) = Err e \<and> (\<exists>a. fst (ss_commit E (land_task E t s) k 0 0) = Ok a)"
proof (rule land_task_split [of E t s])
  fix res s1 s2
  assume w: "write_through E (wt_node t) (wt_off t) (wt_data t) s = (res, s1)"
    and s2: "s2 = s1\<lparr>ho_writes := fmupd (wt_node t) (fst (land_queue res t (writes_of (wt_node t) s))) (ho_writes s),
            ho_tasks := remove1 t (ho_tasks s)\<rparr>"
    and l: "land_task E t s = s2 \<or> land_task E t s = snd (mutate_attr E (ReqCommit (ho_share_id s) (wt_node t)) s2)"
  have k: "wt_node t = k" using t by (auto simp: node_tasks_def filter_eq_Cons_iff)
  have r: "res = Err e" using f w k by simp
  let ?q = "fst (land_queue res t (writes_of k s))" and ?s = "land_task E t s"
  have w': "ho_writes ?s = fmupd k ?q (ho_writes s)"
    using l frame_commit_call [of s2 E "ReqCommit (ho_share_id s) (wt_node t)"] k by (auto simp: s2 same_queues_def)
  have q: "nw_err ?q = Some e" "nw_dirty ?q" using land_queue_fields(4,6) [of res t "writes_of k s"] r e0 d by simp_all
  have n: "node_tasks k ?s = []" "wb_ok ?s" using wb_ok_land [OF ok, of t "[]"] t k by simp_all
  have "drain_writes E k s = (Some e, put_writes k (?q\<lparr>nw_err := None\<rparr>) ?s)"
    using t q(1) by (simp add: drain_writes_eq [OF ok] all_landed_def writes_of_def w')
  then have 1: "fst (ss_commit E s k 0 0) = Err e" by (simp add: ss_commit_def drain_writes_def [symmetric])
  define s4 where "s4 = put_writes k (?q\<lparr>nw_dirty := False\<rparr>) ?s"
  have d': "drain_writes E k ?s = (None, ?s)" by (simp add: drain_writes_eq [OF n(2)] n(1))
  have c': "commit_clean k ?s = (False, s4)" using q(2) by (simp add: commit_clean_def w' s4_def)
  have "ho_share_id s4 = ho_share_id s" using same_rest_land [of s E t] by (simp add: same_rest_iff s4_def put_writes_def)
  then obtain a s3 where m: "mutate_attr E (ReqCommitRange (ho_share_id s4) k 0 0) s4 = (Ok a, s3)"
    using g c [of "ho_guest s4"] by (auto simp: mutate_attr_def mutate_def on_ok_def Let_def case_prod_unfold)
  have "\<exists>a. fst (ss_commit E ?s k 0 0) = Ok a"
    unfolding ss_commit_def if_P [OF refl] drain_writes_def [symmetric] d' prod.case option.case c' Let_def if_False m sum.case
    by (simp add: case_prod_unfold)
  then show ?thesis using 1 by blast
qed

theorem commit_misses_landed_failure_witness:
  "\<exists>a s' t. ss_write (sample_env full_guest) sample_host (nk 10) 0 [1, 2, 3] False = (Ok a, s')
     \<and> fst (ss_commit (sample_env full_guest) s' (nk 10) 0 0) = Err NeNoSpace
     \<and> (\<exists>b. fst (ss_commit (sample_env full_guest) (land_task (sample_env full_guest) t s') (nk 10) 0 0) = Ok b)"
proof -
  let ?E = "sample_env full_guest"
  let ?t = "\<lparr>wt_node = nk 10, wt_off = 0, wt_data = [1, 2, 3], wt_id = 0\<rparr>"
  obtain a s' where w: "ss_write ?E sample_host (nk 10) 0 [1, 2, 3] False = (Ok a, s')"
    and t: "ho_tasks s' = [?t]" and ok: "wb_ok s'" and e: "nw_err (writes_of (nk 10) s') = None"
    and d: "nw_dirty (writes_of (nk 10) s')"
    by (rule sample_write)
  have t': "node_tasks (nk 10) s' = [?t]" using t by (simp add: node_tasks_def)
  have c: "chunks WRITE_CHUNK [1, 2, 3 :: u8] = [[1, 2, 3]]"
    by (subst chunks.simps, subst chunks.simps) (simp add: WRITE_CHUNK_def)
  have f: "fst (write_through ?E (nk 10) (wt_off ?t) (wt_data ?t) s') = Err NeNoSpace"
    by (simp add: write_through_def c Let_def sample_env_def full_guest_def mem_guest_def write_reply_of_def from_errno_def)
  show ?thesis
    using w commit_misses_landed_failure [OF ok t' e f d]
    by (auto simp: sample_env_def full_guest_def mem_guest_def)
qed

text \<open>
  C12. In every run of a share each registered batch is a task in flight and the other way
  round, in the order of arrival and with distinct numbers, the counter of a queue is their
  number, and at most 96 batches are retained.
\<close>

theorem share_queues_exact:
  assumes "serves E s0 s" "ho_writes s0 = fmempty" "ho_tasks s0 = []"
  shows "length (ho_tasks s) \<le> 96 \<and> (\<forall>k. distinct (map wt_id (node_tasks k s))
    \<and> nw_pending (writes_of k s) = map task_batch (node_tasks k s)
    \<and> unat (nw_inflight (writes_of k s)) = length (node_tasks k s))"
proof -
  have "wb_ok s" by (rule serves_wb_ok [OF assms(1) wb_ok_empty [OF assms(2,3)]])
  then show ?thesis using queue_ok_distinct by (auto simp: wb_ok_def queue_ok_def WRITE_BEHIND_SLOTS_def)
qed

theorem share_queues_exact_witness:
  "nw_pending (writes_of (nk 10) (snd (ss_write (sample_env mem_guest) sample_host (nk 10) 0 [1, 2, 3] False))) = [(0, 3, 0)]"
proof -
  let ?E = "sample_env mem_guest"
  let ?t = "\<lparr>wt_node = nk 10, wt_off = 0, wt_data = [1, 2, 3], wt_id = 0\<rparr>"
  obtain a s' where w: "ss_write ?E sample_host (nk 10) 0 [1, 2, 3] False = (Ok a, s')" and t: "ho_tasks s' = [?t]"
    by (rule sample_write)
  have "serves ?E sample_host (snd (ss_write ?E sample_host (nk 10) 0 [1, 2, 3] False))"
    by (rule serves.write_step [OF serves.start]) simp
  from share_queues_exact [OF this] w t show ?thesis by (simp add: sample_host_def node_tasks_def task_batch_def)
qed


end
