(* ===== verification/Share_Mount.thy ===== *)
theory Share_Mount
  imports Nfs3_Props Share_Props Replica_Props Readdir
begin

text \<open>
  The exported share as a mount surface: it keeps the laws that the NFS front end relies on, so
  what is shown of clients of a mount surface holds of it. A file created over NFS is found.
\<close>

section \<open>The share is a mount surface\<close>

definition host_wf :: "('t, 'g, 'h) env \<Rightarrow> ('t \<Rightarrow> (u64 \<times> u32) multiset) \<Rightarrow> nat \<Rightarrow> ('t, 'g, 'h) host \<Rightarrow> bool" where
  "host_wf E slots n s \<longleftrightarrow> base_ok (en_index E) slots n (ho_replica s)"

lemma map_res_Ok: "map_res f x = Ok y \<longleftrightarrow> (\<exists>a. x = Ok a \<and> y = f a)"
  by (auto simp: map_res_def split: sum.splits)

lemma readdir_page:
  assumes "hash_index H slots" "dirs_wf H slots r" "rep_readdir r dir cookie m = Ok page"
  obtains xs where "rdp_entries page = map rde_of (take m xs)" "\<forall>x \<in> set xs. cookie < dt_cookie x"
    "sorted_wrt (<) (map dt_cookie xs)"
proof -
  obtain n d where n: "get_node r dir = Some n" "n_dir n = Some d"
    and p: "page_loop d m (range_after d cookie) [] = Ok (rdp_entries page, rdp_eof page)"
    using assms(3) by (auto simp: rep_readdir_def split: option.splits if_splits sum.splits prod.splits)
  have "get_dir r dir = Some d" using n by (simp add: get_dir_def)
  then have wf: "dir_wf H slots d" using assms(2) by (simp add: dirs_wf_def)
  have "sorted_wrt (<) (map dt_cookie (dents d))"
    using dir_wfD(6) [OF wf] by (auto simp: dents_def live_def sorted_wrt_map sorted_wrt_filter dentry_of_def)
  then have s: "sorted_wrt (<) (map dt_cookie (filter (\<lambda>x. cookie < dt_cookie x) (dents d)))"
    by (simp add: sorted_wrt_map sorted_wrt_filter)
  have e: "rdp_entries page = map rde_of (take m (filter (\<lambda>x. cookie < dt_cookie x) (dents d)))"
    using hash_index.page_refines [OF assms(1) wf, of m cookie] p by simp
  show ?thesis by (rule that [OF e _ s]) simp
qed

lemma share_mount_surface:
  assumes H: "hash_index (en_index E) slots"
  shows "mount_surface (share_surface E) (host_wf E slots n)"
proof
  fix s dir cookie m wa p
  assume wf: "host_wf E slots n s" and r: "sf_readdir (share_surface E) s dir cookie m wa = Ok p"
  obtain page where page: "rep_readdir (ho_replica s) dir cookie m = Ok page"
    and p: "map de_name (np_entries p) = map (\<lambda>e. as_bytes (rde_name e)) (rdp_entries page)"
      "map de_cookie (np_entries p) = map rde_cookie (rdp_entries page)"
    using r by (auto simp: share_surface_def ss_readdir_def map_res_Ok)
  have "dirs_wf (en_index E) slots (ho_replica s)" using wf by (simp add: host_wf_def base_ok_def)
  then obtain xs where xs: "rdp_entries page = map rde_of (take m xs)" "\<forall>x \<in> set xs. cookie < dt_cookie x"
    "sorted_wrt (<) (map dt_cookie xs)"
    using readdir_page [OF H _ page] by blast
  have c: "map de_cookie (np_entries p) = take m (map dt_cookie xs)"
    using p(2) xs(1) by (simp add: rde_of_def comp_def take_map)
  have "length (map de_cookie (np_entries p)) \<le> m" unfolding c by simp
  then show "length (np_entries p) \<le> m" by simp
  show "sorted_wrt (<) (cookie # map de_cookie (np_entries p))"
    using xs(2) sorted_wrt_take [OF xs(3), of m] unfolding c by (auto dest!: in_set_takeD)
  fix e assume "e \<in> set (np_entries p)"
  then have "de_name e \<in> set (map de_name (np_entries p))" by simp
  then show "length (de_name e) \<le> 255" unfolding p(1) using as_bytes_facts(2) by auto
next
  fix s dir nm node a
  assume "sf_lookup (share_surface E) s dir nm = Ok (node, a)"
  then show "sf_getattr (share_surface E) s node = Ok a"
    by (auto simp: share_surface_def ss_lookup_def ss_getattr_def map_res_Ok rep_lookup_def map_res_def
        split: option.splits sum.splits prod.splits)
qed

text \<open>The instance with the association list as the index of the directory tables.\<close>

definition list_env ::
    "'g guest \<Rightarrow> (bytes \<Rightarrow> 'h) \<Rightarrow> (bytes \<Rightarrow> bytes) \<Rightarrow> bool \<Rightarrow> ((u64 \<times> u32) list, 'g, 'h) env" where
  "list_env G h lossy sf = \<lparr>en_index = list_index, en_guest = G, en_hash = h, en_lossy = lossy, en_sendfile = sf\<rparr>"

interpretation share_mount: mount_surface "share_surface (list_env G h lossy sf)" "host_wf (list_env G h lossy sf) mset 0"
  for G h lossy sf
  by (rule share_mount_surface) (simp add: list_env_def list_index.hash_index_axioms)

section \<open>Creating a file over NFS\<close>

lemma attr_changed_shape: "same_shape r (fst (apply_rec H r (AttrChanged k a)))"
  using same_shape_update_attr [of r k a] same_shape_trans [OF _ same_shape_stash_pending]
  by (auto simp: case_prod_unfold split: bool.split)

lemma bump_dir_shape: "same_shape (ho_replica s) (ho_replica (bump_dir E k s))"
  using attr_changed_shape [of "ho_replica s" "en_index E"]
  by (auto simp: bump_dir_def host_dirty_def host_apply_def ho_replica_def Let_def simp del: apply_rec.simps split: sum.split)

lemma replica_mutate: "ho_replica (snd (mutate E req s)) = ho_replica s"
  by (simp add: mutate_def Let_def ho_replica_def case_prod_unfold split: option.split rpc_resp.split)

lemma replica_mutate_entry: "ho_replica (snd (mutate_entry E req s)) = ho_replica s"
  using replica_mutate [of E req s] by (simp add: mutate_entry_def on_ok_def split: sum.split rpc_resp.split)

lemma host_wf_apply:
  assumes "hash_index (en_index E) slots" "host_wf E slots (rec_weight c + n) s"
  shows "host_wf E slots n (host_apply E c s)"
  using hash_index.apply_rec_ok(1) [OF assms(1) assms(2) [unfolded host_wf_def]]
  by (simp add: host_wf_def host_apply_def ho_replica_def del: apply_rec.simps)

lemma host_wf_bump:
  assumes "hash_index (en_index E) slots" "host_wf E slots n s"
  shows "host_wf E slots n (bump_dir E k s)"
proof -
  have d: "host_wf E slots n (host_dirty k s0) = host_wf E slots n s0" for s0
    by (simp add: host_wf_def host_dirty_def ho_replica_def)
  have "host_wf E slots n (host_apply E (AttrChanged k a) s)" for a
    by (rule host_wf_apply [OF assms(1)]) (use assms(2) in simp)
  then show ?thesis using assms(2) by (simp add: bump_dir_def d Let_def split: sum.split)
qed

lemma share_create_ok:
  assumes "ss_create E s dir nm k mode = (Ok (node, a), s')"
  obtains n a0 where "nm = as_bytes n"
    "same_shape (fst (apply_rec (en_index E) (ho_replica s) (Created dir n node (Some a0)))) (ho_replica s')"
    "ho_share_id s' = ho_share_id s"
    "\<And>slots. hash_index (en_index E) slots \<Longrightarrow> host_wf E slots 1 s \<Longrightarrow> host_wf E slots 0 s'"
proof -
  obtain mk ex rd tg where c: "create_parts k = (mk, ex, rd, tg)" by (metis prod_cases4)
  obtain n where n: "name_of_bytes nm = Ok n"
    using assms by (auto simp: ss_create_def elim!: on_ok_cases)
  then have nm: "nm = as_bytes n" by (auto simp: name_of_bytes_def name_new_Ok_iff split: sum.splits)
  let ?req = "ReqCreate (ho_share_id s) dir n mk mode rd tg ex"
  obtain x s1 where m: "mutate_entry E ?req s = (x, s1)" by fastforce
  then obtain a0 where f: "x = Ok (node, a0)"
      "s' = bump_dir E dir (host_dirty node (host_apply E (Created dir n node (Some a0)) s1))"
    using assms by (auto simp: ss_create_def n c m on_ok_def Let_def split: sum.splits prod.splits)
  have s1: "ho_replica s1 = ho_replica s" "ho_share_id s1 = ho_share_id s"
    using replica_mutate_entry [of E ?req s] frame_mutate_kinds(3) [of s s E ?req] m by (simp_all add: same_queues_def)
  have "same_guest s1 s'" by (simp add: f(2) frame)
  then have sid: "ho_share_id s' = ho_share_id s" using s1(2) by (simp add: same_guest_def same_queues_def)
  have wf: "host_wf E slots 0 s'" if "hash_index (en_index E) slots" "host_wf E slots 1 s" for slots
  proof -
    have "host_wf E slots (rec_weight (Created dir n node (Some a0)) + 0) s1" using that(2) s1(1) by (simp add: host_wf_def)
    from host_wf_apply [OF that(1) this] show ?thesis
      unfolding f(2) by (intro host_wf_bump [OF that(1)]) (simp add: host_wf_def host_dirty_def ho_replica_def)
  qed
  have "same_shape (fst (apply_rec (en_index E) (ho_replica s) (Created dir n node (Some a0)))) (ho_replica s')"
    using bump_dir_shape [of "host_dirty node (host_apply E (Created dir n node (Some a0)) s1)" E dir] s1(1)
    by (simp add: f(2) host_dirty_def host_apply_def ho_replica_def del: apply_rec.simps)
  then show ?thesis using that nm sid wf by blast
qed

lemma share_created_found:
  assumes H: "hash_index (en_index E) slots" and re: "reachable (en_index E) info (not_forced (en_index E)) (ho_replica s)"
    and rm: "roomy 1 (ho_replica s)" and d: "get_dir (ho_replica s) dir \<noteq> None" "get_node (ho_replica s') dir \<noteq> None"
    and c: "ss_create E s dir nm k mode = (Ok (node, a), s')"
  obtains at where "ss_lookup E s' dir nm = Ok (node, at)"
proof -
  obtain n a0 where n: "nm = as_bytes n"
    and sh: "same_shape (fst (apply_rec (en_index E) (ho_replica s) (Created dir n node (Some a0)))) (ho_replica s')"
    by (rule share_create_ok [OF c])
  let ?r = "fst (apply_rec (en_index E) (ho_replica s) (Created dir n node (Some a0)))"
  have none: "get_node (ho_replica s') q = None \<longleftrightarrow> get_node ?r q = None" for q
    using sh unfolding same_shape_def by (metis map_option_is_None)
  have d': "get_node ?r dir \<noteq> None" using d(2) none by simp
  have f: "rep_find (en_index E) (ho_replica s') dir nm = Some (node, created_kind (Some a0))"
    using created_resolves(1) [OF H re rm d(1) d'] rep_find_same_shape [OF sh] n by simp
  have g: "get_node (ho_replica s') node \<noteq> None"
    using created_resolves(2) [OF H re rm d(1) d'] none by simp
  obtain at where "rep_lookup (en_index E) (ho_replica s') dir nm = Ok (node, at)"
    using rep_lookup_find [OF f g] by blast
  then show ?thesis using that by (simp add: ss_lookup_def map_res_def)
qed

lemma nfsstat_not_ok: "nfsstat_of e \<noteq> NFS3_OK"
  by (cases e) (simp_all add: nfs3_consts)

lemma nfs3_create_as:
  assumes "xr_ok args" "xr_rest args = opaque_bytes (handle_encode km share dir) @ opaque_bytes nm @ t" "length nm \<le> 255"
  obtains k m where "nfs3_create S km s args w = create_reply S km s (sf_share_id S s) dir nm k m w"
proof -
  have r: "read_fh km args = (Some (share, dir), xr_adv 32 args)" by (rule read_fh_next [OF assms(1,2)])
  have "xr_ok (xr_adv 32 args)" "xr_rest (xr_adv 32 args) = opaque_bytes nm @ t"
    using xr_ok_adv [OF assms(1), of 32] assms(2) by (simp_all add: length_opaque_bytes)
  from readsD [OF reads_read_name [OF assms(3)] this] show ?thesis
    using that by (simp add: nfs3_create_def with_dir_name_def r Let_def case_prod_unfold)
qed

lemma create_reply_ok:
  assumes "create_reply S km s share dir nm k m w = (w @ be_bytes 4 NFS3_OK @ rest, s')"
  obtains node a rest' where "sf_create S s dir nm k m = (Ok (node, a), s')"
    "rest = be_bytes 4 (1 :: u32) @ opaque_bytes (handle_encode km share node) @ rest'"
proof -
  obtain x s1 where x: "sf_create S s dir nm k m = (x, s1)" by fastforce
  show ?thesis
  proof (cases x)
    case (Inl e)
    let ?fs = "[write_wcc_data share dir (ok_of (sf_getattr S s1 dir))]"
    have "aligned (emit ?fs)" by (rule aligned_emit) (simp add: writer_simps)
    from alignedD(1) [OF this, of "w @ be_bytes 4 (nfsstat_of e)"]
    have "be_bytes 4 (nfsstat_of e) @ emit ?fs [] = be_bytes 4 NFS3_OK @ rest"
      using assms by (auto simp: create_reply_def x Inl w_u32_def)
    then have "be_bytes 4 (nfsstat_of e) = be_bytes 4 NFS3_OK" by simp
    then have "nfsstat_of e = NFS3_OK" by (metis byte_order_widths(4))
    then show ?thesis using nfsstat_not_ok by simp
  next
    case (Inr y)
    obtain node a where y: "y = (node, a)" by fastforce
    let ?fs = "[write_post_op_attr share node (Some a), write_wcc_data share dir (ok_of (sf_getattr S s1 dir))]"
    let ?w = "w @ be_bytes 4 NFS3_OK @ be_bytes 4 (1 :: u32) @ opaque_bytes (handle_encode km share node)"
    have "aligned (emit ?fs)" by (rule aligned_emit) (simp add: writer_simps)
    from alignedD(1) [OF this, of ?w]
    have "be_bytes 4 (1 :: u32) @ opaque_bytes (handle_encode km share node) @ emit ?fs [] = rest" "s1 = s'"
      using assms by (auto simp: create_reply_def x Inr y w_u32_def w_bool_def write_post_op_fh_def w_opaque_append)
    then show ?thesis using that x Inr y by metis
  qed
qed

text \<open>
  C9. When CREATE over NFS succeeds, LOOKUP of the same name answers with the handle that
  CREATE answered with, and GETATTR accepts that handle: front end, share, replica and handle
  codec together.
\<close>

theorem nfs_create_then_lookup:
  assumes H: "hash_index (en_index E) slots" and re: "reachable (en_index E) info (not_forced (en_index E)) (ho_replica s)"
    and rm: "roomy 1 (ho_replica s)" and d: "get_dir (ho_replica s) dir \<noteq> None" "get_node (ho_replica s') dir \<noteq> None"
    and args: "xr_ok args" "xr_rest args = opaque_bytes (handle_encode km share dir) @ opaque_bytes nm @ t" "length nm \<le> 255"
    and c: "nfs3_create (share_surface E) km s args w = (w @ be_bytes 4 NFS3_OK @ rest, s')"
  shows "\<exists>fh r1 r2 r3. rest = be_bytes 4 (1 :: u32) @ opaque_bytes fh @ r1
    \<and> nfs3_lookup (share_surface E) km s' args w' = (w' @ be_bytes 4 NFS3_OK @ opaque_bytes fh @ r2, s')
    \<and> nfs3_getattr (share_surface E) km s' (xdr_new (opaque_bytes fh)) w' = (w' @ be_bytes 4 NFS3_OK @ r3, s')"
proof -
  obtain k m where "nfs3_create (share_surface E) km s args w = create_reply (share_surface E) km s (ho_share_id s) dir nm k m w"
    using nfs3_create_as [OF args, of "share_surface E" s w] by (auto simp: share_surface_def)
  then have "create_reply (share_surface E) km s (ho_share_id s) dir nm k m w = (w @ be_bytes 4 NFS3_OK @ rest, s')"
    using c by simp
  then obtain node a rest' where cr: "sf_create (share_surface E) s dir nm k m = (Ok (node, a), s')"
    and r: "rest = be_bytes 4 (1 :: u32) @ opaque_bytes (handle_encode km (ho_share_id s) node) @ rest'"
    by (rule create_reply_ok)
  have cr': "ss_create E s dir nm k m = (Ok (node, a), s')" using cr by (simp add: share_surface_def)
  obtain at where "ss_lookup E s' dir nm = Ok (node, at)" by (rule share_created_found [OF H re rm d cr'])
  then have l: "sf_lookup (share_surface E) s' dir nm = Ok (node, at)" by (simp add: share_surface_def)
  have sid: "sf_share_id (share_surface E) s' = ho_share_id s"
    by (rule share_create_ok [OF cr']) (simp add: share_surface_def)
  have "host_wf E slots 1 s"
    using hash_index.reachable_base [OF H re] rm by (simp add: host_wf_def base_ok_def)
  then have wf: "host_wf E slots 0 s'" using share_create_ok [OF cr'] H by metis
  note l' = mount_surface.lookup_then_getattr [OF share_mount_surface [OF H] wf args(3) l args(1,2), of w', unfolded sid]
  show ?thesis using r l' by blast
qed

text \<open>A guest that answers a create with a fixed node.\<close>

definition create_guest :: "(node_key \<Rightarrow> bytes) guest" where
  "create_guest = mem_guest\<lparr>g_call := (\<lambda>g _. (Some (RespEntry (nk 12) file_attr), g))\<rparr>"

definition create_call :: bytes where
  "create_call = opaque_bytes (handle_encode (\<lambda>_. 7) 0 (nk 2)) @ opaque_bytes [97, 98] @ be_bytes 4 (0 :: u32)"

lemma create_reply_shape:
  assumes "sf_create S s dir nm k m = (Ok (node, a), s')"
  shows "\<exists>rest. create_reply S km s share dir nm k m w = (w @ be_bytes 4 NFS3_OK @ rest, s')"
proof -
  let ?fs = "[write_post_op_fh km share node, write_post_op_attr share node (Some a),
      write_wcc_data share dir (ok_of (sf_getattr S s' dir))]"
  have "aligned (emit ?fs)" by (rule aligned_emit) (simp add: writer_simps)
  from alignedD(1) [OF this, of "w @ be_bytes 4 NFS3_OK"] show ?thesis
    by (simp add: create_reply_def assms w_u32_def)
qed

lemma sample_create:
  obtains a s' where "ss_create (sample_env create_guest) sample_host (nk 2) [97, 98] k m = (Ok (nk 12, a), s')"
    "get_node (ho_replica s') (nk 2) \<noteq> None"
proof -
  let ?E = "sample_env create_guest"
  have n: "name_of_bytes [97, 98] = Ok name_ab"
    using name_new_as_bytes [of name_ab] by (simp add: name_of_bytes_def)
  have "\<exists>a s'. ss_create ?E sample_host (nk 2) [97, 98] k m = (Ok (nk 12, a), s')"
    by (simp add: ss_create_def n on_ok_def mutate_entry_def mutate_def sample_env_def create_guest_def mem_guest_def Let_def
        case_prod_unfold)
  then obtain a s' where c: "ss_create ?E sample_host (nk 2) [97, 98] k m = (Ok (nk 12, a), s')" by blast
  have s': "s' = bump_dir ?E (nk 2) (host_dirty (nk 12) (host_apply ?E (Created (nk 2) name_ab (nk 12) (Some file_attr)) sample_host))"
    using c by (simp add: ss_create_def n on_ok_def mutate_entry_def mutate_def sample_env_def create_guest_def mem_guest_def
        Let_def case_prod_unfold sample_host_def)
  let ?r = "fst (apply_rec list_index sample_rep (Created (nk 2) name_ab (nk 12) (Some file_attr)))"
  have "same_shape ?r (ho_replica s')"
    using bump_dir_shape [of "host_dirty (nk 12) (host_apply ?E (Created (nk 2) name_ab (nk 12) (Some file_attr)) sample_host)"]
    by (simp add: s' host_dirty_def host_apply_def ho_replica_def sample_host_def sample_env_def del: apply_rec.simps)
  moreover have "get_node ?r (nk 2) \<noteq> None" by code_simp
  ultimately have "get_node (ho_replica s') (nk 2) \<noteq> None"
    unfolding same_shape_def by (metis map_option_is_None)
  then show ?thesis using that c by blast
qed

theorem nfs_create_then_lookup_witness:
  "\<exists>fh s' r1 r2. nfs3_create (share_surface (sample_env create_guest)) (\<lambda>_. 7) sample_host (xdr_new create_call) [] =
       (be_bytes 4 NFS3_OK @ be_bytes 4 (1 :: u32) @ opaque_bytes fh @ r1, s')
     \<and> nfs3_lookup (share_surface (sample_env create_guest)) (\<lambda>_. 7) s' (xdr_new create_call) [] =
       (be_bytes 4 NFS3_OK @ opaque_bytes fh @ r2, s')"
proof -
  let ?S = "share_surface (sample_env create_guest)" and ?km = "\<lambda>_. 7 :: u64"
  have args: "xr_ok (xdr_new create_call)" "xr_rest (xdr_new create_call) =
      opaque_bytes (handle_encode ?km 0 (nk 2)) @ opaque_bytes [97, 98] @ be_bytes 4 (0 :: u32)" "length [97, 98 :: u8] \<le> 255"
    by (simp_all add: create_call_def)
  obtain k m where k: "nfs3_create ?S ?km sample_host (xdr_new create_call) [] =
      create_reply ?S ?km sample_host (sf_share_id ?S sample_host) (nk 2) [97, 98] k m []"
    by (rule nfs3_create_as [OF args])
  obtain a s' where c: "ss_create (sample_env create_guest) sample_host (nk 2) [97, 98] k m = (Ok (nk 12, a), s')"
    and d: "get_node (ho_replica s') (nk 2) \<noteq> None" by (rule sample_create)
  have "sf_create ?S sample_host (nk 2) [97, 98] k m = (Ok (nk 12, a), s')" using c by (simp add: share_surface_def)
  from create_reply_shape [OF this, of ?km "sf_share_id ?S sample_host" "[]"] k
  obtain rest where r: "nfs3_create ?S ?km sample_host (xdr_new create_call) [] = ([] @ be_bytes 4 NFS3_OK @ rest, s')" by auto
  have e: "en_index (sample_env create_guest) = list_index" by (simp add: sample_env_def)
  have re: "ho_replica sample_host = sample_rep" by (simp add: ho_replica_def sample_host_def)
  have g: "get_dir (ho_replica sample_host) (nk 2) \<noteq> None" unfolding re by code_simp
  have rm: "roomy 1 (ho_replica sample_host)" unfolding re by (rule sample_roomy) simp
  show ?thesis
    using nfs_create_then_lookup [OF _ _ rm g d args r, of mset sample_info "[]"] r
      list_index.hash_index_axioms sample_reachable [of "not_forced list_index"]
    unfolding e re by fastforce
qed

end
