(* ===== verification/Spec2Isabelle.thy ===== *)
theory Spec2Isabelle
  imports Proto_Frame Replica_Props Readdir Session_Props Cas_Props Nfs3_Props Share_Props Share_Mount
begin

text \<open>
  \<^bold>\<open>Mist.\<close> A daemon in a Linux guest (\<^verbatim>\<open>mistd\<close>) watches a file tree and streams it, first as a
  snapshot and then as a journal of changes, to a host daemon (\<^verbatim>\<open>mist-hostd\<close>). The host keeps a
  replica of the metadata (\<^verbatim>\<open>mist-replica\<close>) and a content-addressed cache of file contents
  (\<^verbatim>\<open>mist-cas\<close>), and exports both over NFS (\<^verbatim>\<open>mist-nfs\<close>). Reads of metadata never leave the host;
  writes go to the guest over RPC lanes, mostly behind the reply to the client. All paths below
  are under \<^verbatim>\<open>crates/\<close>.

  \<^bold>\<open>Wire format.\<close> \<open>Mist_Prelude\<close> holds the byte orders, saturating arithmetic, finite-map counts and
  slices that the other theories share. \<open>Proto_Types\<close> models the domain types of
  \<^verbatim>\<open>mist-proto/src/{types,caps,validate,lib}.rs\<close>, with names as a type of their own, \<open>Proto_Msg\<close> the
  messages and their validation (\<^verbatim>\<open>msg.rs\<close>, \<^verbatim>\<open>codec.rs\<close>; the postcard codec is a parameter), and
  \<open>Proto_Frame\<close> the frame header and the framed lane (\<^verbatim>\<open>frame.rs\<close>, \<^verbatim>\<open>mist-transport/src/framed.rs\<close>).
  Shown: the header decoder accepts exactly the encodings of headers; frames and messages that
  are written are read back; what is decoded obeys the caps.

  \<^bold>\<open>Replica.\<close> \<open>Dir_State\<close> and \<open>Replica\<close> model \<^verbatim>\<open>mist-replica/src/lib.rs\<close> function by function: the
  directory table with its name arena, tombstones, cookies and compaction, the node table, links,
  pending records, snapshot and journal application. The hash table of a directory is the
  parameter \<open>H\<close> with the laws of locale \<open>hash_index\<close>, interpreted by an association list.
  \<open>Replica_Inv\<close> has the invariants and their preservation by every operation, \<open>Replica_Reach\<close> the
  reachable states as an inductive predicate, \<open>Replica_Props\<close> the properties: exact counters and
  link counts, no dangling dentry, collection of orphaned subtrees, the effect of each record.
  \<open>Readdir\<close> shows that paging through a directory terminates with every live entry once, also
  while entries are created, removed and compacted between the pages. \<open>Samples\<close> holds the
  concrete share that the examples use.

  \<^bold>\<open>Session.\<close> \<open>Conflicts\<close> models \<^verbatim>\<open>mist-hostd/src/conflicts.rs\<close>, \<open>Session\<close> the assembler of
  \<^verbatim>\<open>mist-hostd/src/session.rs\<close> (snapshots in staging, live batches, gaps, resync requests, the echo
  fence) together with the batcher of \<^verbatim>\<open>mistd/src/linux/journal.rs\<close>. \<open>Session_Props\<close> composes the
  two: batches cut anywhere deliver the records in order, a snapshot interleaved with batches
  becomes visible as one consistent cut, a gap leads to a resync, and the mounted replicas keep
  their invariants in every run.

  \<^bold>\<open>Cache.\<close> \<open>Cas\<close> models \<^verbatim>\<open>mist-cas/src/lib.rs\<close>: tables, blob files, handles, accounting, eviction,
  scrub, and the loss of non-durable commits in a crash. The hash is a parameter that is assumed
  injective where it matters. \<open>Cas_Evict\<close> and \<open>Cas_Props\<close> show that only ingested bytes are served, that
  the totals are exact, and that eviction meets its bound.

  \<^bold>\<open>NFS front end.\<close> \<open>Xdr\<close> and \<open>Rpc\<close> model \<^verbatim>\<open>mist-nfs/src/{xdr,rpc,server,handle}.rs\<close>: the XDR
  reader and writer, calls and replies, record marking over a stream that delivers and accepts
  bytes in any portions, and the file handles, whose keyed hash is a parameter. \<open>Nfs_Surface\<close> is
  the trait of \<^verbatim>\<open>surface.rs\<close> as a record of functions over a state, with the locale
  \<open>mount_surface\<close> of the laws that the front end relies on. \<open>Nfs3\<close> models every procedure of
  \<^verbatim>\<open>nfs3.rs\<close>, \<^verbatim>\<open>mount3.rs\<close> and the dispatch of one record; \<open>Nfs3_Props\<close> shows that replies are whole XDR
  words, that forged handles are inert, and the facts for clients of a mount surface.

  \<^bold>\<open>Exported share.\<close> \<open>Share_Surface\<close> models \<^verbatim>\<open>mist-hostd/src/surface.rs\<close>, the surface that the
  front end serves: replica lookups, reads through the cache, mutations over the RPC lanes with
  optimistic updates, the write-behind queues. The guest behind the lanes is a parameter. A spawned
  task is an element of a list in the state and runs when it is landed, by a step of its own or
  because an operation waits for it; batches of one file land in order. \<open>Write_Behind\<close> has the
  invariant that ties queues and tasks and its preservation in every run (\<open>serves\<close>),
  \<open>Share_Files\<close> the view of the files with the queued batches applied, for a guest that stores
  files (\<open>file_guest\<close>), and \<open>Share_Props\<close> the properties: writes and reads through the share
  refine writes and reads of a file, COMMIT leaves nothing in flight, the queues are exact,
  COMMIT can miss a failure that was recorded before it, and the assembly of cache chunks from
  overlapping writes can leave a hole. \<open>Share_Mount\<close> interprets \<open>mount_surface\<close>
  with the share and composes front end, share and replica: a file created over NFS is found.

  \<^bold>\<open>Bounds and fuel.\<close> Machine integers are words and wrap as in the code. Theorems about the
  replica assume room in its 32-bit counters (\<open>roomy\<close>), and writes end below 2 to the 64.
  \<open>read_pages\<close> and the cached read take fuel; the paging theorem gives the fuel that is enough, and
  the loop of a cached read makes progress in every pass, so its fuel is the length of the range.
  Instants are integers in nanoseconds.

  \<^bold>\<open>Not modelled.\<close> NFSv4.1 (\<^verbatim>\<open>mist-nfs/src/nfs41\<close>), the side store and path resolution of the host
  (\<^verbatim>\<open>sidestore.rs\<close>, \<^verbatim>\<open>resolve.rs\<close>), mounting, control socket and configuration (\<^verbatim>\<open>mount.rs\<close>,
  \<^verbatim>\<open>control.rs\<close>, \<^verbatim>\<open>config.rs\<close>), the RPC client, and the guest daemon apart from its batcher: these
  are mostly system calls, sockets and process handling, or are left out for size. I/O errors
  of the local disk, tracing and buffer pooling are left out of the modelled parts.
\<close>

end
